(* ===== verification/Prelude.thy ===== *)
theory Prelude
  imports Main "HOL-Library.Word" "HOL-Library.Signed_Division"
begin

text \<open>
  The prelude of the SoroStream development: outcomes of a contract invocation (a value, a
  contract error or a panic), Rust's checked, saturating and panicking integer operations at
  the widths the contracts use (\<open>u32\<close>, \<open>u64\<close>, \<open>i128\<close>), and sums over finite maps, which
  the accounting invariants are stated with.

  Unsigned integers are \<open>nat\<close> and \<open>i128\<close> is \<open>int\<close>; every operation that can leave the
  width says what happens then. The workspace's release profile sets \<open>overflow-checks = true\<close>,
  so the plain operators panic.
\<close>

named_theorems outcome \<open>inversion rules for successful outcomes\<close>
named_theorems rust_int \<open>definitions of Rust's integer operations\<close>
named_theorems handler \<open>unfolding rules of storage accessors and small helpers\<close>

section \<open>Outcomes\<close>

datatype panic =
    Auth_failed
  | Arith_overflow
  | Div_by_zero
  | Expect_failed string
  | Panic_msg string
  | Host_trap

datatype 'e abort = Err 'e | Panic panic

type_synonym ('e, 'a) outcome = "'e abort + 'a"

definition bindE :: "('e, 'a) outcome \<Rightarrow> ('a \<Rightarrow> ('e, 'b) outcome) \<Rightarrow> ('e, 'b) outcome" where
  "bindE m f = (case m of Inl e \<Rightarrow> Inl e | Inr a \<Rightarrow> f a)"

definition ok_or :: "'e \<Rightarrow> 'a option \<Rightarrow> ('e, 'a) outcome" where
  "ok_or e x = (case x of None \<Rightarrow> Inl (Err e) | Some a \<Rightarrow> Inr a)"

definition expect :: "string \<Rightarrow> 'a option \<Rightarrow> ('e, 'a) outcome" where
  "expect msg x = (case x of None \<Rightarrow> Inl (Panic (Expect_failed msg)) | Some a \<Rightarrow> Inr a)"

definition unwrap_or :: "'a \<Rightarrow> 'a option \<Rightarrow> 'a" where
  "unwrap_or d x = (case x of None \<Rightarrow> d | Some a \<Rightarrow> a)"

lemma bindE_Inl [simp]: "bindE (Inl e) f = Inl e"
  by (simp add: bindE_def)

lemma bindE_Inr [simp]: "bindE (Inr a) f = f a"
  by (simp add: bindE_def)

lemma bindE_eq_Inr [outcome]: "bindE m f = Inr y \<longleftrightarrow> (\<exists>x. m = Inr x \<and> f x = Inr y)"
  by (cases m) simp_all

lemma bindE_cong [fundef_cong]:
  "m = m' \<Longrightarrow> (\<And>a. m' = Inr a \<Longrightarrow> f a = g a) \<Longrightarrow> bindE m f = bindE m' g"
  by (cases m') (auto simp: bindE_def)

lemma bindE_assoc: "bindE (bindE m f) g = bindE m (\<lambda>x. bindE (f x) g)"
  by (cases m) simp_all

lemma ok_or_None [simp]: "ok_or e None = Inl (Err e)"
  by (simp add: ok_or_def)

lemma ok_or_Some [simp]: "ok_or e (Some a) = Inr a"
  by (simp add: ok_or_def)

lemma ok_or_eq_Inr [outcome]: "ok_or e x = Inr a \<longleftrightarrow> x = Some a"
  by (simp add: ok_or_def split: option.split)

lemma expect_None [simp]: "expect msg None = Inl (Panic (Expect_failed msg))"
  by (simp add: expect_def)

lemma expect_Some [simp]: "expect msg (Some a) = Inr a"
  by (simp add: expect_def)

lemma expect_eq_Inr [outcome]: "expect msg x = Inr a \<longleftrightarrow> x = Some a"
  by (simp add: expect_def split: option.split)

lemma unwrap_or_None [simp]: "unwrap_or d None = d"
  by (simp add: unwrap_or_def)

lemma unwrap_or_Some [simp]: "unwrap_or d (Some a) = a"
  by (simp add: unwrap_or_def)

lemma if_Inl_eq_Inr [outcome]: "(if c then Inl e else m) = Inr y \<longleftrightarrow> \<not> c \<and> m = Inr y"
  by simp

section \<open>Rust integers\<close>

subsection \<open>Ranges\<close>

definition u32_max :: nat where "u32_max = 2 ^ 32 - 1"
definition u64_max :: nat where "u64_max = 2 ^ 64 - 1"
definition i128_max :: int where "i128_max = 2 ^ 127 - 1"
definition i128_min :: int where "i128_min = - (2 ^ 127)"

definition in_i128 :: "int \<Rightarrow> bool" where
  "in_i128 x \<longleftrightarrow> i128_min \<le> x \<and> x \<le> i128_max"

lemma i128_bounds: "i128_min < 0" "0 < i128_max" "i128_min = - i128_max - 1"
  by (simp_all add: i128_min_def i128_max_def)

lemma u64_fits_i128: "n \<le> u64_max \<Longrightarrow> in_i128 (int n)"
  by (simp add: in_i128_def i128_min_def i128_max_def u64_max_def)

lemma in_i128_between: "a \<le> x \<Longrightarrow> x \<le> b \<Longrightarrow> in_i128 a \<Longrightarrow> in_i128 b \<Longrightarrow> in_i128 x"
  by (simp add: in_i128_def)

lemma in_i128_0 [simp]: "in_i128 0"
  by (simp add: in_i128_def i128_min_def i128_max_def)

subsection \<open>Checked operations (\<open>None\<close> on overflow)\<close>

definition checked_mul_i128 :: "int \<Rightarrow> int \<Rightarrow> int option" where
  "checked_mul_i128 a b = (if in_i128 (a * b) then Some (a * b) else None)"

definition checked_add_i128 :: "int \<Rightarrow> int \<Rightarrow> int option" where
  "checked_add_i128 a b = (if in_i128 (a + b) then Some (a + b) else None)"

definition checked_add_u64 :: "nat \<Rightarrow> nat \<Rightarrow> nat option" where
  "checked_add_u64 a b = (if a + b \<le> u64_max then Some (a + b) else None)"

definition checked_add_u32 :: "nat \<Rightarrow> nat \<Rightarrow> nat option" where
  "checked_add_u32 a b = (if a + b \<le> u32_max then Some (a + b) else None)"

definition u64_try_from_i128 :: "int \<Rightarrow> nat option" where
  "u64_try_from_i128 x = (if 0 \<le> x \<and> nat x \<le> u64_max then Some (nat x) else None)"

subsection \<open>Saturating operations\<close>

definition clamp_i128 :: "int \<Rightarrow> int" where
  "clamp_i128 x = max i128_min (min i128_max x)"

definition saturating_sub_i128 :: "int \<Rightarrow> int \<Rightarrow> int" where
  "saturating_sub_i128 a b = clamp_i128 (a - b)"

definition saturating_add_i128 :: "int \<Rightarrow> int \<Rightarrow> int" where
  "saturating_add_i128 a b = clamp_i128 (a + b)"

definition saturating_mul_i128 :: "int \<Rightarrow> int \<Rightarrow> int" where
  "saturating_mul_i128 a b = clamp_i128 (a * b)"

definition saturating_sub_u64 :: "nat \<Rightarrow> nat \<Rightarrow> nat" where
  "saturating_sub_u64 a b = (if b \<le> a then a - b else 0)"

definition saturating_add_u64 :: "nat \<Rightarrow> nat \<Rightarrow> nat" where
  "saturating_add_u64 a b = min u64_max (a + b)"

definition saturating_add_u32 :: "nat \<Rightarrow> nat \<Rightarrow> nat" where
  "saturating_add_u32 a b = min u32_max (a + b)"

lemma clamp_i128_id [simp]: "in_i128 x \<Longrightarrow> clamp_i128 x = x"
  by (simp add: clamp_i128_def in_i128_def)

lemma clamp_i128_in [simp]: "in_i128 (clamp_i128 x)"
  using i128_bounds by (auto simp: clamp_i128_def in_i128_def)

lemma saturating_sub_u64_eq [simp]: "saturating_sub_u64 a b = a - b"
  by (simp add: saturating_sub_u64_def)

lemma clamp_i128_sub:
  "0 \<le> a \<Longrightarrow> in_i128 a \<Longrightarrow> 0 \<le> b \<Longrightarrow> in_i128 b \<Longrightarrow> clamp_i128 (a - b) = a - b"
  by (rule clamp_i128_id) (use i128_bounds in \<open>simp add: in_i128_def\<close>)

subsection \<open>Plain operators (panic on overflow)\<close>

definition add_i128 :: "int \<Rightarrow> int \<Rightarrow> ('e, int) outcome" where
  "add_i128 a b = (if in_i128 (a + b) then Inr (a + b) else Inl (Panic Arith_overflow))"

definition sub_i128 :: "int \<Rightarrow> int \<Rightarrow> ('e, int) outcome" where
  "sub_i128 a b = (if in_i128 (a - b) then Inr (a - b) else Inl (Panic Arith_overflow))"

definition mul_i128 :: "int \<Rightarrow> int \<Rightarrow> ('e, int) outcome" where
  "mul_i128 a b = (if in_i128 (a * b) then Inr (a * b) else Inl (Panic Arith_overflow))"

definition div_i128 :: "int \<Rightarrow> int \<Rightarrow> ('e, int) outcome" where
  "div_i128 a b =
     (if b = 0 then Inl (Panic Div_by_zero)
      else if a = i128_min \<and> b = -1 then Inl (Panic Arith_overflow)
      else Inr (a sdiv b))"

definition rem_i128 :: "int \<Rightarrow> int \<Rightarrow> ('e, int) outcome" where
  "rem_i128 a b =
     (if b = 0 then Inl (Panic Div_by_zero)
      else if a = i128_min \<and> b = -1 then Inl (Panic Arith_overflow)
      else Inr (a smod b))"

definition sub_u64 :: "nat \<Rightarrow> nat \<Rightarrow> ('e, nat) outcome" where
  "sub_u64 a b = (if b \<le> a then Inr (a - b) else Inl (Panic Arith_overflow))"

definition add_u64 :: "nat \<Rightarrow> nat \<Rightarrow> ('e, nat) outcome" where
  "add_u64 a b = (if a + b \<le> u64_max then Inr (a + b) else Inl (Panic Arith_overflow))"

definition add_u32 :: "nat \<Rightarrow> nat \<Rightarrow> ('e, nat) outcome" where
  "add_u32 a b = (if a + b \<le> u32_max then Inr (a + b) else Inl (Panic Arith_overflow))"

definition sub_u32 :: "nat \<Rightarrow> nat \<Rightarrow> ('e, nat) outcome" where
  "sub_u32 a b = (if b \<le> a then Inr (a - b) else Inl (Panic Arith_overflow))"

lemmas checked_defs [rust_int] =
  checked_mul_i128_def checked_add_i128_def checked_add_u64_def checked_add_u32_def
  u64_try_from_i128_def

lemmas saturating_defs [rust_int] =
  saturating_sub_i128_def saturating_add_i128_def saturating_mul_i128_def
  saturating_add_u64_def saturating_add_u32_def

lemmas plain_defs [rust_int] =
  add_i128_def sub_i128_def mul_i128_def sub_u64_def add_u64_def add_u32_def sub_u32_def

lemma checked_mul_Some [outcome]:
  "checked_mul_i128 a b = Some c \<longleftrightarrow> in_i128 (a * b) \<and> c = a * b"
  by (auto simp: rust_int)

lemma checked_add_Some [outcome]:
  "checked_add_i128 a b = Some c \<longleftrightarrow> in_i128 (a + b) \<and> c = a + b"
  by (auto simp: rust_int)

lemma checked_add_u64_Some [outcome]:
  "checked_add_u64 a b = Some c \<longleftrightarrow> a + b \<le> u64_max \<and> c = a + b"
  by (auto simp: rust_int)

lemma checked_add_u32_Some [outcome]:
  "checked_add_u32 a b = Some c \<longleftrightarrow> a + b \<le> u32_max \<and> c = a + b"
  by (auto simp: rust_int)

lemma u64_try_from_Some [outcome]:
  "u64_try_from_i128 x = Some n \<longleftrightarrow> 0 \<le> x \<and> nat x \<le> u64_max \<and> n = nat x"
  by (auto simp: rust_int)

lemma plain_eq_Inr [outcome]:
  "add_i128 a b = Inr c \<longleftrightarrow> in_i128 (a + b) \<and> c = a + b"
  "sub_i128 a b = Inr c \<longleftrightarrow> in_i128 (a - b) \<and> c = a - b"
  "mul_i128 a b = Inr c \<longleftrightarrow> in_i128 (a * b) \<and> c = a * b"
  "sub_u64 m n = Inr k \<longleftrightarrow> n \<le> m \<and> k = m - n"
  "add_u64 m n = Inr k \<longleftrightarrow> m + n \<le> u64_max \<and> k = m + n"
  "add_u32 m n = Inr k \<longleftrightarrow> m + n \<le> u32_max \<and> k = m + n"
  "sub_u32 m n = Inr k \<longleftrightarrow> n \<le> m \<and> k = m - n"
  by (auto simp: rust_int)

lemma sdiv_nonneg: "0 \<le> a \<Longrightarrow> 0 \<le> (b::int) \<Longrightarrow> a sdiv b = a div b"
  by (cases "a = 0"; cases "b = 0") (simp_all add: signed_divide_int_def)

lemma smod_nonneg: "0 \<le> a \<Longrightarrow> 0 \<le> (b::int) \<Longrightarrow> a smod b = a mod b"
  by (cases "a = 0") (simp_all add: signed_modulo_int_def)

lemma div_i128_nonneg:
  "0 \<le> a \<Longrightarrow> 0 < b \<Longrightarrow> div_i128 a b = Inr (a div b)"
  by (simp add: div_i128_def sdiv_nonneg)

lemma rem_i128_nonneg:
  "0 \<le> a \<Longrightarrow> 0 < b \<Longrightarrow> rem_i128 a b = Inr (a mod b)"
  by (simp add: rem_i128_def smod_nonneg)

lemma div_i128_by_0 [simp]: "div_i128 a 0 = Inl (Panic Div_by_zero)"
  by (simp add: div_i128_def)

section \<open>Sums over the entries of a finite map\<close>

definition msum :: "('v \<Rightarrow> int) \<Rightarrow> ('k \<rightharpoonup> 'v) \<Rightarrow> int" where
  "msum f m = (\<Sum>k \<in> dom m. f (the (m k)))"

definition value_at :: "('v \<Rightarrow> int) \<Rightarrow> ('k \<rightharpoonup> 'v) \<Rightarrow> 'k \<Rightarrow> int" where
  "value_at f m k = (case m k of None \<Rightarrow> 0 | Some v \<Rightarrow> f v)"

lemma value_at_Some [simp]: "m k = Some v \<Longrightarrow> value_at f m k = f v"
  by (simp add: value_at_def)

lemma value_at_None [simp]: "m k = None \<Longrightarrow> value_at f m k = 0"
  by (simp add: value_at_def)

lemma msum_empty [simp]: "msum f Map.empty = 0"
  by (simp add: msum_def)

lemma msum_remove:
  assumes "finite (dom m)"
  shows "msum f (m(k := None)) = msum f m - value_at f m k"
proof (cases "m k")
  case None
  then show ?thesis by (simp add: fun_upd_idem)
next
  case (Some v)
  have "(\<Sum>j \<in> dom m - {k}. f (the ((m(k := None)) j))) = (\<Sum>j \<in> dom m - {k}. f (the (m j)))"
    by (rule sum.cong) auto
  moreover have "k \<in> dom m" using Some by auto
  ultimately show ?thesis
    using Some assms by (simp add: msum_def sum_diff1)
qed

lemma msum_update:
  assumes "finite (dom m)"
  shows "msum f (m(k \<mapsto> v)) = msum f m - value_at f m k + f v"
proof -
  have eq: "(\<Sum>j \<in> dom m - {k}. f (the ((m(k \<mapsto> v)) j))) = (\<Sum>j \<in> dom m - {k}. f (the (m j)))"
    by (rule sum.cong) auto
  have "msum f (m(k \<mapsto> v)) = f v + (\<Sum>j \<in> dom m - {k}. f (the (m j)))"
    using assms eq by (simp add: msum_def sum.insert_remove)
  also have "(\<Sum>j \<in> dom m - {k}. f (the (m j))) = msum f m - value_at f m k"
    using assms by (cases "m k") (auto simp: msum_def sum_diff1 domI)
  finally show ?thesis by (simp only: algebra_simps)
qed

lemma msum_nonneg: "(\<And>k v. m k = Some v \<Longrightarrow> 0 \<le> f v) \<Longrightarrow> 0 \<le> msum f m"
  by (auto simp: msum_def intro!: sum_nonneg)

lemma msum_ge_value_at:
  assumes "finite (dom m)" and "\<And>k v. m k = Some v \<Longrightarrow> 0 \<le> f v"
  shows "value_at f m k \<le> msum f m"
proof -
  have "0 \<le> msum f (m(k := None))"
    by (rule msum_nonneg) (use assms(2) in \<open>auto split: if_splits\<close>)
  then show ?thesis using assms(1) by (simp add: msum_remove)
qed

section \<open>Machines and their invariants\<close>

text \<open>
  A contract as a machine: a step relation between states, under an environment. The runs of
  such a machine, and the reusable argument that what every step keeps holds after every run.
\<close>

inductive runs :: "('s \<Rightarrow> 's \<Rightarrow> bool) \<Rightarrow> 's \<Rightarrow> 's \<Rightarrow> bool" for step where
  runs_refl: "runs step s s"
| runs_step: "runs step s t \<Longrightarrow> step t u \<Longrightarrow> runs step s u"

locale machine_invariant =
  fixes step :: "'s \<Rightarrow> 's \<Rightarrow> bool"
    and inv :: "'s \<Rightarrow> bool"
  assumes step_inv: "inv s \<Longrightarrow> step s t \<Longrightarrow> inv t"
begin

lemma runs_inv: "runs step s t \<Longrightarrow> inv s \<Longrightarrow> inv t"
  by (induction rule: runs.induct) (auto intro: step_inv)

end

end
