(* ===== verification/Types.thy ===== *)
theory Types
  imports Prelude
begin

text \<open>
  The data of the stream contract: \<open>errors.rs\<close> and \<open>types.rs\<close>.
\<close>

section \<open>Addresses and byte strings\<close>

text \<open>
  A Soroban address is an opaque identity that is only ever compared; a \<open>Bytes\<close> value is a
  list of octets. A Rust \<open>String\<close> is a character list.
\<close>

datatype address = Addr nat

type_synonym bytes = "8 word list"

section \<open>errors.rs\<close>

datatype stream_error =
    StreamNotFound
  | NotRecipient
  | NotSender
  | StreamNotActive
  | ZeroAmount
  | InvalidDuration
  | InsufficientBalance
  | InvalidCliff
  | AlreadyInitialized
  | NotInitialized
  | DuplicateStream
  | InvalidStartTime
  | InvalidPartialCancel
  | ContractPaused
  | Overflow
  | ZeroFlowRate
  | BatchLengthMismatch
  | TokenMismatch
  | StreamLocked
  | NotAuthorized
  | StreamNotPaused
  | StreamDurationTooShort
  | StreamIdConflict
  | SenderStreamLimitExceeded
  | InvalidNonce
  | MigrationAlreadyApplied
  | StreamNotSettled
  | WithdrawalCooldownActive
  | RecipientNotWhitelisted
  | MetadataTooLong
  | DuplicateStreamId
  | InvalidEndTime
  | InsufficientXlmForFee

text \<open>
  The declarations as the enum lists them, in order: five names are declared twice, with
  different discriminants, and the discriminants 25 to 28 are given to several names.
\<close>

definition stream_error_decls :: "(stream_error \<times> nat) list" where
  "stream_error_decls =
    [(StreamNotFound, 1), (NotRecipient, 2), (NotSender, 3), (StreamNotActive, 4),
     (ZeroAmount, 5), (InvalidDuration, 6), (InsufficientBalance, 7), (InvalidCliff, 8),
     (AlreadyInitialized, 9), (NotInitialized, 10), (DuplicateStream, 11),
     (InvalidStartTime, 12), (InvalidPartialCancel, 13), (ContractPaused, 14), (Overflow, 15),
     (ZeroFlowRate, 16), (BatchLengthMismatch, 17), (TokenMismatch, 18), (StreamLocked, 19),
     (NotAuthorized, 20), (StreamNotPaused, 21), (StreamDurationTooShort, 22),
     (StreamIdConflict, 23), (SenderStreamLimitExceeded, 24), (InvalidNonce, 25),
     (MigrationAlreadyApplied, 25), (StreamNotSettled, 26), (WithdrawalCooldownActive, 25),
     (RecipientNotWhitelisted, 26), (MetadataTooLong, 27), (DuplicateStreamId, 28),
     (MigrationAlreadyApplied, 26), (StreamNotSettled, 27), (WithdrawalCooldownActive, 28),
     (RecipientNotWhitelisted, 29), (MetadataTooLong, 30), (InvalidEndTime, 31),
     (InsufficientXlmForFee, 32)]"

section \<open>types.rs\<close>

datatype stream_status = Active | Cancelled | Completed | Paused

record stream =
  s_id :: nat
  s_sender :: address
  s_recipient :: address
  s_token :: address
  s_deposit :: int
  s_flow_rate :: int
  s_start_time :: nat
  s_cliff_time :: nat
  s_lock_until :: nat
  s_end_time :: nat
  s_last_withdraw_time :: nat
  s_status :: stream_status
  s_auto_renew :: bool
  s_allow_recipient_termination :: bool
  s_last_pause_time :: nat
  s_total_withdrawn :: int
  s_metadata :: bytes

record stats =
  total_streams :: nat
  active_streams :: nat
  total_volume :: int

record audit_entry =
  a_instruction :: string
  a_admin :: address
  a_timestamp :: nat
  a_params :: string

text \<open>
  The handlers test \<open>status != Active && status != Paused\<close>; a live stream passes the test.
\<close>

definition live :: "stream \<Rightarrow> bool" where
  "live s \<longleftrightarrow> s_status s = Active \<or> s_status s = Paused"

lemma live_iff: "live s \<longleftrightarrow> \<not> (s_status s \<noteq> Active \<and> s_status s \<noteq> Paused)"
  by (auto simp: live_def)

end
