(* ===== verification/Vesting_Math.thy ===== *)
theory Vesting_Math
  imports Types
begin

text \<open>
  \<open>vesting_math.rs\<close>: the pure vesting arithmetic, and the independent reference
  implementations of \<open>differential_fuzz.rs\<close>. The lemmas are the laws the handlers rest on:
  what an amount is worth in closed form, when it cannot overflow, that it never exceeds the
  deposit, and that cancellation conserves the deposit.
\<close>

section \<open>The functions\<close>

definition compute_claimable :: "int \<Rightarrow> nat \<Rightarrow> nat \<Rightarrow> nat \<Rightarrow> nat \<Rightarrow> int option" where
  "compute_claimable flow_rate now cliff_time end_time last_withdraw_time =
     (if now < cliff_time then Some 0
      else let effective_now = (if now < end_time then now else end_time);
               elapsed = saturating_sub_u64 effective_now last_withdraw_time
           in checked_mul_i128 flow_rate (int elapsed))"

definition compute_earned :: "int \<Rightarrow> nat \<Rightarrow> nat \<Rightarrow> nat \<Rightarrow> int option" where
  "compute_earned flow_rate now end_time last_withdraw_time =
     (let effective_now = (if now < end_time then now else end_time);
          elapsed = saturating_sub_u64 effective_now last_withdraw_time
      in checked_mul_i128 flow_rate (int elapsed))"

definition compute_total_streamed :: "int \<Rightarrow> nat \<Rightarrow> nat \<Rightarrow> nat \<Rightarrow> int option" where
  "compute_total_streamed flow_rate now end_time start_time =
     (let effective_now = (if now < end_time then now else end_time)
      in checked_mul_i128 flow_rate (int (saturating_sub_u64 effective_now start_time)))"

definition compute_refund :: "int \<Rightarrow> int \<Rightarrow> nat \<Rightarrow> nat \<Rightarrow> nat \<Rightarrow> int option" where
  "compute_refund deposit flow_rate now end_time start_time =
     (case compute_total_streamed flow_rate now end_time start_time of
        None \<Rightarrow> None
      | Some total_streamed \<Rightarrow> Some (saturating_sub_i128 deposit total_streamed))"

definition compute_flow_rate :: "int \<Rightarrow> nat \<Rightarrow> ('e, int) outcome" where
  "compute_flow_rate deposit duration_seconds = div_i128 deposit (int duration_seconds)"

text \<open>The reference implementations of the differential fuzzer.\<close>

definition sdk_compute_claimable ::
    "int \<Rightarrow> nat \<Rightarrow> nat \<Rightarrow> nat \<Rightarrow> nat \<Rightarrow> nat \<Rightarrow> ('e, int) outcome" where
  "sdk_compute_claimable deposit duration_secs now cliff_time end_time last_withdraw_time =
     (if now < cliff_time then Inr 0
      else bindE (div_i128 deposit (int duration_secs)) (\<lambda>rate.
        if rate = 0 then Inr 0
        else let capped = min now end_time
             in if capped \<le> last_withdraw_time then Inr 0
                else bindE (sub_u64 capped last_withdraw_time) (\<lambda>secs.
                  mul_i128 rate (int secs))))"

definition sdk_compute_earned ::
    "int \<Rightarrow> nat \<Rightarrow> nat \<Rightarrow> nat \<Rightarrow> nat \<Rightarrow> ('e, int) outcome" where
  "sdk_compute_earned deposit duration_secs now end_time last_withdraw_time =
     bindE (div_i128 deposit (int duration_secs)) (\<lambda>rate.
       if rate = 0 then Inr 0
       else let capped = (if now > end_time then end_time else now)
            in if last_withdraw_time \<ge> capped then Inr 0
               else bindE (sub_u64 capped last_withdraw_time) (\<lambda>secs.
                 mul_i128 rate (int secs)))"

definition sdk_compute_refund ::
    "int \<Rightarrow> nat \<Rightarrow> nat \<Rightarrow> nat \<Rightarrow> nat \<Rightarrow> ('e, int) outcome" where
  "sdk_compute_refund deposit duration_secs now end_time start_time =
     bindE (div_i128 deposit (int duration_secs)) (\<lambda>rate.
       if rate = 0 then Inr deposit
       else let capped = (if now > end_time then end_time else now);
                streamed_secs = (if capped > start_time then capped - start_time else 0)
            in bindE (mul_i128 rate (int streamed_secs)) (\<lambda>total_streamed.
                 if deposit > total_streamed then sub_i128 deposit total_streamed else Inr 0))"

section \<open>Closed forms\<close>

lemma if_min: "(if n < e then n else e) = min n (e::nat)"
  by (simp add: min_def)

lemma compute_earned_eq:
  "compute_earned f n e l = checked_mul_i128 f (int (min n e - l))"
  by (simp add: compute_earned_def Let_def if_min)

lemma compute_claimable_eq:
  "compute_claimable f n c e l = (if n < c then Some 0 else compute_earned f n e l)"
  by (simp add: compute_claimable_def compute_earned_def)

lemma compute_total_streamed_eq:
  "compute_total_streamed f n e s = checked_mul_i128 f (int (min n e - s))"
  by (simp add: compute_total_streamed_def Let_def if_min)

lemma compute_earned_Some [outcome]:
  "compute_earned f n e l = Some a \<longleftrightarrow>
     in_i128 (f * int (min n e - l)) \<and> a = f * int (min n e - l)"
  by (simp add: compute_earned_eq outcome)

lemma compute_claimable_Some [outcome]:
  "compute_claimable f n c e l = Some a \<longleftrightarrow>
     (if n < c then a = 0 else in_i128 (f * int (min n e - l)) \<and> a = f * int (min n e - l))"
  by (auto simp: compute_claimable_eq outcome)

section \<open>Rates, dust and overflow freedom\<close>

lemma flow_rate_floor:
  assumes "0 < deposit" "0 < duration"
  shows "compute_flow_rate deposit duration = Inr (deposit div int duration)"
  using assms by (simp add: compute_flow_rate_def div_i128_nonneg)

lemma flow_rate_le_deposit:
  fixes deposit :: int
  assumes "0 < deposit" "0 < duration"
  shows "deposit div int duration * int duration \<le> deposit"
    and "deposit - deposit div int duration * int duration < int duration"
proof -
  have "deposit = deposit div int duration * int duration + deposit mod int duration"
    by simp
  moreover have "0 \<le> deposit mod int duration" "deposit mod int duration < int duration"
    using assms(2) by simp_all
  ultimately show "deposit div int duration * int duration \<le> deposit"
    and "deposit - deposit div int duration * int duration < int duration"
    by linarith+
qed

lemma flow_mult_le:
  assumes "f * int d \<le> D" "0 \<le> (f::int)" "k \<le> d"
  shows "f * int k \<le> D" "0 \<le> f * int k"
proof -
  have "f * int k \<le> f * int d"
    using assms(2,3) by (intro mult_left_mono) simp_all
  then show "f * int k \<le> D" using assms(1) by simp
  show "0 \<le> f * int k" using assms(2) by simp
qed

lemma in_i128_below: "0 \<le> x \<Longrightarrow> x \<le> y \<Longrightarrow> in_i128 y \<Longrightarrow> in_i128 x"
  using i128_bounds by (simp add: in_i128_def)

lemma earned_total:
  assumes "0 \<le> f" "f * int (e - s) \<le> D" "in_i128 D" "s \<le> l"
  shows "compute_earned f n e l = Some (f * int (min n e - l))"
    and "f * int (min n e - l) \<le> D"
proof -
  have k: "min n e - l \<le> e - s" using assms(4) by auto
  have le: "f * int (min n e - l) \<le> D" "0 \<le> f * int (min n e - l)"
    using flow_mult_le [OF assms(2,1) k] by simp_all
  with assms(3) show "compute_earned f n e l = Some (f * int (min n e - l))"
    by (simp add: outcome in_i128_below)
  show "f * int (min n e - l) \<le> D" by (rule le)
qed

section \<open>Laws of the arithmetic\<close>

text \<open>
  Cancellation conserves the deposit: what has been streamed plus the refund is the
  deposit, and both are non-negative (invariants 4 and 6 of the Kani proofs, without their
  bounds). The refund is never less than the creation-time dust.
\<close>

lemma cancel_balance_conservation:
  assumes "0 < deposit" "in_i128 deposit" "0 < duration"
    and rate: "compute_flow_rate deposit duration = (Inr f :: (stream_error, int) outcome)"
  shows "\<exists>t r. compute_total_streamed f now (start + duration) start = Some t \<and>
               compute_refund deposit f now (start + duration) start = Some r \<and>
               t + r = deposit \<and> 0 \<le> t \<and> deposit - f * int duration \<le> r"
proof -
  have f: "f = deposit div int duration"
    using rate flow_rate_floor [OF assms(1,3), where ?'a = stream_error] by simp
  have f0: "0 \<le> f" using assms(1) f by (simp add: pos_imp_zdiv_nonneg_iff assms(3))
  define t where "t = f * int (min now (start + duration) - start)"
  have all: "f * int duration \<le> deposit"
    using flow_rate_le_deposit(1) [OF assms(1,3)] f by simp
  have t: "t \<le> f * int duration" "0 \<le> t"
    using flow_mult_le [OF order_refl f0, of "min now (start + duration) - start" duration]
    by (auto simp: t_def)
  then have t_le: "t \<le> deposit" using all by linarith
  then have "in_i128 t" using in_i128_below [OF t(2)] assms(2) by blast
  then have "compute_total_streamed f now (start + duration) start = Some t"
    by (simp add: compute_total_streamed_eq outcome t_def)
  moreover have "saturating_sub_i128 deposit t = deposit - t"
    using t assms(1,2) \<open>in_i128 t\<close> by (simp add: saturating_sub_i128_def clamp_i128_sub)
  ultimately show ?thesis using t by (simp add: compute_refund_def)
qed

text \<open>
  C26: for every stream a creation can produce (a positive deposit at the floored rate, over any
  duration), at any time and after any earlier withdrawal, the contract's claimable, earned and
  refund amounts are computed without overflow and are exactly the amounts of the independently
  written reference, without the stroop of tolerance and the bounds on the inputs that the
  differential tests allow themselves. All three lie between zero and the deposit, nothing more
  is claimable than is earned, and what is earned from the start and the refund add up to the
  deposit.
\<close>

theorem contract_matches_reference:
  assumes "0 < deposit" "in_i128 deposit" "0 < duration" "start \<le> lw"
    and rate: "compute_flow_rate deposit duration = (Inr f :: (stream_error, int) outcome)"
  shows "\<exists>c e r.
     compute_claimable f now cliff (start + duration) lw = Some c \<and>
     sdk_compute_claimable deposit duration now cliff (start + duration) lw
       = (Inr c :: (stream_error, int) outcome) \<and>
     compute_earned f now (start + duration) lw = Some e \<and>
     sdk_compute_earned deposit duration now (start + duration) lw
       = (Inr e :: (stream_error, int) outcome) \<and>
     compute_refund deposit f now (start + duration) start = Some r \<and>
     sdk_compute_refund deposit duration now (start + duration) start
       = (Inr r :: (stream_error, int) outcome) \<and>
     0 \<le> c \<and> c \<le> e \<and> e \<le> deposit \<and> 0 \<le> r \<and> r \<le> deposit \<and>
     (lw = start \<longrightarrow> e + r = deposit)"
proof -
  have f: "f = deposit div int duration"
    using rate flow_rate_floor [OF assms(1,3), where ?'a = stream_error] by simp
  have f0: "0 \<le> f" using assms(1) f by (simp add: pos_imp_zdiv_nonneg_iff assms(3))
  have q: "div_i128 deposit (int duration) = (Inr f :: (stream_error, int) outcome)"
    using rate by (simp add: compute_flow_rate_def)
  define m where "m = min now (start + duration)"
  have eqs: "(if now > start + duration then start + duration else now) = m"
    "min now (start + duration) = m" "(if start < m then m - start else 0) = m - start"
    by (auto simp: m_def)
  have "f * int (start + duration - start) \<le> deposit"
    using flow_rate_le_deposit(1) [OF assms(1,3)] f by simp
  note earned = earned_total [OF f0 this assms(2)]
  have e: "compute_earned f now (start + duration) lw = Some (f * int (m - lw))"
    "f * int (m - lw) \<le> deposit" "in_i128 (f * int (m - lw))"
    using earned [OF assms(4), of now] by (simp_all add: m_def outcome del: of_nat_diff)
  have t: "f * int (m - start) \<le> deposit" "in_i128 (f * int (m - start))"
    using earned [OF order_refl, of now] by (simp_all add: m_def outcome del: of_nat_diff)
  have r: "compute_refund deposit f now (start + duration) start = Some (deposit - f * int (m - start))"
    using cancel_balance_conservation [OF assms(1-3) rate, of now start]
    by (auto simp: compute_total_streamed_eq m_def outcome simp del: of_nat_diff)
  have "0 \<le> f * int (m - start)" using f0 by simp
  then have "in_i128 (deposit - f * int (m - start))"
    using t(1) by (intro in_i128_below [OF _ _ assms(2)]) linarith+
  then have sdk: "sdk_compute_refund deposit duration now (start + duration) start
      = (Inr (deposit - f * int (m - start)) :: (stream_error, int) outcome)"
    "sdk_compute_earned deposit duration now (start + duration) lw
      = (Inr (f * int (m - lw)) :: (stream_error, int) outcome)"
    "sdk_compute_claimable deposit duration now cliff (start + duration) lw
      = (Inr (if now < cliff then 0 else f * int (m - lw)) :: (stream_error, int) outcome)"
    using t e(3) by (simp_all add: sdk_compute_refund_def sdk_compute_earned_def
        sdk_compute_claimable_def q eqs sub_u64_def mul_i128_def sub_i128_def Let_def
        del: of_nat_diff)
  show ?thesis
    by (rule exI [of _ "if now < cliff then 0 else f * int (m - lw)"],
        rule exI [of _ "f * int (m - lw)"], rule exI [of _ "deposit - f * int (m - start)"])
      (use e r sdk t(1) f0 in \<open>simp add: compute_claimable_eq del: of_nat_diff\<close>)
qed

theorem contract_matches_reference_witness:
  "\<exists>c e r. compute_claimable 2 400 160 3700 100 = Some c \<and>
     sdk_compute_claimable 7205 3600 400 160 3700 100 = (Inr c :: (stream_error, int) outcome) \<and>
     compute_refund 7205 2 400 3700 100 = Some r \<and> c = 600 \<and> e + r = 7205 \<and> e = 600"
proof -
  have rate: "compute_flow_rate 7205 3600 = (Inr 2 :: (stream_error, int) outcome)"
    by (simp add: flow_rate_floor)
  from contract_matches_reference [OF _ _ _ _ rate, of 100 100 400 160] show ?thesis
    by (simp add: in_i128_def i128_min_def i128_max_def compute_claimable_eq compute_earned_eq
        checked_mul_i128_def)
qed

end
