(* ===== verification/Host.thy ===== *)
theory Host
  imports Vesting_Math
begin

text \<open>
  What the contracts take from the Soroban host and from other contracts. The host, token
  contracts and the addresses' own code are not part of the repository, so they are parameters:
  every operation takes an environment record, as the Rust functions take \<open>env: Env\<close>, whose
  fields are the answers the host gives during this invocation. The type variable \<open>'w\<close> is the
  state of everything outside the contract (token ledgers, other contracts).

  The documented behaviour the solvency results rely on is named here as predicates:
  \<open>sac\<close> (a Stellar Asset Contract moves exactly the amount, never a negative one and never
  more than the payer has) and \<open>isolated\<close> (nothing but a transfer out of the contract lowers
  the contract's balance while it runs: a callee cannot move tokens of the contract without its
  authorisation).
\<close>

section \<open>Values that cross the contract boundary\<close>

datatype val =
    VUnit
  | VSym string
  | VU32 nat
  | VU64 nat
  | VI128 int
  | VAddr address
  | VStr string
  | VBytes bytes

text \<open>A published event: its topics and its data.\<close>

type_synonym event = "val list \<times> val list"

section \<open>The environment of one invocation\<close>

record 'w env =
  ledger_timestamp :: nat
  current_contract :: address
  authorizes :: "address \<Rightarrow> bool"
  token_transfer :: "address \<Rightarrow> address \<Rightarrow> address \<Rightarrow> int \<Rightarrow> 'w \<Rightarrow> 'w option"
  token_balance :: "address \<Rightarrow> address \<Rightarrow> 'w \<Rightarrow> int"
  invoke_contract :: "address \<Rightarrow> string \<Rightarrow> val list \<Rightarrow> 'w \<Rightarrow> (val \<times> 'w) option"
  update_wasm :: "bytes \<Rightarrow> 'w \<Rightarrow> 'w option"
  sha256 :: "bytes \<Rightarrow> bytes"
  to_xdr :: "address \<Rightarrow> bytes"

text \<open>\<open>addr.require_auth()\<close> traps unless the address authorised this invocation.\<close>

definition require_auth :: "'w env \<Rightarrow> address \<Rightarrow> ('e, unit) outcome" where
  "require_auth env a = (if authorizes env a then Inr () else Inl (Panic Auth_failed))"

lemma require_auth_Inr [outcome]: "require_auth env a = Inr u \<longleftrightarrow> authorizes env a"
  by (simp add: require_auth_def)

section \<open>Documented behaviour\<close>

text \<open>
  A Stellar Asset Contract: a transfer that succeeds moves exactly the amount, which is not
  negative and is covered by the payer's balance.
\<close>

definition sac :: "'w env \<Rightarrow> address \<Rightarrow> bool" where
  "sac env tok \<longleftrightarrow>
     (\<forall>f t a w w'. token_transfer env tok f t a w = Some w' \<longrightarrow>
        0 \<le> a \<and> a \<le> token_balance env tok f w \<and>
        (\<forall>x. token_balance env tok x w' =
           token_balance env tok x w - (if x = f then a else 0) + (if x = t then a else 0)))"

text \<open>
  While the contract runs, neither a transfer of another token nor a call into another contract
  lowers its balance of this token: only the contract authorises moving its tokens, and the host
  forbids re-entering it.
\<close>

definition isolated :: "'w env \<Rightarrow> address \<Rightarrow> bool" where
  "isolated env tok \<longleftrightarrow>
     (\<forall>tk f t a w w'. tk \<noteq> tok \<longrightarrow> token_transfer env tk f t a w = Some w' \<longrightarrow>
        token_balance env tok (current_contract env) w \<le>
        token_balance env tok (current_contract env) w') \<and>
     (\<forall>c fn args w r w'. invoke_contract env c fn args w = Some (r, w') \<longrightarrow>
        token_balance env tok (current_contract env) w \<le>
        token_balance env tok (current_contract env) w') \<and>
     (\<forall>h w w'. update_wasm env h w = Some w' \<longrightarrow>
        token_balance env tok (current_contract env) w \<le>
        token_balance env tok (current_contract env) w')"

definition honest_token :: "'w env \<Rightarrow> address \<Rightarrow> bool" where
  "honest_token env tok \<longleftrightarrow> sac env tok \<and> isolated env tok"

text \<open>
  The contract's own address does not sign an invocation of the contract, and ledger times are
  \<open>u64\<close>.
\<close>

definition env_ok :: "'w env \<Rightarrow> bool" where
  "env_ok env \<longleftrightarrow>
     \<not> authorizes env (current_contract env) \<and> ledger_timestamp env \<le> u64_max"

text \<open>A transfer that the payer's balance covers goes through.\<close>

definition liquid :: "'w env \<Rightarrow> address \<Rightarrow> bool" where
  "liquid env tok \<longleftrightarrow>
     (\<forall>f t a w. 0 \<le> a \<longrightarrow> a \<le> token_balance env tok f w \<longrightarrow>
        token_transfer env tok f t a w \<noteq> None)"

lemma sacD:
  assumes "sac env tok" "token_transfer env tok f t a w = Some w'"
  shows "0 \<le> a" "a \<le> token_balance env tok f w"
    "token_balance env tok x w' =
       token_balance env tok x w - (if x = f then a else 0) + (if x = t then a else 0)"
  using assms by (auto simp: sac_def)

section \<open>A reference ledger\<close>

text \<open>
  A concrete host: the outside state is a table of balances, a transfer moves an amount the
  payer has, no other contract answers. It shows that the documented behaviour above can be
  met, and the witnesses run on it.
\<close>

type_synonym ledger = "address \<Rightarrow> address \<Rightarrow> int"

definition ledger_transfer :: "address \<Rightarrow> address \<Rightarrow> address \<Rightarrow> int \<Rightarrow> ledger \<Rightarrow> ledger option" where
  "ledger_transfer tok f t a w =
     (if 0 \<le> a \<and> a \<le> w tok f
      then let w1 = w(tok := (w tok)(f := w tok f - a))
           in Some (w1(tok := (w1 tok)(t := w1 tok t + a)))
      else None)"

definition ledger_env :: "nat \<Rightarrow> address \<Rightarrow> address list \<Rightarrow> ledger env" where
  "ledger_env now self signers =
     \<lparr>ledger_timestamp = now, current_contract = self,
      authorizes = (\<lambda>a. a \<in> set signers),
      token_transfer = ledger_transfer, token_balance = (\<lambda>tok a w. w tok a),
      invoke_contract = (\<lambda>c fn args w. None), update_wasm = (\<lambda>h w. Some w),
      sha256 = (\<lambda>bs. bs), to_xdr = (\<lambda>a. case a of Addr n \<Rightarrow> [word_of_nat n])\<rparr>"

lemma ledger_env_simps [simp]:
  "ledger_timestamp (ledger_env now self sg) = now"
  "current_contract (ledger_env now self sg) = self"
  "authorizes (ledger_env now self sg) a = (a \<in> set sg)"
  "token_transfer (ledger_env now self sg) = ledger_transfer"
  "token_balance (ledger_env now self sg) tok a w = w tok a"
  "invoke_contract (ledger_env now self sg) c fn args w = None"
  "update_wasm (ledger_env now self sg) h w = Some w"
  "sha256 (ledger_env now self sg) bs = bs"
  "to_xdr (ledger_env now self sg) (Addr n) = [word_of_nat n]"
  by (simp_all add: ledger_env_def)

lemma ledger_honest: "honest_token (ledger_env now self sg) tok"
  by (auto simp: honest_token_def sac_def isolated_def ledger_transfer_def Let_def
      split: if_splits)

lemma ledger_liquid: "liquid (ledger_env now self sg) tok"
  by (simp add: liquid_def ledger_transfer_def Let_def)

lemma ledger_env_ok: "self \<notin> set sg \<Longrightarrow> now \<le> u64_max \<Longrightarrow> env_ok (ledger_env now self sg)"
  by (simp add: env_ok_def)

end
