(* ===== verification/Events.thy ===== *)
theory Events
  imports Host
begin

text \<open>
  \<open>events.rs\<close>: one definition per event, giving the topics and the data it publishes.
\<close>

definition ev_stream_created ::
    "nat \<Rightarrow> address \<Rightarrow> address \<Rightarrow> int \<Rightarrow> int \<Rightarrow> nat \<Rightarrow> event" where
  "ev_stream_created stream_id sender recipient amount flow_rate end_time =
     ([VSym ''StreamCreated'', VU64 stream_id],
      [VAddr sender, VAddr recipient, VI128 amount, VI128 flow_rate, VU64 end_time])"

definition ev_stream_withdrawn :: "nat \<Rightarrow> address \<Rightarrow> int \<Rightarrow> nat \<Rightarrow> event" where
  "ev_stream_withdrawn stream_id recipient amount ts =
     ([VSym ''StreamWithdrawn'', VU64 stream_id], [VAddr recipient, VI128 amount, VU64 ts])"

definition ev_stream_cancelled :: "nat \<Rightarrow> address \<Rightarrow> int \<Rightarrow> int \<Rightarrow> event" where
  "ev_stream_cancelled stream_id sender refund_amount recipient_amount =
     ([VSym ''StreamCancelled'', VU64 stream_id],
      [VAddr sender, VI128 refund_amount, VI128 recipient_amount])"

definition ev_stream_topped_up :: "nat \<Rightarrow> int \<Rightarrow> nat \<Rightarrow> event" where
  "ev_stream_topped_up stream_id added_amount new_end_time =
     ([VSym ''StreamToppedUp'', VU64 stream_id], [VI128 added_amount, VU64 new_end_time])"

definition ev_stream_completed :: "nat \<Rightarrow> event" where
  "ev_stream_completed stream_id = ([VSym ''StreamCompleted'', VU64 stream_id], [])"

definition ev_auto_renew_failed :: "nat \<Rightarrow> address \<Rightarrow> int \<Rightarrow> event" where
  "ev_auto_renew_failed stream_id sender required =
     ([VSym ''AutoRenewFailed'', VU64 stream_id], [VAddr sender, VI128 required])"

definition ev_contract_deployed :: "string \<Rightarrow> address \<Rightarrow> event" where
  "ev_contract_deployed version admin =
     ([VSym ''ContractDeployed''], [VStr version, VAddr admin])"

definition ev_stream_partial_cancelled ::
    "nat \<Rightarrow> nat \<Rightarrow> address \<Rightarrow> int \<Rightarrow> int \<Rightarrow> event" where
  "ev_stream_partial_cancelled old_stream_id new_stream_id sender refund_amount new_deposit =
     ([VSym ''StreamPartialCancelled'', VU64 old_stream_id],
      [VU64 new_stream_id, VAddr sender, VI128 refund_amount, VI128 new_deposit])"

definition ev_contract_paused :: "address \<Rightarrow> nat \<Rightarrow> event" where
  "ev_contract_paused admin ts = ([VSym ''ContractPaused'', VAddr admin], [VU64 ts])"

definition ev_contract_resumed :: "address \<Rightarrow> nat \<Rightarrow> event" where
  "ev_contract_resumed admin ts = ([VSym ''ContractResumed'', VAddr admin], [VU64 ts])"

definition ev_stream_paused :: "nat \<Rightarrow> address \<Rightarrow> event" where
  "ev_stream_paused stream_id sender =
     ([VSym ''StreamPaused'', VU64 stream_id], [VAddr sender])"

definition ev_stream_resumed :: "nat \<Rightarrow> address \<Rightarrow> event" where
  "ev_stream_resumed stream_id sender =
     ([VSym ''StreamResumed'', VU64 stream_id], [VAddr sender])"

definition ev_fee_collected :: "nat \<Rightarrow> int \<Rightarrow> address \<Rightarrow> event" where
  "ev_fee_collected stream_id amount treasury =
     ([VSym ''FeeCollected'', VU64 stream_id], [VI128 amount, VAddr treasury])"

definition ev_fee_change_proposed :: "nat \<Rightarrow> nat \<Rightarrow> event" where
  "ev_fee_change_proposed new_fee unlock_time =
     ([VSym ''FeeChangeProposed''], [VU32 new_fee, VU64 unlock_time])"

definition ev_fee_change_executed :: "nat \<Rightarrow> event" where
  "ev_fee_change_executed new_fee = ([VSym ''FeeChangeExecuted''], [VU32 new_fee])"

definition ev_stream_terminated_by_recipient ::
    "nat \<Rightarrow> address \<Rightarrow> int \<Rightarrow> int \<Rightarrow> event" where
  "ev_stream_terminated_by_recipient stream_id recipient recipient_amount refund_amount =
     ([VSym ''StreamTerminatedByRecipient'', VU64 stream_id],
      [VAddr recipient, VI128 recipient_amount, VI128 refund_amount])"

definition ev_recipient_transferred :: "nat \<Rightarrow> address \<Rightarrow> address \<Rightarrow> event" where
  "ev_recipient_transferred stream_id old_recipient new_recipient =
     ([VSym ''RecipientTransferred'', VU64 stream_id],
      [VAddr old_recipient, VAddr new_recipient])"

definition ev_contract_migrated :: "string \<Rightarrow> string \<Rightarrow> address \<Rightarrow> event" where
  "ev_contract_migrated from_version to_version admin =
     ([VSym ''ContractMigrated''], [VStr from_version, VStr to_version, VAddr admin])"

definition ev_admin_action :: "string \<Rightarrow> address \<Rightarrow> nat \<Rightarrow> event" where
  "ev_admin_action instruction admin ts =
     ([VSym ''AdminAction''], [VStr instruction, VAddr admin, VU64 ts])"

definition ev_stream_archived :: "nat \<Rightarrow> address \<Rightarrow> address \<Rightarrow> int \<Rightarrow> event" where
  "ev_stream_archived stream_id sender recipient total_amount =
     ([VSym ''StreamArchived'', VU64 stream_id],
      [VAddr sender, VAddr recipient, VI128 total_amount])"

definition ev_metadata_updated :: "nat \<Rightarrow> bytes \<Rightarrow> event" where
  "ev_metadata_updated stream_id metadata =
     ([VSym ''MetadataUpdated'', VU64 stream_id], [VBytes metadata])"

definition ev_auto_renew_cancelled :: "nat \<Rightarrow> event" where
  "ev_auto_renew_cancelled stream_id = ([VSym ''AutoRenewCancelled'', VU64 stream_id], [])"

definition ev_stream_renewed :: "nat \<Rightarrow> nat \<Rightarrow> event" where
  "ev_stream_renewed old_stream_id new_stream_id =
     ([VSym ''StreamRenewed'', VU64 old_stream_id], [VU64 new_stream_id])"

definition ev_creation_fee_collected :: "int \<Rightarrow> address \<Rightarrow> event" where
  "ev_creation_fee_collected fee_amount treasury =
     ([VSym ''CreationFeeCollected''], [VI128 fee_amount, VAddr treasury])"

text \<open>The two events \<open>lib.rs\<close> publishes directly.\<close>

definition ev_paused :: "address \<Rightarrow> nat \<Rightarrow> event" where
  "ev_paused guardian ts = ([VSym ''Paused'', VAddr guardian], [VU64 ts])"

definition ev_unpaused :: "address \<Rightarrow> nat \<Rightarrow> event" where
  "ev_unpaused governance ts = ([VSym ''Unpaused'', VAddr governance], [VU64 ts])"

end
