(* ===== verification/Storage.thy ===== *)
theory Storage
  imports Events
begin

text \<open>
  \<open>storage.rs\<close>: the contract's storage and its accessors. Instance storage holds one optional
  value per symbol key, persistent storage one map per key family; each is a field of
  \<open>storage\<close>, named after the key (prefix \<open>i_\<close> for instance, \<open>p_\<close> for persistent).
  \<open>storage_key\<close> gives the keys themselves; no two fields share one, as shown below, which is
  what makes the record faithful to the flat key space.

  The state of an invocation is a \<open>world\<close>: the storage, the events published so far and the
  state of everything outside the contract.
\<close>

section \<open>Keys\<close>

text \<open>The shapes of key the contract uses: symbols, stream ids, and tuples led by a symbol.\<close>

datatype storage_key =
    KSym string
  | KU64 nat
  | KSymAddr string address
  | KSymAddrU32 string address nat
  | KSymAddrU64 string address nat
  | KSymU32 string nat
  | KSymU64 string nat

definition instance_keys :: "string list" where
  "instance_keys =
     [''admin'', ''paused'', ''fee_bps'', ''treasury'', ''min_dur'', ''version'', ''max_str'',
      ''str_cnt'', ''pnd_fee'', ''wd_cd'', ''wl_en'', ''guardian'', ''governance'', ''p_exp'',
      ''cf_xlm'', ''al_head'', ''al_len'', ''xlm_tok'', ''migrations'']"

definition sender_count_key :: "address \<Rightarrow> storage_key" where
  "sender_count_key addr = KSymAddr ''sc'' addr"

definition recipient_count_key :: "address \<Rightarrow> storage_key" where
  "recipient_count_key addr = KSymAddr ''rc'' addr"

definition sender_slot_key :: "address \<Rightarrow> nat \<Rightarrow> storage_key" where
  "sender_slot_key addr idx = KSymAddrU32 ''s'' addr idx"

definition recipient_slot_key :: "address \<Rightarrow> nat \<Rightarrow> storage_key" where
  "recipient_slot_key addr idx = KSymAddrU32 ''r'' addr idx"

definition delegate_key :: "nat \<Rightarrow> storage_key" where
  "delegate_key stream_id = KSymU64 ''del'' stream_id"

definition whitelist_key :: "address \<Rightarrow> storage_key" where
  "whitelist_key recipient = KSymAddr ''wl'' recipient"

definition fee_exempt_key :: "address \<Rightarrow> storage_key" where
  "fee_exempt_key addr = KSymAddr ''fe'' addr"

definition sender_limit_key :: "address \<Rightarrow> storage_key" where
  "sender_limit_key sender = KSymAddr ''sl'' sender"

definition batch_nonce_key :: "address \<Rightarrow> storage_key" where
  "batch_nonce_key sender = KSymAddr ''bn'' sender"

definition nonce_key :: "address \<Rightarrow> nat \<Rightarrow> storage_key" where
  "nonce_key sender nonce = KSymAddrU64 ''n'' sender nonce"

definition global_slot_key :: "nat \<Rightarrow> storage_key" where
  "global_slot_key idx = KSymU32 ''gi'' idx"

definition audit_slot_key :: "nat \<Rightarrow> storage_key" where
  "audit_slot_key idx = KSymU32 ''al'' idx"

lemmas key_defs =
  sender_count_key_def recipient_count_key_def sender_slot_key_def recipient_slot_key_def
  delegate_key_def whitelist_key_def fee_exempt_key_def sender_limit_key_def
  batch_nonce_key_def nonce_key_def global_slot_key_def audit_slot_key_def

text \<open>One list of the key families, each as the set of the keys it can produce.\<close>

definition key_families :: "storage_key set list" where
  "key_families =
     [range KU64, range sender_count_key, range recipient_count_key,
      range (\<lambda>(a, i). sender_slot_key a i), range (\<lambda>(a, i). recipient_slot_key a i),
      range delegate_key, range whitelist_key, range fee_exempt_key, range sender_limit_key,
      range batch_nonce_key, range (\<lambda>(a, n). nonce_key a n), range global_slot_key,
      range audit_slot_key]
     @ map (\<lambda>s. {KSym s}) instance_keys"

section \<open>State\<close>

record storage =
  i_admin :: "address option"
  i_paused :: "bool option"
  i_fee_bps :: "nat option"
  i_treasury :: "address option"
  i_min_dur :: "nat option"
  i_version :: "string option"
  i_max_str :: "nat option"
  i_str_cnt :: "nat option"
  i_pnd_fee :: "(nat \<times> nat) option"
  i_wd_cd :: "nat option"
  i_wl_en :: "bool option"
  i_guardian :: "address option"
  i_governance :: "address option"
  i_p_exp :: "nat option"
  i_cf_xlm :: "int option"
  i_xlm_tok :: "address option"
  i_migrations :: "string list option"
  i_al_head :: "nat option"
  i_al_len :: "nat option"
  i_al :: "nat \<rightharpoonup> audit_entry"
  p_streams :: "nat \<rightharpoonup> stream"
  p_sc :: "address \<rightharpoonup> nat"
  p_rc :: "address \<rightharpoonup> nat"
  p_s :: "address \<Rightarrow> nat \<rightharpoonup> nat"
  p_r :: "address \<Rightarrow> nat \<rightharpoonup> nat"
  p_bn :: "address \<rightharpoonup> nat"
  p_n :: "address \<Rightarrow> nat \<rightharpoonup> bool"
  p_del :: "nat \<rightharpoonup> address"
  p_wl :: "address \<rightharpoonup> bool"
  p_fe :: "address \<rightharpoonup> bool"
  p_sl :: "address \<rightharpoonup> nat"
  p_gi :: "nat \<rightharpoonup> nat"

definition empty_storage :: storage where
  "empty_storage =
     \<lparr>i_admin = None, i_paused = None, i_fee_bps = None, i_treasury = None, i_min_dur = None,
      i_version = None, i_max_str = None, i_str_cnt = None, i_pnd_fee = None, i_wd_cd = None,
      i_wl_en = None, i_guardian = None, i_governance = None, i_p_exp = None, i_cf_xlm = None,
      i_xlm_tok = None, i_migrations = None, i_al_head = None, i_al_len = None,
      i_al = Map.empty, p_streams = Map.empty, p_sc = Map.empty, p_rc = Map.empty,
      p_s = (\<lambda>_. Map.empty), p_r = (\<lambda>_. Map.empty), p_bn = Map.empty, p_n = (\<lambda>_. Map.empty),
      p_del = Map.empty, p_wl = Map.empty, p_fe = Map.empty, p_sl = Map.empty,
      p_gi = Map.empty\<rparr>"

record 'w world =
  st :: storage
  ext :: 'w
  events :: "event list"

text \<open>A freshly deployed contract.\<close>

definition genesis :: "'w \<Rightarrow> 'w world" where
  "genesis w = \<lparr>st = empty_storage, ext = w, events = []\<rparr>"

lemma genesis_simps [simp]:
  "st (genesis w) = empty_storage" "ext (genesis w) = w" "events (genesis w) = []"
  by (simp_all add: genesis_def)

definition publish :: "event \<Rightarrow> 'w world \<Rightarrow> 'w world" where
  "publish e W = W\<lparr>events := events W @ [e]\<rparr>"

definition in_store :: "(storage \<Rightarrow> storage) \<Rightarrow> 'w world \<Rightarrow> 'w world" where
  "in_store f W = W\<lparr>st := f (st W)\<rparr>"

text \<open>
  \<open>token::Client::transfer\<close> and the calls into other contracts: a failing call traps, except
  through \<open>try_invoke_contract\<close>, whose failure the contracts ignore.
\<close>

definition transfer ::
    "'w env \<Rightarrow> address \<Rightarrow> address \<Rightarrow> address \<Rightarrow> int \<Rightarrow> 'w world \<Rightarrow> ('e, 'w world) outcome" where
  "transfer env token f t amount W =
     (case token_transfer env token f t amount (ext W) of
        None \<Rightarrow> Inl (Panic Host_trap)
      | Some w \<Rightarrow> Inr (W\<lparr>ext := w\<rparr>))"

definition try_invoke ::
    "'w env \<Rightarrow> address \<Rightarrow> string \<Rightarrow> val list \<Rightarrow> 'w world \<Rightarrow> 'w world" where
  "try_invoke env contract fn args W =
     (case invoke_contract env contract fn args (ext W) of
        None \<Rightarrow> W
      | Some (_, w) \<Rightarrow> W\<lparr>ext := w\<rparr>)"

definition invoke ::
    "'w env \<Rightarrow> address \<Rightarrow> string \<Rightarrow> val list \<Rightarrow> 'w world \<Rightarrow> ('e, val \<times> 'w world) outcome" where
  "invoke env contract fn args W =
     (case invoke_contract env contract fn args (ext W) of
        None \<Rightarrow> Inl (Panic Host_trap)
      | Some (r, w) \<Rightarrow> Inr (r, W\<lparr>ext := w\<rparr>))"

lemma publish_simps [simp]:
  "st (publish e W) = st W" "ext (publish e W) = ext W"
  "events (publish e W) = events W @ [e]"
  by (simp_all add: publish_def)

lemma in_store_simps [simp]:
  "st (in_store f W) = f (st W)" "ext (in_store f W) = ext W"
  "events (in_store f W) = events W"
  by (simp_all add: in_store_def)

lemma transfer_Inr [outcome]:
  "transfer env token f t a W = Inr W' \<longleftrightarrow>
     (\<exists>w. token_transfer env token f t a (ext W) = Some w \<and> W' = W\<lparr>ext := w\<rparr>)"
  by (auto simp: transfer_def split: option.splits)

lemma invoke_Inr [outcome]:
  "invoke env c fn args W = Inr (r, W') \<longleftrightarrow>
     (\<exists>w. invoke_contract env c fn args (ext W) = Some (r, w) \<and> W' = W\<lparr>ext := w\<rparr>)"
  by (auto simp: invoke_def split: option.splits)

lemma try_invoke_simps [simp]:
  "st (try_invoke env c fn args W) = st W"
  "events (try_invoke env c fn args W) = events W"
  by (simp_all add: try_invoke_def split: option.splits)

section \<open>Admin, version, guardian, governance\<close>

definition write_admin :: "address \<Rightarrow> storage \<Rightarrow> storage" where
  "write_admin admin s = s\<lparr>i_admin := Some admin\<rparr>"

definition read_admin :: "storage \<Rightarrow> address option" where
  "read_admin s = i_admin s"

definition check_admin :: "'w env \<Rightarrow> storage \<Rightarrow> ('e, unit) outcome" where
  "check_admin env s =
     bindE (expect ''contract not initialized'' (read_admin s)) (\<lambda>admin. require_auth env admin)"

definition write_version :: "string \<Rightarrow> storage \<Rightarrow> storage" where
  "write_version version s = s\<lparr>i_version := Some version\<rparr>"

definition read_version :: "storage \<Rightarrow> string option" where
  "read_version s = i_version s"

definition write_guardian :: "address \<Rightarrow> storage \<Rightarrow> storage" where
  "write_guardian guardian s = s\<lparr>i_guardian := Some guardian\<rparr>"

definition read_guardian :: "storage \<Rightarrow> address option" where
  "read_guardian s = i_guardian s"

definition write_governance :: "address \<Rightarrow> storage \<Rightarrow> storage" where
  "write_governance governance s = s\<lparr>i_governance := Some governance\<rparr>"

definition read_governance :: "storage \<Rightarrow> address option" where
  "read_governance s = i_governance s"

lemma check_admin_Inr [outcome]:
  "check_admin env s = Inr u \<longleftrightarrow> (\<exists>a. i_admin s = Some a \<and> authorizes env a)"
  by (auto simp: check_admin_def read_admin_def outcome)

section \<open>Stream ids and the stream table\<close>

text \<open>
  Big-endian octets of a \<open>u64\<close>, and back. The id is the first eight octets of the hash of the
  serialised addresses, the start time and the nonce; the hash and the address serialisation
  are the host's.
\<close>

definition to_be_bytes :: "nat \<Rightarrow> bytes" where
  "to_be_bytes n = map (\<lambda>i. word_of_nat (n div 256 ^ (7 - i))) [0..<8]"

definition from_be_bytes :: "bytes \<Rightarrow> nat" where
  "from_be_bytes bs = foldl (\<lambda>acc b. acc * 256 + unat b) 0 bs"

definition derive_stream_id :: "'w env \<Rightarrow> address \<Rightarrow> address \<Rightarrow> nat \<Rightarrow> nat \<Rightarrow> nat" where
  "derive_stream_id env sender recipient start_time nonce =
     (let buf = to_xdr env sender @ to_xdr env recipient
                @ to_be_bytes start_time @ to_be_bytes nonce;
          hash_bytes = sha256 env buf
      in from_be_bytes (take 8 hash_bytes))"

definition stream_exists :: "nat \<Rightarrow> storage \<Rightarrow> bool" where
  "stream_exists stream_id s \<longleftrightarrow> p_streams s stream_id \<noteq> None"

definition save_stream :: "stream \<Rightarrow> storage \<Rightarrow> storage" where
  "save_stream stream s = s\<lparr>p_streams := (p_streams s)(s_id stream \<mapsto> stream)\<rparr>"

definition load_stream :: "storage \<Rightarrow> nat \<Rightarrow> stream option" where
  "load_stream s stream_id = p_streams s stream_id"

definition remove_stream :: "nat \<Rightarrow> storage \<Rightarrow> storage" where
  "remove_stream stream_id s = s\<lparr>p_streams := (p_streams s)(stream_id := None)\<rparr>"

definition get_global_stream_count :: "storage \<Rightarrow> nat" where
  "get_global_stream_count s = unwrap_or 0 (i_str_cnt s)"

definition get_global_stream_at :: "storage \<Rightarrow> nat \<Rightarrow> nat option" where
  "get_global_stream_at s idx = p_gi s idx"

definition index_global_stream :: "nat \<Rightarrow> storage \<Rightarrow> ('e, storage) outcome" where
  "index_global_stream stream_id s =
     (let idx = unwrap_or 0 (i_str_cnt s);
          s1 = s\<lparr>p_gi := (p_gi s)(idx \<mapsto> stream_id)\<rparr>
      in bindE (add_u32 idx 1) (\<lambda>next. Inr (s1\<lparr>i_str_cnt := Some next\<rparr>)))"

section \<open>Nonces\<close>

definition get_batch_nonce :: "storage \<Rightarrow> address \<Rightarrow> nat" where
  "get_batch_nonce s sender = unwrap_or 0 (p_bn s sender)"

definition increment_batch_nonce :: "address \<Rightarrow> storage \<Rightarrow> ('e, storage) outcome" where
  "increment_batch_nonce sender s =
     bindE (expect ''batch nonce overflow'' (checked_add_u64 (get_batch_nonce s sender) 1))
       (\<lambda>next. Inr (s\<lparr>p_bn := (p_bn s)(sender \<mapsto> next)\<rparr>))"

definition nonce_used :: "storage \<Rightarrow> address \<Rightarrow> nat \<Rightarrow> bool" where
  "nonce_used s sender nonce \<longleftrightarrow> p_n s sender nonce \<noteq> None"

definition mark_nonce_used :: "address \<Rightarrow> nat \<Rightarrow> storage \<Rightarrow> storage" where
  "mark_nonce_used sender nonce s =
     s\<lparr>p_n := (p_n s)(sender := (p_n s sender)(nonce \<mapsto> True))\<rparr>"

section \<open>Pausing\<close>

definition MAX_PAUSE_DURATION :: nat where
  "MAX_PAUSE_DURATION = 72 * 60 * 60"

definition storage_is_paused :: "storage \<Rightarrow> bool" where
  "storage_is_paused s = unwrap_or False (i_paused s)"

definition set_paused :: "bool \<Rightarrow> storage \<Rightarrow> storage" where
  "set_paused paused s = s\<lparr>i_paused := Some paused\<rparr>"

definition set_pause_expiry :: "nat \<Rightarrow> storage \<Rightarrow> storage" where
  "set_pause_expiry expiry s = s\<lparr>i_p_exp := Some expiry\<rparr>"

definition storage_get_pause_expiry :: "storage \<Rightarrow> nat" where
  "storage_get_pause_expiry s = unwrap_or 0 (i_p_exp s)"

text \<open>The test writes: an expired pause is cleared on the way.\<close>

definition is_paused_or_auto_unpause :: "'w env \<Rightarrow> storage \<Rightarrow> bool \<times> storage" where
  "is_paused_or_auto_unpause env s =
     (let paused = unwrap_or False (i_paused s)
      in if \<not> paused then (False, s)
         else let expiry = storage_get_pause_expiry s
              in if 0 < expiry \<and> expiry \<le> ledger_timestamp env
                 then (False, s\<lparr>i_paused := Some False, i_p_exp := Some 0\<rparr>)
                 else (True, s))"

section \<open>Fees, treasury, limits\<close>

definition get_protocol_fee :: "storage \<Rightarrow> nat" where
  "get_protocol_fee s = unwrap_or 0 (i_fee_bps s)"

definition storage_set_protocol_fee :: "nat \<Rightarrow> storage \<Rightarrow> storage" where
  "storage_set_protocol_fee fee_bps s = s\<lparr>i_fee_bps := Some fee_bps\<rparr>"

definition read_pending_fee_proposal :: "storage \<Rightarrow> (nat \<times> nat) option" where
  "read_pending_fee_proposal s = i_pnd_fee s"

definition write_pending_fee_proposal :: "nat \<Rightarrow> nat \<Rightarrow> storage \<Rightarrow> storage" where
  "write_pending_fee_proposal new_fee_bps unlock_time s =
     s\<lparr>i_pnd_fee := Some (new_fee_bps, unlock_time)\<rparr>"

definition clear_pending_fee_proposal :: "storage \<Rightarrow> storage" where
  "clear_pending_fee_proposal s = s\<lparr>i_pnd_fee := None\<rparr>"

definition get_treasury :: "storage \<Rightarrow> address option" where
  "get_treasury s = i_treasury s"

definition set_treasury :: "address \<Rightarrow> storage \<Rightarrow> storage" where
  "set_treasury treasury s = s\<lparr>i_treasury := Some treasury\<rparr>"

definition read_min_duration :: "storage \<Rightarrow> nat" where
  "read_min_duration s = unwrap_or 3600 (i_min_dur s)"

definition write_min_duration :: "nat \<Rightarrow> storage \<Rightarrow> storage" where
  "write_min_duration duration s = s\<lparr>i_min_dur := Some duration\<rparr>"

definition get_max_streams_per_sender :: "storage \<Rightarrow> nat" where
  "get_max_streams_per_sender s = unwrap_or 1000 (i_max_str s)"

definition set_max_streams_per_sender :: "nat \<Rightarrow> storage \<Rightarrow> storage" where
  "set_max_streams_per_sender max_streams s = s\<lparr>i_max_str := Some max_streams\<rparr>"

definition get_withdrawal_cooldown :: "storage \<Rightarrow> nat" where
  "get_withdrawal_cooldown s = unwrap_or 0 (i_wd_cd s)"

definition storage_set_withdrawal_cooldown :: "nat \<Rightarrow> storage \<Rightarrow> storage" where
  "storage_set_withdrawal_cooldown cooldown s = s\<lparr>i_wd_cd := Some cooldown\<rparr>"

definition get_sender_limit :: "storage \<Rightarrow> address \<Rightarrow> nat option" where
  "get_sender_limit s sender = p_sl s sender"

definition set_sender_limit :: "address \<Rightarrow> nat \<Rightarrow> storage \<Rightarrow> storage" where
  "set_sender_limit sender limit s = s\<lparr>p_sl := (p_sl s)(sender \<mapsto> limit)\<rparr>"

definition effective_sender_limit :: "storage \<Rightarrow> address \<Rightarrow> nat" where
  "effective_sender_limit s sender =
     (case get_sender_limit s sender of
        Some limit \<Rightarrow> limit
      | None \<Rightarrow> get_max_streams_per_sender s)"

definition get_creation_fee_xlm :: "storage \<Rightarrow> int" where
  "get_creation_fee_xlm s = unwrap_or 0 (i_cf_xlm s)"

definition set_creation_fee_xlm :: "int \<Rightarrow> storage \<Rightarrow> storage" where
  "set_creation_fee_xlm fee s = s\<lparr>i_cf_xlm := Some fee\<rparr>"

definition get_xlm_token :: "storage \<Rightarrow> address option" where
  "get_xlm_token s = i_xlm_tok s"

definition set_xlm_token :: "address \<Rightarrow> storage \<Rightarrow> storage" where
  "set_xlm_token xlm_token s = s\<lparr>i_xlm_tok := Some xlm_token\<rparr>"

section \<open>Delegates, whitelist, fee exemptions, migrations\<close>

definition get_delegate :: "storage \<Rightarrow> nat \<Rightarrow> address option" where
  "get_delegate s stream_id = p_del s stream_id"

definition set_delegate :: "nat \<Rightarrow> address \<Rightarrow> storage \<Rightarrow> storage" where
  "set_delegate stream_id delegate s = s\<lparr>p_del := (p_del s)(stream_id \<mapsto> delegate)\<rparr>"

definition remove_delegate :: "nat \<Rightarrow> storage \<Rightarrow> storage" where
  "remove_delegate stream_id s = s\<lparr>p_del := (p_del s)(stream_id := None)\<rparr>"

definition is_whitelist_enabled :: "storage \<Rightarrow> bool" where
  "is_whitelist_enabled s = unwrap_or False (i_wl_en s)"

definition storage_set_whitelist_enabled :: "bool \<Rightarrow> storage \<Rightarrow> storage" where
  "storage_set_whitelist_enabled enabled s = s\<lparr>i_wl_en := Some enabled\<rparr>"

definition is_whitelisted :: "storage \<Rightarrow> address \<Rightarrow> bool" where
  "is_whitelisted s recipient = unwrap_or False (p_wl s recipient)"

definition storage_add_to_whitelist :: "address \<Rightarrow> storage \<Rightarrow> storage" where
  "storage_add_to_whitelist recipient s = s\<lparr>p_wl := (p_wl s)(recipient \<mapsto> True)\<rparr>"

definition storage_remove_from_whitelist :: "address \<Rightarrow> storage \<Rightarrow> storage" where
  "storage_remove_from_whitelist recipient s = s\<lparr>p_wl := (p_wl s)(recipient := None)\<rparr>"

definition storage_is_fee_exempt :: "storage \<Rightarrow> address \<Rightarrow> bool" where
  "storage_is_fee_exempt s addr = unwrap_or False (p_fe s addr)"

definition storage_add_fee_exempt :: "address \<Rightarrow> storage \<Rightarrow> storage" where
  "storage_add_fee_exempt addr s = s\<lparr>p_fe := (p_fe s)(addr \<mapsto> True)\<rparr>"

definition storage_remove_fee_exempt :: "address \<Rightarrow> storage \<Rightarrow> storage" where
  "storage_remove_fee_exempt addr s = s\<lparr>p_fe := (p_fe s)(addr := None)\<rparr>"

definition read_applied_migrations :: "storage \<Rightarrow> string list" where
  "read_applied_migrations s = unwrap_or [] (i_migrations s)"

definition record_migration :: "string \<Rightarrow> storage \<Rightarrow> storage" where
  "record_migration version s =
     s\<lparr>i_migrations := Some (read_applied_migrations s @ [version])\<rparr>"

lemmas storage_defs [handler] =
  write_admin_def read_admin_def write_version_def read_version_def write_guardian_def
  read_guardian_def write_governance_def read_governance_def stream_exists_def save_stream_def
  load_stream_def remove_stream_def get_global_stream_count_def get_global_stream_at_def
  get_batch_nonce_def nonce_used_def mark_nonce_used_def storage_is_paused_def set_paused_def
  set_pause_expiry_def storage_get_pause_expiry_def get_protocol_fee_def
  storage_set_protocol_fee_def read_pending_fee_proposal_def write_pending_fee_proposal_def
  clear_pending_fee_proposal_def get_treasury_def set_treasury_def read_min_duration_def
  write_min_duration_def get_max_streams_per_sender_def set_max_streams_per_sender_def
  get_withdrawal_cooldown_def storage_set_withdrawal_cooldown_def get_sender_limit_def
  set_sender_limit_def effective_sender_limit_def get_creation_fee_xlm_def
  set_creation_fee_xlm_def get_xlm_token_def set_xlm_token_def get_delegate_def
  set_delegate_def remove_delegate_def is_whitelist_enabled_def
  storage_set_whitelist_enabled_def is_whitelisted_def storage_add_to_whitelist_def
  storage_remove_from_whitelist_def storage_is_fee_exempt_def storage_add_fee_exempt_def
  storage_remove_fee_exempt_def read_applied_migrations_def record_migration_def

section \<open>Facts about the accessors\<close>

lemma index_global_stream_Inr [outcome]:
  "index_global_stream x s = Inr s' \<longleftrightarrow>
     get_global_stream_count s + 1 \<le> u32_max \<and>
     s' = s\<lparr>p_gi := (p_gi s)(get_global_stream_count s \<mapsto> x),
            i_str_cnt := Some (get_global_stream_count s + 1)\<rparr>"
  by (auto simp: index_global_stream_def get_global_stream_count_def Let_def outcome)

lemma increment_batch_nonce_Inr [outcome]:
  "increment_batch_nonce a s = Inr s' \<longleftrightarrow>
     get_batch_nonce s a + 1 \<le> u64_max \<and>
     s' = s\<lparr>p_bn := (p_bn s)(a \<mapsto> get_batch_nonce s a + 1)\<rparr>"
  by (auto simp: increment_batch_nonce_def outcome)

lemma auto_unpause_cases:
  "is_paused_or_auto_unpause env s = (p, s') \<Longrightarrow>
     (s' = s \<or> s' = s\<lparr>i_paused := Some False, i_p_exp := Some 0\<rparr>) \<and> (p \<longrightarrow> s' = s)"
  by (auto simp: is_paused_or_auto_unpause_def Let_def split: if_splits)

subsection \<open>Big-endian octets\<close>

lemma from_be_bytes_snoc: "from_be_bytes (bs @ [b]) = from_be_bytes bs * 256 + unat b"
  by (simp add: from_be_bytes_def)

lemma from_be_bytes_prefix:
  "from_be_bytes (map (\<lambda>i. word_of_nat (n div 256 ^ (k - i))) [0..<Suc k]) = n mod 256 ^ Suc k"
proof (induction k arbitrary: n)
  case 0
  then show ?case by (simp add: from_be_bytes_def unat_of_nat)
next
  case (Suc k)
  let ?f = "\<lambda>k n i. word_of_nat (n div 256 ^ (k - i)) :: 8 word"
  have "map (?f (Suc k) n) [0..<Suc k] = map (?f k (n div 256)) [0..<Suc k]"
    by (rule map_cong) (auto simp: Suc_diff_le div_mult2_eq)
  then have "map (?f (Suc k) n) [0..<Suc (Suc k)]
      = map (?f k (n div 256)) [0..<Suc k] @ [word_of_nat n]"
    by simp
  then have "from_be_bytes (map (?f (Suc k) n) [0..<Suc (Suc k)])
      = (n div 256) mod 256 ^ Suc k * 256 + n mod 256"
    using Suc.IH [of "n div 256"] by (simp only: from_be_bytes_snoc) (simp add: unat_of_nat)
  also have "\<dots> = n mod 256 ^ Suc (Suc k)"
    using mod_mult2_eq [of n 256 "256 ^ Suc k"] by simp
  finally show ?case .
qed

text \<open>The octets of a number determine it, and octets of one length are determined by their number.\<close>

lemma be_bytes_roundtrip: "n \<le> u64_max \<Longrightarrow> from_be_bytes (to_be_bytes n) = n"
  using from_be_bytes_prefix [of n 7] by (simp add: to_be_bytes_def u64_max_def)

lemma length_to_be_bytes [simp]: "length (to_be_bytes n) = 8"
  by (simp add: to_be_bytes_def)

lemma to_be_bytes_inject:
  "m \<le> u64_max \<Longrightarrow> n \<le> u64_max \<Longrightarrow> to_be_bytes m = to_be_bytes n \<longleftrightarrow> m = n"
  by (metis be_bytes_roundtrip)

lemma from_be_bytes_less: "from_be_bytes bs < 256 ^ length bs"
proof (induction bs rule: rev_induct)
  case (snoc b bs)
  have "unat b < 256" using unsigned_less [of b, where ?'a = nat] by simp
  with snoc show ?case by (simp add: from_be_bytes_snoc)
qed (simp add: from_be_bytes_def)

lemma from_be_bytes_inject:
  "length bs = length cs \<Longrightarrow> from_be_bytes bs = from_be_bytes cs \<longleftrightarrow> bs = cs"
proof (induction bs arbitrary: cs rule: rev_induct)
  case (snoc b bs)
  then obtain ds c where cs: "cs = ds @ [c]" by (cases cs rule: rev_cases) auto
  have small: "unat b < 256" "unat c < 256" using unsigned_less [of b, where ?'a = nat] unsigned_less [of c, where ?'a = nat]
    by simp_all
  have "from_be_bytes bs * 256 + unat b = from_be_bytes ds * 256 + unat c \<longleftrightarrow>
      from_be_bytes bs = from_be_bytes ds \<and> unat b = unat c"
  proof
    assume eq: "from_be_bytes bs * 256 + unat b = from_be_bytes ds * 256 + unat c"
    from arg_cong [OF eq, of "\<lambda>n. n div 256"] arg_cong [OF eq, of "\<lambda>n. n mod 256"] small
    show "from_be_bytes bs = from_be_bytes ds \<and> unat b = unat c" by simp
  qed simp
  moreover have "unat b = unat c \<longleftrightarrow> b = c" by (metis unsigned_word_eqI)
  ultimately show ?case using snoc cs by (simp add: from_be_bytes_snoc)
qed simp

text \<open>
  C27: what a stream id depends on. Let the serialisation of an address be self-delimiting, as
  XDR is (no serialised address is the beginning of another), and the hash 32 octets long. Then
  the hashed buffer determines the sender, the recipient, the start time and the nonce, all four:
  two requests are hashed as the same buffer only if they agree in each. And two ids are equal
  exactly when the first eight octets of the two hashes are, so different requests share an id
  only where the truncated hash of two different buffers collides. Ids are \<open>u64\<close> values.
\<close>

theorem stream_ids_distinct:
  fixes env :: "'w env" and sender recipient sender' recipient' :: address
  assumes xdr: "\<And>a b u v. to_xdr env a @ u = to_xdr env b @ v \<Longrightarrow> a = b"
    and hash: "\<And>bs. length (sha256 env bs) = 32"
    and range: "t \<le> u64_max" "n \<le> u64_max" "t' \<le> u64_max" "n' \<le> u64_max"
  defines "buf \<equiv> to_xdr env sender @ to_xdr env recipient @ to_be_bytes t @ to_be_bytes n"
    and "buf' \<equiv> to_xdr env sender' @ to_xdr env recipient' @ to_be_bytes t' @ to_be_bytes n'"
  shows "(buf = buf' \<longleftrightarrow> sender = sender' \<and> recipient = recipient' \<and> t = t' \<and> n = n') \<and>
     (derive_stream_id env sender recipient t n = derive_stream_id env sender' recipient' t' n' \<longleftrightarrow>
        take 8 (sha256 env buf) = take 8 (sha256 env buf')) \<and>
     derive_stream_id env sender recipient t n \<le> u64_max"
proof -
  have one: "buf = buf' \<longleftrightarrow> sender = sender' \<and> recipient = recipient' \<and> t = t' \<and> n = n'"
  proof
    assume eq: "buf = buf'"
    then have "sender = sender'" unfolding buf_def buf'_def by (rule xdr)
    moreover from this eq have rest: "to_xdr env recipient @ to_be_bytes t @ to_be_bytes n
        = to_xdr env recipient' @ to_be_bytes t' @ to_be_bytes n'"
      by (simp add: buf_def buf'_def)
    moreover from rest have "recipient = recipient'" by (rule xdr)
    ultimately show "sender = sender' \<and> recipient = recipient' \<and> t = t' \<and> n = n'"
      using range by (simp add: to_be_bytes_inject)
  qed (simp add: buf_def buf'_def)
  have ids: "derive_stream_id env sender recipient t n = from_be_bytes (take 8 (sha256 env buf))"
    "derive_stream_id env sender' recipient' t' n' = from_be_bytes (take 8 (sha256 env buf'))"
    by (simp_all add: derive_stream_id_def buf_def buf'_def Let_def)
  have "from_be_bytes (take 8 (sha256 env buf)) < 256 ^ 8"
    using from_be_bytes_less [of "take 8 (sha256 env buf)"] by (simp add: hash)
  then have "derive_stream_id env sender recipient t n \<le> u64_max"
    unfolding ids by (simp add: u64_max_def)
  with one show ?thesis by (simp add: ids from_be_bytes_inject hash)
qed

text \<open>An environment with a self-delimiting serialisation (unary) and a hash of 32 octets.\<close>

definition unary_env :: "ledger env" where
  "unary_env = (ledger_env 0 (Addr 0) [])
     \<lparr>to_xdr := \<lambda>a. case a of Addr n \<Rightarrow> replicate n 1 @ [0],
      sha256 := \<lambda>bs. take 32 (rev bs @ replicate 32 0)\<rparr>"

lemma unary_prefix_free:
  "to_xdr unary_env a @ u = to_xdr unary_env b @ v \<Longrightarrow> a = b"
proof -
  have run: "length (takeWhile (\<lambda>x. x = 1) (replicate n (1 :: 8 word) @ [0] @ w)) = n" for n w
    by (induction n) simp_all
  assume eq: "to_xdr unary_env a @ u = to_xdr unary_env b @ v"
  obtain m n where "a = Addr m" "b = Addr n" by (metis address.exhaust)
  with eq run [of m u] run [of n v] show ?thesis by (simp add: unary_env_def)
qed

theorem stream_ids_distinct_witness:
  "derive_stream_id unary_env (Addr 1) (Addr 2) 100 5
     \<noteq> derive_stream_id unary_env (Addr 1) (Addr 2) 100 6"
proof -
  have hash: "length (sha256 unary_env bs) = 32" for bs by (simp add: unary_env_def)
  have nat8: "[0..<8] = [0, 1, 2, 3, 4, 5, 6, 7::nat]" by (simp add: upt_rec)
  have "take 8 (sha256 unary_env (to_xdr unary_env (Addr 1) @ to_xdr unary_env (Addr 2)
        @ to_be_bytes 100 @ to_be_bytes 5))
      \<noteq> take 8 (sha256 unary_env (to_xdr unary_env (Addr 1) @ to_xdr unary_env (Addr 2)
        @ to_be_bytes 100 @ to_be_bytes 6))"
    by (simp add: unary_env_def to_be_bytes_def nat8)
  with stream_ids_distinct [OF unary_prefix_free hash, where t = 100 and n = 5 and t' = 100
      and n' = 6 and sender = "Addr 1" and recipient = "Addr 2" and sender' = "Addr 1"
      and recipient' = "Addr 2"]
  show ?thesis by (simp add: u64_max_def)
qed

subsection \<open>Key families\<close>

text \<open>
  The families of tuple keys, and the instance symbols apart from them.
\<close>

lemma tuple_families_disjoint:
  "sorted_wrt (\<lambda>A B. A \<inter> B = {}) (take 13 key_families)"
  by (simp add: key_families_def key_defs image_iff disjoint_iff) auto

lemma symbol_families_disjoint:
  "distinct xs \<Longrightarrow> sorted_wrt (\<lambda>A B. A \<inter> B = {}) (map (\<lambda>s. {KSym s}) xs)"
  by (induction xs) auto

lemma tuple_no_symbol: "A \<in> set (take 13 key_families) \<Longrightarrow> KSym s \<notin> A"
  by (auto simp: key_families_def key_defs)

text \<open>
  No two key families of the contract share a key, the instance symbols among them, so a
  write through one accessor never changes what another reads. (Each family is disjoint from
  all families after it in the list.)
\<close>

lemma key_families_disjoint: "sorted_wrt (\<lambda>A B. A \<inter> B = {}) key_families"
proof -
  have split: "key_families = take 13 key_families @ map (\<lambda>s. {KSym s}) instance_keys"
    by (simp add: key_families_def)
  have "distinct instance_keys" by (simp add: instance_keys_def)
  moreover have "A \<inter> B = {}"
    if "A \<in> set (take 13 key_families)" "B \<in> set (map (\<lambda>s. {KSym s}) instance_keys)" for A B
    using that tuple_no_symbol by auto
  ultimately show ?thesis
    by (subst split, unfold sorted_wrt_append)
       (simp only: tuple_families_disjoint symbol_families_disjoint simp_thms, blast)
qed

end
