(* ===== verification/Slot_Index.thy ===== *)
theory Slot_Index
  imports Storage "HOL-Library.Multiset"
begin

text \<open>
  The per-sender and per-recipient indexes of \<open>storage.rs\<close>: a counter and one slot per position,
  appended to at the end and deleted from by swap-and-pop. The interface they give the handlers
  is the locale \<open>stream_index\<close> over the list of ids; both indexes are interpretations of it.
\<close>

section \<open>The operations\<close>

text \<open>
  The body of the two \<open>unindex_by_*\<close> loops, over the positions still to look at: the new
  counter and slots at the first position that holds the id, \<open>None\<close> when there is none.
\<close>

fun unindex_scan ::
    "nat \<Rightarrow> nat \<Rightarrow> (nat \<rightharpoonup> nat) \<Rightarrow> nat list \<Rightarrow> (nat \<times> (nat \<rightharpoonup> nat)) option" where
  "unindex_scan stream_id cnt slots [] = None"
| "unindex_scan stream_id cnt slots (i # rest) =
     (case slots i of
        None \<Rightarrow> unindex_scan stream_id cnt slots rest
      | Some x \<Rightarrow>
          if x = stream_id then
            let last_pos = cnt - 1;
                slots1 = (if i \<noteq> last_pos
                          then slots(i \<mapsto> unwrap_or 0 (slots last_pos)) else slots)
            in Some (last_pos, slots1(last_pos := None))
          else unindex_scan stream_id cnt slots rest)"

definition index_by_sender :: "address \<Rightarrow> nat \<Rightarrow> storage \<Rightarrow> ('e, storage) outcome" where
  "index_by_sender sender stream_id s =
     (let idx = unwrap_or 0 (p_sc s sender);
          s1 = s\<lparr>p_s := (p_s s)(sender := (p_s s sender)(idx \<mapsto> stream_id))\<rparr>
      in bindE (expect ''sender index overflow'' (checked_add_u32 idx 1)) (\<lambda>next.
           Inr (s1\<lparr>p_sc := (p_sc s1)(sender \<mapsto> next)\<rparr>)))"

definition index_by_recipient :: "address \<Rightarrow> nat \<Rightarrow> storage \<Rightarrow> ('e, storage) outcome" where
  "index_by_recipient recipient stream_id s =
     (let idx = unwrap_or 0 (p_rc s recipient);
          s1 = s\<lparr>p_r := (p_r s)(recipient := (p_r s recipient)(idx \<mapsto> stream_id))\<rparr>
      in bindE (expect ''recipient index overflow'' (checked_add_u32 idx 1)) (\<lambda>next.
           Inr (s1\<lparr>p_rc := (p_rc s1)(recipient \<mapsto> next)\<rparr>)))"

definition unindex_by_sender :: "address \<Rightarrow> nat \<Rightarrow> storage \<Rightarrow> storage" where
  "unindex_by_sender sender stream_id s =
     (let cnt = unwrap_or 0 (p_sc s sender)
      in case unindex_scan stream_id cnt (p_s s sender) [0..<cnt] of
           None \<Rightarrow> s
         | Some (last_pos, slots) \<Rightarrow>
             s\<lparr>p_s := (p_s s)(sender := slots), p_sc := (p_sc s)(sender \<mapsto> last_pos)\<rparr>)"

definition unindex_by_recipient :: "address \<Rightarrow> nat \<Rightarrow> storage \<Rightarrow> storage" where
  "unindex_by_recipient recipient stream_id s =
     (let cnt = unwrap_or 0 (p_rc s recipient)
      in case unindex_scan stream_id cnt (p_r s recipient) [0..<cnt] of
           None \<Rightarrow> s
         | Some (last_pos, slots) \<Rightarrow>
             s\<lparr>p_r := (p_r s)(recipient := slots), p_rc := (p_rc s)(recipient \<mapsto> last_pos)\<rparr>)"

definition get_sender_stream_count :: "storage \<Rightarrow> address \<Rightarrow> nat" where
  "get_sender_stream_count s sender = unwrap_or 0 (p_sc s sender)"

definition get_recipient_stream_count :: "storage \<Rightarrow> address \<Rightarrow> nat" where
  "get_recipient_stream_count s recipient = unwrap_or 0 (p_rc s recipient)"

definition get_ids_by_sender :: "storage \<Rightarrow> address \<Rightarrow> nat list" where
  "get_ids_by_sender s sender =
     (let cnt = unwrap_or 0 (p_sc s sender) in List.map_filter (p_s s sender) [0..<cnt])"

definition get_ids_by_recipient :: "storage \<Rightarrow> address \<Rightarrow> nat list" where
  "get_ids_by_recipient s recipient =
     (let cnt = unwrap_or 0 (p_rc s recipient) in List.map_filter (p_r s recipient) [0..<cnt])"

section \<open>Slots as a list\<close>

definition slots_full :: "nat \<Rightarrow> (nat \<rightharpoonup> nat) \<Rightarrow> bool" where
  "slots_full cnt slots \<longleftrightarrow> (\<forall>i < cnt. slots i \<noteq> None)"

lemma map_filter_cong:
  "(\<And>i. i \<in> set is \<Longrightarrow> f i = g i) \<Longrightarrow> List.map_filter f is = List.map_filter g is"
  by (induction "is") (auto simp: List.map_filter_simps split: option.splits)

lemma map_filter_full:
  "(\<And>i. i \<in> set is \<Longrightarrow> f i \<noteq> None) \<Longrightarrow> List.map_filter f is = map (\<lambda>i. the (f i)) is"
  by (induction "is") (auto simp: List.map_filter_simps split: option.splits)

lemma slot_list_full:
  "slots_full cnt sl \<Longrightarrow> List.map_filter sl [0..<cnt] = map (\<lambda>i. the (sl i)) [0..<cnt]"
  by (rule map_filter_full) (auto simp: slots_full_def)

lemma slot_append:
  "List.map_filter (sl(cnt \<mapsto> x)) [0..<Suc cnt] = List.map_filter sl [0..<cnt] @ [x]"
proof -
  have "List.map_filter (sl(cnt \<mapsto> x)) [0..<cnt] = List.map_filter sl [0..<cnt]"
    by (rule map_filter_cong) simp
  then show ?thesis by (simp add: List.map_filter_def)
qed

lemma slots_full_append: "slots_full cnt sl \<Longrightarrow> slots_full (Suc cnt) (sl(cnt \<mapsto> x))"
  by (auto simp: slots_full_def less_Suc_eq)

lemma unindex_scan_skip:
  "(\<And>i. i \<in> set is \<Longrightarrow> sl i \<noteq> Some x) \<Longrightarrow>
     unindex_scan x cnt sl (is @ rest) = unindex_scan x cnt sl rest"
  by (induction "is") (auto split: option.splits)

lemma unindex_scan_None:
  "(\<And>i. i \<in> set is \<Longrightarrow> sl i \<noteq> Some x) \<Longrightarrow> unindex_scan x cnt sl is = None"
  using unindex_scan_skip [of "is" sl x cnt "[]"] by simp

lemma unindex_scan_first:
  assumes "sl i = Some x" "i < cnt"
  obtains j where "j < cnt" "sl j = Some x"
    "unindex_scan x cnt sl [0..<cnt] =
       Some (cnt - 1, (if j \<noteq> cnt - 1 then sl(j \<mapsto> unwrap_or 0 (sl (cnt - 1))) else sl)
                        (cnt - 1 := None))"
proof -
  define j where "j = (LEAST j. sl j = Some x)"
  have j: "sl j = Some x" "j \<le> i" and least: "\<And>k. k < j \<Longrightarrow> sl k \<noteq> Some x"
    using assms(1) unfolding j_def by (auto intro: LeastI Least_le dest: not_less_Least)
  have "[0..<cnt] = [0..<j] @ j # [Suc j..<cnt]"
    using j(2) assms(2) upt_add_eq_append [of 0 j "cnt - j"] by (simp add: upt_conv_Cons)
  then have "unindex_scan x cnt sl [0..<cnt] = unindex_scan x cnt sl (j # [Suc j..<cnt])"
    using unindex_scan_skip [of "[0..<j]" sl x cnt "j # [Suc j..<cnt]"] least by simp
  with j assms(2) show ?thesis by (intro that [of j]) (auto simp: Let_def)
qed

lemma swap_pop_mset:
  assumes full: "slots_full cnt sl" and j: "j < cnt" "sl j = Some x"
  defines "sl' \<equiv> (if j \<noteq> cnt - 1 then sl(j \<mapsto> unwrap_or 0 (sl (cnt - 1))) else sl)(cnt - 1 := None)"
  shows "slots_full (cnt - 1) sl'"
    and "mset (List.map_filter sl' [0..<cnt - 1]) = mset (List.map_filter sl [0..<cnt]) - {#x#}"
proof -
  obtain n where n: "cnt = Suc n" using j(1) by (cases cnt) auto
  define L where "L = map (\<lambda>i. the (sl i)) [0..<n]"
  obtain y where y: "sl n = Some y" using full n by (auto simp: slots_full_def)
  show full': "slots_full (cnt - 1) sl'"
    using full j n y by (auto simp: slots_full_def sl'_def)
  have old: "List.map_filter sl [0..<cnt] = L @ [y]"
    using slot_list_full [OF full] y n by (simp add: L_def)
  have new: "List.map_filter sl' [0..<cnt - 1] = (if j = n then L else L[j := y])"
    using slot_list_full [OF full'] y j n
    by (auto simp: L_def sl'_def intro!: nth_equalityI)
  show "mset (List.map_filter sl' [0..<cnt - 1]) = mset (List.map_filter sl [0..<cnt]) - {#x#}"
  proof (cases "j = n")
    case True
    then show ?thesis using old new y j(2) by simp
  next
    case False
    then have "j < length L" "L ! j = x" using j n by (auto simp: L_def)
    moreover from this obtain M where "mset L = add_mset x M"
      by (metis mset_add nth_mem set_mset_mset)
    ultimately show ?thesis using False old new by (simp add: mset_update)
  qed
qed

section \<open>The interface\<close>

locale stream_index =
  fixes ids :: "storage \<Rightarrow> address \<Rightarrow> nat list"
    and cnt :: "storage \<Rightarrow> address \<Rightarrow> nat"
    and add :: "address \<Rightarrow> nat \<Rightarrow> storage \<Rightarrow> (stream_error, storage) outcome"
    and del :: "address \<Rightarrow> nat \<Rightarrow> storage \<Rightarrow> storage"
    and wf :: "storage \<Rightarrow> bool"
  assumes add_ids: "wf s \<Longrightarrow> add a x s = Inr s' \<Longrightarrow>
      ids s' b = (if b = a then ids s a @ [x] else ids s b)"
    and add_wf: "wf s \<Longrightarrow> add a x s = Inr s' \<Longrightarrow> wf s'"
    and del_ids: "wf s \<Longrightarrow> mset (ids (del a x s) a) = mset (ids s a) - {#x#}"
    and del_frame: "wf s \<Longrightarrow> b \<noteq> a \<Longrightarrow> ids (del a x s) b = ids s b"
    and del_wf: "wf s \<Longrightarrow> wf (del a x s)"
    and cnt_ids: "wf s \<Longrightarrow> cnt s a = length (ids s a)"
begin

lemma add_distinct:
  "wf s \<Longrightarrow> add a x s = Inr s' \<Longrightarrow> x \<notin> set (ids s a) \<Longrightarrow> distinct (ids s a) \<Longrightarrow>
     distinct (ids s' a) \<and> set (ids s' a) = insert x (set (ids s a))"
  by (simp add: add_ids)

lemma del_distinct:
  assumes "wf s" "distinct (ids s a)"
  shows "distinct (ids (del a x s) a) \<and> set (ids (del a x s) a) = set (ids s a) - {x}"
proof -
  have m: "mset (ids (del a x s) a) = mset (remove1 x (ids s a))"
    using del_ids [OF assms(1)] by simp
  have "distinct (ids (del a x s) a)"
    using mset_eq_imp_distinct_iff [OF m] assms(2) by (simp add: distinct_remove1)
  moreover have "set (ids (del a x s) a) = set (remove1 x (ids s a))"
    by (rule mset_eq_setD [OF m])
  ultimately show ?thesis using assms(2) by simp
qed

lemma del_count:
  assumes "wf s" "x \<in> set (ids s a)"
  shows "cnt (del a x s) a + 1 = cnt s a"
proof -
  have "size (mset (ids (del a x s) a)) = size (mset (ids s a) - {#x#})"
    using del_ids [OF assms(1)] by simp
  then show ?thesis
    using assms by (simp add: cnt_ids del_wf size_Diff_singleton)
      (metis Suc_pred length_pos_if_in_set)
qed

lemma del_absent:
  "wf s \<Longrightarrow> x \<notin> set (ids s a) \<Longrightarrow> mset (ids (del a x s) a) = mset (ids s a)"
  by (simp add: del_ids)

lemma add_del:
  "wf s \<Longrightarrow> add a x s = Inr s' \<Longrightarrow> mset (ids (del a x s') a) = mset (ids s a)"
  using add_wf [of s a x s'] by (simp add: del_ids add_ids)

end

definition sender_index_wf :: "storage \<Rightarrow> bool" where
  "sender_index_wf s \<longleftrightarrow> (\<forall>a. slots_full (get_sender_stream_count s a) (p_s s a))"

definition recipient_index_wf :: "storage \<Rightarrow> bool" where
  "recipient_index_wf s \<longleftrightarrow> (\<forall>a. slots_full (get_recipient_stream_count s a) (p_r s a))"

lemma index_by_sender_Inr [outcome]:
  "index_by_sender a x s = Inr s' \<longleftrightarrow>
     get_sender_stream_count s a + 1 \<le> u32_max \<and>
     s' = s\<lparr>p_s := (p_s s)(a := (p_s s a)(get_sender_stream_count s a \<mapsto> x)),
            p_sc := (p_sc s)(a \<mapsto> get_sender_stream_count s a + 1)\<rparr>"
  by (auto simp: index_by_sender_def get_sender_stream_count_def Let_def outcome)

lemma index_by_recipient_Inr [outcome]:
  "index_by_recipient a x s = Inr s' \<longleftrightarrow>
     get_recipient_stream_count s a + 1 \<le> u32_max \<and>
     s' = s\<lparr>p_r := (p_r s)(a := (p_r s a)(get_recipient_stream_count s a \<mapsto> x)),
            p_rc := (p_rc s)(a \<mapsto> get_recipient_stream_count s a + 1)\<rparr>"
  by (auto simp: index_by_recipient_def get_recipient_stream_count_def Let_def outcome)

text \<open>What swap-and-pop does to one index, in terms of the storage fields.\<close>

lemma unindex_scan_result:
  assumes "slots_full cnt sl"
  shows "case unindex_scan x cnt sl [0..<cnt] of
           None \<Rightarrow> x \<notin> set (List.map_filter sl [0..<cnt])
         | Some (n, sl') \<Rightarrow> slots_full n sl' \<and>
             mset (List.map_filter sl' [0..<n]) = mset (List.map_filter sl [0..<cnt]) - {#x#}"
proof (cases "\<exists>i < cnt. sl i = Some x")
  case True
  then obtain i where "sl i = Some x" "i < cnt" by blast
  then show ?thesis
    by (rule unindex_scan_first) (use swap_pop_mset [OF assms] in simp)
next
  case False
  then have "x \<notin> set (List.map_filter sl [0..<cnt])"
    by (auto simp: List.map_filter_def)
  moreover have "unindex_scan x cnt sl [0..<cnt] = None"
    by (rule unindex_scan_None) (use False in auto)
  ultimately show ?thesis by simp
qed

interpretation sender_index: stream_index get_ids_by_sender get_sender_stream_count
  index_by_sender unindex_by_sender sender_index_wf
proof unfold_locales
  fix s s' :: storage and a b x
  assume wf: "sender_index_wf s"
  have full: "slots_full (get_sender_stream_count s a) (p_s s a)"
    using wf by (simp add: sender_index_wf_def)
  note del = unindex_scan_result [OF full, of x]
  show "mset (get_ids_by_sender (unindex_by_sender a x s) a) =
      mset (get_ids_by_sender s a) - {#x#}"
    using del by (auto simp: unindex_by_sender_def get_ids_by_sender_def Let_def
        get_sender_stream_count_def split: option.splits)
  show "b \<noteq> a \<Longrightarrow> get_ids_by_sender (unindex_by_sender a x s) b = get_ids_by_sender s b"
    by (auto simp: unindex_by_sender_def get_ids_by_sender_def Let_def split: option.splits)
  show "sender_index_wf (unindex_by_sender a x s)"
    using wf del by (auto simp: unindex_by_sender_def sender_index_wf_def Let_def
        get_sender_stream_count_def split: option.splits)
  show "get_sender_stream_count s a = length (get_ids_by_sender s a)"
    using slot_list_full [OF full] by (simp add: get_ids_by_sender_def
        get_sender_stream_count_def)
  assume add: "index_by_sender a x s = (Inr s' :: (stream_error, storage) outcome)"
  show "get_ids_by_sender s' b =
      (if b = a then get_ids_by_sender s a @ [x] else get_ids_by_sender s b)"
    using add by (auto simp: outcome get_ids_by_sender_def get_sender_stream_count_def
        slot_append simp del: upt_Suc)
  show "sender_index_wf s'"
    using add wf by (auto simp: outcome sender_index_wf_def get_sender_stream_count_def
        intro: slots_full_append)
qed

interpretation recipient_index: stream_index get_ids_by_recipient get_recipient_stream_count
  index_by_recipient unindex_by_recipient recipient_index_wf
proof unfold_locales
  fix s s' :: storage and a b x
  assume wf: "recipient_index_wf s"
  have full: "slots_full (get_recipient_stream_count s a) (p_r s a)"
    using wf by (simp add: recipient_index_wf_def)
  note del = unindex_scan_result [OF full, of x]
  show "mset (get_ids_by_recipient (unindex_by_recipient a x s) a) =
      mset (get_ids_by_recipient s a) - {#x#}"
    using del by (auto simp: unindex_by_recipient_def get_ids_by_recipient_def Let_def
        get_recipient_stream_count_def split: option.splits)
  show "b \<noteq> a \<Longrightarrow> get_ids_by_recipient (unindex_by_recipient a x s) b = get_ids_by_recipient s b"
    by (auto simp: unindex_by_recipient_def get_ids_by_recipient_def Let_def split: option.splits)
  show "recipient_index_wf (unindex_by_recipient a x s)"
    using wf del by (auto simp: unindex_by_recipient_def recipient_index_wf_def Let_def
        get_recipient_stream_count_def split: option.splits)
  show "get_recipient_stream_count s a = length (get_ids_by_recipient s a)"
    using slot_list_full [OF full] by (simp add: get_ids_by_recipient_def
        get_recipient_stream_count_def)
  assume add: "index_by_recipient a x s = (Inr s' :: (stream_error, storage) outcome)"
  show "get_ids_by_recipient s' b =
      (if b = a then get_ids_by_recipient s a @ [x] else get_ids_by_recipient s b)"
    using add by (auto simp: outcome get_ids_by_recipient_def get_recipient_stream_count_def
        slot_append simp del: upt_Suc)
  show "recipient_index_wf s'"
    using add wf by (auto simp: outcome recipient_index_wf_def get_recipient_stream_count_def
        intro: slots_full_append)
qed

end
