(* ===== verification/Audit_Log.thy ===== *)
theory Audit_Log
  imports Storage
begin

text \<open>
  The admin audit log of \<open>storage.rs\<close>: a circular buffer of twenty slots with a head and a
  length counter. The abstract view is the list of all entries ever appended; \<open>audit_rel\<close>
  relates it to the buffer, and reading the log yields the newest twenty entries in order.
\<close>

definition AUDIT_CAP :: nat where
  "AUDIT_CAP = 20"

definition append_audit_entry :: "audit_entry \<Rightarrow> storage \<Rightarrow> ('e, storage) outcome" where
  "append_audit_entry entry s =
     (let head = unwrap_or 0 (i_al_head s);
          len = unwrap_or 0 (i_al_len s);
          write_idx = head mod AUDIT_CAP;
          s1 = s\<lparr>i_al := (i_al s)(write_idx \<mapsto> entry)\<rparr>
      in bindE (add_u32 head 1) (\<lambda>h.
         bindE (add_u32 len 1) (\<lambda>l.
           let new_head = h mod AUDIT_CAP;
               new_len = min l AUDIT_CAP
           in Inr (s1\<lparr>i_al_head := Some new_head, i_al_len := Some new_len\<rparr>))))"

fun read_audit_loop ::
    "storage \<Rightarrow> nat \<Rightarrow> nat \<Rightarrow> nat list \<Rightarrow> ('e, audit_entry list) outcome" where
  "read_audit_loop s head len [] = Inr []"
| "read_audit_loop s head len (i # rest) =
     bindE (add_u32 head AUDIT_CAP) (\<lambda>a.
     bindE (sub_u32 a len) (\<lambda>b.
     bindE (add_u32 b i) (\<lambda>c.
     bindE (read_audit_loop s head len rest) (\<lambda>entries.
       Inr (case i_al s (c mod AUDIT_CAP) of
              Some entry \<Rightarrow> entry # entries
            | None \<Rightarrow> entries)))))"

definition read_audit_log :: "storage \<Rightarrow> ('e, audit_entry list) outcome" where
  "read_audit_log s =
     (let head = unwrap_or 0 (i_al_head s);
          len = unwrap_or 0 (i_al_len s)
      in read_audit_loop s head len [0..<len])"

section \<open>The abstract log\<close>

definition audit_rel :: "audit_entry list \<Rightarrow> storage \<Rightarrow> bool" where
  "audit_rel hist s \<longleftrightarrow>
     unwrap_or 0 (i_al_head s) = length hist mod AUDIT_CAP \<and>
     unwrap_or 0 (i_al_len s) = min (length hist) AUDIT_CAP \<and>
     (\<forall>k < length hist. length hist - AUDIT_CAP \<le> k \<longrightarrow>
        i_al s (k mod AUDIT_CAP) = Some (hist ! k))"

lemma audit_rel_empty: "audit_rel [] empty_storage"
  by (simp add: audit_rel_def empty_storage_def)

lemma mod_window:
  assumes "k < n" "n < k + m" "0 < (m::nat)"
  shows "k mod m \<noteq> n mod m"
proof
  assume "k mod m = n mod m"
  then have "m dvd n - k" using assms(1) by (simp add: mod_eq_dvd_iff_nat [symmetric])
  then have "m \<le> n - k" using assms(1) by (intro dvd_imp_le) simp_all
  then show False using assms(1,2) by simp
qed

lemma append_audit_entry_rel:
  assumes "audit_rel hist s"
  shows "\<exists>s'. append_audit_entry e s = Inr s' \<and> audit_rel (hist @ [e]) s'"
proof -
  let ?n = "length hist"
  define s' where "s' = s\<lparr>i_al := (i_al s)(?n mod 20 \<mapsto> e),
                          i_al_head := Some ((?n mod 20 + 1) mod 20),
                          i_al_len := Some (min (min ?n 20 + 1) 20)\<rparr>"
  have head: "unwrap_or 0 (i_al_head s) = ?n mod 20" and len: "unwrap_or 0 (i_al_len s) = min ?n 20"
    and slots: "\<And>k. k < ?n \<Longrightarrow> ?n - 20 \<le> k \<Longrightarrow> i_al s (k mod 20) = Some (hist ! k)"
    using assms by (auto simp: audit_rel_def AUDIT_CAP_def)
  have "?n mod 20 < 20" "min ?n 20 \<le> 20" by simp_all
  then have fit: "?n mod 20 + 1 \<le> u32_max" "min ?n 20 + 1 \<le> u32_max"
    by (simp_all add: u32_max_def)
  have app: "append_audit_entry e s = Inr s'"
    using fit by (simp add: append_audit_entry_def Let_def head len AUDIT_CAP_def add_u32_def s'_def)
  have "i_al s' (k mod 20) = Some ((hist @ [e]) ! k)"
    if "k < Suc ?n" "Suc ?n - 20 \<le> k" for k
  proof (cases "k = ?n")
    case True
    then show ?thesis by (simp add: s'_def)
  next
    case False
    then have "k mod 20 \<noteq> ?n mod 20" using that by (intro mod_window) simp_all
    then show ?thesis using False that slots [of k] by (simp add: s'_def nth_append)
  qed
  then have "audit_rel (hist @ [e]) s'"
    by (auto simp: audit_rel_def s'_def AUDIT_CAP_def mod_Suc_eq)
  with app show ?thesis by blast
qed

lemma read_audit_loop_map:
  assumes "head < 20" "len \<le> 20" "set is \<subseteq> {..<20}"
    and "\<And>i. i \<in> set is \<Longrightarrow> i_al s ((head + 20 - len + i) mod 20) = Some (f i)"
  shows "read_audit_loop s head len is = Inr (map f is)"
  using assms
proof (induction "is")
  case Nil
  then show ?case by simp
next
  case (Cons i rest)
  have bounds: "head + 20 \<le> u32_max" "len \<le> head + 20" "head + 20 - len + i \<le> u32_max"
    using Cons.prems(1-3) by (auto simp: u32_max_def)
  then show ?case
    using Cons by (simp add: AUDIT_CAP_def add_u32_def sub_u32_def)
qed

lemma audit_position:
  assumes "i < min n 20"
  shows "(n mod 20 + 20 - min n 20 + i) mod 20 = (n - min n 20 + i) mod (20::nat)"
proof (cases "n < 20")
  case True
  then show ?thesis using assms by simp
next
  case False
  then have "(n mod 20 + i) mod 20 = (n - 20 + i + 20) mod 20"
    by (simp add: mod_add_left_eq)
  also have "\<dots> = (n - 20 + i) mod 20" by (rule mod_add_self2)
  finally show ?thesis using False by simp
qed

lemma read_audit_log_rel:
  assumes "audit_rel hist s"
  shows "read_audit_log s = Inr (drop (length hist - AUDIT_CAP) hist)"
proof -
  let ?n = "length hist"
  let ?m = "min ?n 20"
  have head: "unwrap_or 0 (i_al_head s) = ?n mod 20" and len: "unwrap_or 0 (i_al_len s) = ?m"
    and slots: "\<And>k. k < ?n \<Longrightarrow> ?n - 20 \<le> k \<Longrightarrow> i_al s (k mod 20) = Some (hist ! k)"
    using assms by (auto simp: audit_rel_def AUDIT_CAP_def)
  have "i_al s ((?n mod 20 + 20 - ?m + i) mod 20) = Some (hist ! (?n - ?m + i))"
    if "i \<in> set [0..<?m]" for i
  proof -
    have i: "i < ?m" using that by simp
    then have "?n - ?m + i < ?n" "?n - 20 \<le> ?n - ?m + i" by auto
    from slots [OF this] show ?thesis using audit_position [OF i] by simp
  qed
  then have "read_audit_log s = Inr (map (\<lambda>i. hist ! (?n - ?m + i)) [0..<?m])"
    unfolding read_audit_log_def Let_def head len
    by (intro read_audit_loop_map) auto
  also have "map (\<lambda>i. hist ! (?n - ?m + i)) [0..<?m] = drop (?n - AUDIT_CAP) hist"
    by (rule nth_equalityI) (auto simp: AUDIT_CAP_def min_def)
  finally show ?thesis .
qed

text \<open>The log after a sequence of appends.\<close>

fun append_all :: "audit_entry list \<Rightarrow> storage \<Rightarrow> ('e, storage) outcome" where
  "append_all [] s = Inr s"
| "append_all (e # es) s = bindE (append_audit_entry e s) (append_all es)"

lemma append_all_rel:
  "audit_rel hist s \<Longrightarrow>
     \<exists>s'. append_all es s = (Inr s' :: (stream_error, storage) outcome) \<and> audit_rel (hist @ es) s'"
proof (induction es arbitrary: hist s)
  case Nil
  then show ?case by simp
next
  case (Cons e es)
  from append_audit_entry_rel [OF Cons.prems, of e]
  obtain s1 where s1: "append_audit_entry e s = (Inr s1 :: (stream_error, storage) outcome)"
    "audit_rel (hist @ [e]) s1" by blast
  from Cons.IH [OF s1(2)] show ?case by (simp add: s1(1))
qed

text \<open>
  C28: the circular buffer implements a bounded log. Starting from an empty contract, appending
  any sequence of entries succeeds, and reading the log then returns the newest twenty of them,
  oldest first.
\<close>

theorem audit_log_keeps_last_20:
  "\<exists>s. append_all es empty_storage = (Inr s :: (stream_error, storage) outcome) \<and>
       read_audit_log s = (Inr (drop (length es - 20) es) :: (stream_error, _) outcome)"
proof -
  obtain s where "append_all es empty_storage = (Inr s :: (stream_error, storage) outcome)"
    and "audit_rel es s"
    using append_all_rel [OF audit_rel_empty, of es] by auto
  then show ?thesis using read_audit_log_rel [of es s] by (auto simp: AUDIT_CAP_def)
qed

end
