(* ===== verification/Admin.thy ===== *)
theory Admin
  imports Slot_Index Audit_Log
begin

text \<open>
  The administrative instructions of \<open>lib.rs\<close>: initialisation, roles, pausing, fees, limits,
  whitelist, migration and the treasury calls. An instruction takes the environment, its
  arguments and the world, and returns its result with the new world, or the abort; the host
  discards the world of an aborted invocation.
\<close>

type_synonym ('w, 'a) response = "(stream_error, 'a \<times> 'w world) outcome"

section \<open>Initialisation and roles\<close>

definition initialize ::
    "'w env \<Rightarrow> address \<Rightarrow> string \<Rightarrow> 'w world \<Rightarrow> ('w, unit) response" where
  "initialize env admin version W =
     (if read_admin (st W) \<noteq> None then Inl (Err AlreadyInitialized)
      else let W1 = in_store (write_admin admin) W;
               W2 = in_store (write_version version) W1
           in Inr ((), publish (ev_contract_deployed version admin) W2))"

definition get_admin :: "'w world \<Rightarrow> (stream_error, address) outcome" where
  "get_admin W = ok_or NotInitialized (read_admin (st W))"

definition get_version :: "'w world \<Rightarrow> (stream_error, string) outcome" where
  "get_version W = ok_or NotInitialized (read_version (st W))"

definition set_admin :: "'w env \<Rightarrow> address \<Rightarrow> 'w world \<Rightarrow> ('w, unit) response" where
  "set_admin env new_admin W =
     bindE (check_admin env (st W)) (\<lambda>_. Inr ((), in_store (write_admin new_admin) W))"

definition set_guardian :: "'w env \<Rightarrow> address \<Rightarrow> 'w world \<Rightarrow> ('w, unit) response" where
  "set_guardian env guardian W =
     bindE (check_admin env (st W)) (\<lambda>_. Inr ((), in_store (write_guardian guardian) W))"

definition get_guardian :: "'w world \<Rightarrow> address option" where
  "get_guardian W = read_guardian (st W)"

definition set_governance :: "'w env \<Rightarrow> address \<Rightarrow> 'w world \<Rightarrow> ('w, unit) response" where
  "set_governance env governance W =
     bindE (check_admin env (st W)) (\<lambda>_. Inr ((), in_store (write_governance governance) W))"

definition get_governance :: "'w world \<Rightarrow> address option" where
  "get_governance W = read_governance (st W)"

section \<open>Pausing\<close>

definition emergency_pause :: "'w env \<Rightarrow> 'w world \<Rightarrow> ('w, unit) response" where
  "emergency_pause env W =
     bindE (check_admin env (st W)) (\<lambda>_.
       let W1 = in_store (set_paused True) W;
           ts = ledger_timestamp env;
           expiry = unwrap_or u64_max (checked_add_u64 ts MAX_PAUSE_DURATION);
           W2 = in_store (set_pause_expiry expiry) W1
       in bindE (expect ''unwrap'' (read_admin (st W2))) (\<lambda>admin.
         let W3 = publish (ev_contract_paused admin ts) W2;
             entry = \<lparr>a_instruction = ''emergency_pause'', a_admin = admin,
                      a_timestamp = ts, a_params = ''''\<rparr>
         in bindE (append_audit_entry entry (st W3)) (\<lambda>s.
           let W4 = W3\<lparr>st := s\<rparr>
           in Inr ((), publish (ev_admin_action (a_instruction entry) admin ts) W4))))"

definition emergency_resume :: "'w env \<Rightarrow> 'w world \<Rightarrow> ('w, unit) response" where
  "emergency_resume env W =
     bindE (check_admin env (st W)) (\<lambda>_.
       let W1 = in_store (set_paused False) W;
           W2 = in_store (set_pause_expiry 0) W1
       in bindE (expect ''unwrap'' (read_admin (st W2))) (\<lambda>admin.
         let W3 = publish (ev_contract_resumed admin (ledger_timestamp env)) W2;
             ts = ledger_timestamp env;
             entry = \<lparr>a_instruction = ''emergency_resume'', a_admin = admin,
                      a_timestamp = ts, a_params = ''''\<rparr>
         in bindE (append_audit_entry entry (st W3)) (\<lambda>s.
           let W4 = W3\<lparr>st := s\<rparr>
           in Inr ((), publish (ev_admin_action (a_instruction entry) admin ts) W4))))"

definition is_paused :: "'w env \<Rightarrow> 'w world \<Rightarrow> bool \<times> 'w world" where
  "is_paused env W =
     (let (p, s) = is_paused_or_auto_unpause env (st W) in (p, W\<lparr>st := s\<rparr>))"

text \<open>
  The guard \<open>if is_paused_or_auto_unpause(&env) { return Err(ContractPaused) }\<close> that opens the
  stream instructions.
\<close>

definition when_not_paused :: "'w env \<Rightarrow> 'w world \<Rightarrow> (stream_error, 'w world) outcome" where
  "when_not_paused env W =
     (let (p, W1) = is_paused env W
      in if p then Inl (Err ContractPaused) else Inr W1)"

definition pause :: "'w env \<Rightarrow> address \<Rightarrow> 'w world \<Rightarrow> ('w, unit) response" where
  "pause env guardian W =
     bindE (require_auth env guardian) (\<lambda>_.
     bindE (ok_or NotAuthorized (read_guardian (st W))) (\<lambda>stored_guardian.
       if guardian \<noteq> stored_guardian then Inl (Err NotAuthorized)
       else let W1 = in_store (set_paused True) W;
                ts = ledger_timestamp env;
                expiry = unwrap_or u64_max (checked_add_u64 ts MAX_PAUSE_DURATION);
                W2 = in_store (set_pause_expiry expiry) W1
            in Inr ((), publish (ev_paused guardian ts) W2)))"

definition unpause :: "'w env \<Rightarrow> address \<Rightarrow> 'w world \<Rightarrow> ('w, unit) response" where
  "unpause env governance W =
     bindE (require_auth env governance) (\<lambda>_.
     bindE (ok_or NotAuthorized (read_governance (st W))) (\<lambda>stored_governance.
       if governance \<noteq> stored_governance then Inl (Err NotAuthorized)
       else let W1 = in_store (set_paused False) W;
                W2 = in_store (set_pause_expiry 0) W1;
                ts = ledger_timestamp env
            in Inr ((), publish (ev_unpaused governance ts) W2)))"

definition get_pause_expiry :: "'w world \<Rightarrow> nat" where
  "get_pause_expiry W = storage_get_pause_expiry (st W)"

section \<open>Fee exemptions, limits, whitelist, durations\<close>

definition add_fee_exempt :: "'w env \<Rightarrow> address \<Rightarrow> 'w world \<Rightarrow> ('w, unit) response" where
  "add_fee_exempt env addr W =
     bindE (check_admin env (st W)) (\<lambda>_. Inr ((), in_store (storage_add_fee_exempt addr) W))"

definition remove_fee_exempt :: "'w env \<Rightarrow> address \<Rightarrow> 'w world \<Rightarrow> ('w, unit) response" where
  "remove_fee_exempt env addr W =
     bindE (check_admin env (st W)) (\<lambda>_. Inr ((), in_store (storage_remove_fee_exempt addr) W))"

definition is_fee_exempt :: "'w world \<Rightarrow> address \<Rightarrow> bool" where
  "is_fee_exempt W addr = storage_is_fee_exempt (st W) addr"

definition upgrade :: "'w env \<Rightarrow> bytes \<Rightarrow> 'w world \<Rightarrow> ('w, unit) response" where
  "upgrade env new_wasm_hash W =
     bindE (ok_or NotInitialized (read_admin (st W))) (\<lambda>admin.
     bindE (require_auth env admin) (\<lambda>_.
       case update_wasm env new_wasm_hash (ext W) of
         None \<Rightarrow> Inl (Panic Host_trap)
       | Some w \<Rightarrow> Inr ((), W\<lparr>ext := w\<rparr>)))"

definition set_max_streams :: "'w env \<Rightarrow> nat \<Rightarrow> 'w world \<Rightarrow> ('w, unit) response" where
  "set_max_streams env max_streams W =
     bindE (check_admin env (st W)) (\<lambda>_.
       Inr ((), in_store (set_max_streams_per_sender max_streams) W))"

definition set_sender_stream_limit ::
    "'w env \<Rightarrow> address \<Rightarrow> nat \<Rightarrow> 'w world \<Rightarrow> ('w, unit) response" where
  "set_sender_stream_limit env sender limit W =
     bindE (check_admin env (st W)) (\<lambda>_. Inr ((), in_store (set_sender_limit sender limit) W))"

definition min_duration :: "'w world \<Rightarrow> nat" where
  "min_duration W = read_min_duration (st W)"

definition set_min_duration ::
    "'w env \<Rightarrow> address \<Rightarrow> nat \<Rightarrow> 'w world \<Rightarrow> ('w, unit) response" where
  "set_min_duration env admin seconds W =
     bindE (require_auth env admin) (\<lambda>_. Inr ((), in_store (write_min_duration seconds) W))"

definition set_withdrawal_cooldown ::
    "'w env \<Rightarrow> address \<Rightarrow> nat \<Rightarrow> 'w world \<Rightarrow> ('w, unit) response" where
  "set_withdrawal_cooldown env admin cooldown_seconds W =
     bindE (check_admin env (st W)) (\<lambda>_.
     bindE (require_auth env admin) (\<lambda>_.
       Inr ((), in_store (storage_set_withdrawal_cooldown cooldown_seconds) W)))"

definition set_whitelist_enabled ::
    "'w env \<Rightarrow> address \<Rightarrow> bool \<Rightarrow> 'w world \<Rightarrow> ('w, unit) response" where
  "set_whitelist_enabled env admin enabled W =
     bindE (check_admin env (st W)) (\<lambda>_.
     bindE (require_auth env admin) (\<lambda>_.
       Inr ((), in_store (storage_set_whitelist_enabled enabled) W)))"

definition add_to_whitelist ::
    "'w env \<Rightarrow> address \<Rightarrow> address \<Rightarrow> 'w world \<Rightarrow> ('w, unit) response" where
  "add_to_whitelist env admin recipient W =
     bindE (check_admin env (st W)) (\<lambda>_.
     bindE (require_auth env admin) (\<lambda>_.
       Inr ((), in_store (storage_add_to_whitelist recipient) W)))"

definition remove_from_whitelist ::
    "'w env \<Rightarrow> address \<Rightarrow> address \<Rightarrow> 'w world \<Rightarrow> ('w, unit) response" where
  "remove_from_whitelist env admin recipient W =
     bindE (check_admin env (st W)) (\<lambda>_.
     bindE (require_auth env admin) (\<lambda>_.
       Inr ((), in_store (storage_remove_from_whitelist recipient) W)))"

section \<open>Migration and the audit log\<close>

definition migrate :: "'w env \<Rightarrow> string \<Rightarrow> string \<Rightarrow> 'w world \<Rightarrow> ('w, unit) response" where
  "migrate env from_version to_version W =
     bindE (check_admin env (st W)) (\<lambda>_.
       let applied = read_applied_migrations (st W)
       in if to_version \<in> set applied then Inl (Err MigrationAlreadyApplied)
          else let W1 = in_store (write_version to_version) W;
                   W2 = in_store (record_migration to_version) W1
               in bindE (expect ''unwrap'' (read_admin (st W2))) (\<lambda>admin.
                 let W3 = publish (ev_contract_migrated from_version to_version admin) W2;
                     entry = \<lparr>a_instruction = ''migrate'', a_admin = admin,
                              a_timestamp = ledger_timestamp env, a_params = to_version\<rparr>
                 in bindE (append_audit_entry entry (st W3)) (\<lambda>s.
                   let W4 = W3\<lparr>st := s\<rparr>
                   in Inr ((), publish
                        (ev_admin_action (a_instruction entry) admin (a_timestamp entry)) W4))))"

definition get_admin_log :: "'w world \<Rightarrow> (stream_error, audit_entry list) outcome" where
  "get_admin_log W = read_audit_log (st W)"

section \<open>Fees and the treasury\<close>

definition set_protocol_fee :: "'w env \<Rightarrow> nat \<Rightarrow> 'w world \<Rightarrow> ('w, unit) response" where
  "set_protocol_fee env fee_bps W =
     (if fee_bps > 10000 then Inl (Err InvalidDuration)
      else Inr ((), in_store (storage_set_protocol_fee fee_bps) W))"

definition propose_fee_change ::
    "'w env \<Rightarrow> address \<Rightarrow> nat \<Rightarrow> 'w world \<Rightarrow> ('w, unit) response" where
  "propose_fee_change env admin new_fee_bps W =
     bindE (require_auth env admin) (\<lambda>_.
     bindE (ok_or NotInitialized (read_admin (st W))) (\<lambda>current_admin.
       if admin \<noteq> current_admin then Inl (Err NotAuthorized)
       else if new_fee_bps > 10000 then Inl (Err InvalidDuration)
       else let now = ledger_timestamp env;
                unlock_time = unwrap_or u64_max (checked_add_u64 now (7 * 24 * 60 * 60));
                W1 = in_store (write_pending_fee_proposal new_fee_bps unlock_time) W
            in Inr ((), publish (ev_fee_change_proposed new_fee_bps unlock_time) W1)))"

definition execute_fee_change :: "'w env \<Rightarrow> 'w world \<Rightarrow> ('w, unit) response" where
  "execute_fee_change env W =
     bindE (ok_or NotAuthorized (read_pending_fee_proposal (st W))) (\<lambda>(new_fee_bps, unlock_time).
       let now = ledger_timestamp env
       in if now < unlock_time then Inl (Err StreamLocked)
          else let W1 = in_store (storage_set_protocol_fee new_fee_bps) W;
                   W2 = in_store clear_pending_fee_proposal W1
               in Inr ((), publish (ev_fee_change_executed new_fee_bps) W2))"

definition set_treasury_address :: "'w env \<Rightarrow> address \<Rightarrow> 'w world \<Rightarrow> ('w, unit) response" where
  "set_treasury_address env treasury W = Inr ((), in_store (set_treasury treasury) W)"

definition set_creation_fee ::
    "'w env \<Rightarrow> int \<Rightarrow> address \<Rightarrow> 'w world \<Rightarrow> ('w, unit) response" where
  "set_creation_fee env fee xlm_token W =
     bindE (check_admin env (st W)) (\<lambda>_.
       if fee < 0 then Inl (Err ZeroAmount)
       else let W1 = in_store (set_creation_fee_xlm fee) W
            in Inr ((), in_store (set_xlm_token xlm_token) W1))"

definition get_creation_fee :: "'w world \<Rightarrow> int" where
  "get_creation_fee W = get_creation_fee_xlm (st W)"

definition get_protocol_fee_info :: "'w world \<Rightarrow> nat \<times> address option" where
  "get_protocol_fee_info W = (get_protocol_fee (st W), get_treasury (st W))"

text \<open>A call whose result does not have the type the caller decodes it to traps.\<close>

definition withdraw_treasury ::
    "'w env \<Rightarrow> address \<Rightarrow> int \<Rightarrow> address \<Rightarrow> 'w world \<Rightarrow> ('w, unit) response" where
  "withdraw_treasury env token amount destination W =
     bindE (check_admin env (st W)) (\<lambda>_.
     bindE (ok_or NotInitialized (get_treasury (st W))) (\<lambda>treasury.
     bindE (invoke env treasury ''withdraw_treasury''
              [VAddr token, VI128 amount, VAddr destination] W) (\<lambda>(r, W1).
       case r of VUnit \<Rightarrow> Inr ((), W1) | _ \<Rightarrow> Inl (Panic Host_trap))))"

definition withdraw_all_from_treasury ::
    "'w env \<Rightarrow> address \<Rightarrow> address \<Rightarrow> 'w world \<Rightarrow> ('w, int) response" where
  "withdraw_all_from_treasury env token destination W =
     bindE (check_admin env (st W)) (\<lambda>_.
     bindE (ok_or NotInitialized (get_treasury (st W))) (\<lambda>treasury.
     bindE (invoke env treasury ''withdraw_all'' [VAddr token, VAddr destination] W) (\<lambda>(r, W1).
       case r of VI128 result \<Rightarrow> Inr (result, W1) | _ \<Rightarrow> Inl (Panic Host_trap))))"

section \<open>Facts\<close>

lemma when_not_paused_Inr [outcome]:
  "when_not_paused env W = Inr W' \<longleftrightarrow>
     (\<exists>s. is_paused_or_auto_unpause env (st W) = (False, s) \<and> W' = W\<lparr>st := s\<rparr>)"
  by (auto simp: when_not_paused_def is_paused_def split: prod.splits)

lemma when_not_paused_frame:
  assumes "when_not_paused env W = Inr W'"
  shows "ext W' = ext W" "events W' = events W"
    "st W' = st W \<or> st W' = (st W)\<lparr>i_paused := Some False, i_p_exp := Some 0\<rparr>"
  using assms by (auto simp: outcome dest: auto_unpause_cases)

lemma append_audit_entry_frame:
  assumes "append_audit_entry e s = Inr s'"
  shows "p_streams s' = p_streams s" "i_paused s' = i_paused s" "i_p_exp s' = i_p_exp s"
    "i_admin s' = i_admin s" "i_fee_bps s' = i_fee_bps s"
  using assms by (auto simp: append_audit_entry_def Let_def outcome)

text \<open>What an emergency pause stores.\<close>

lemma emergency_pause_flags:
  assumes "emergency_pause env W = Inr ((), W')" "ledger_timestamp env + 259200 \<le> u64_max"
  shows "i_paused (st W') = Some True" "i_p_exp (st W') = Some (ledger_timestamp env + 259200)"
  using assms by (auto simp: emergency_pause_def outcome Let_def handler
      checked_add_u64_def MAX_PAUSE_DURATION_def append_audit_entry_frame)

lemmas admin_eval =
  Let_def handler empty_storage_def check_admin_def require_auth_def rust_int u32_max_def
  u64_max_def MAX_PAUSE_DURATION_def append_audit_entry_def AUDIT_CAP_def

text \<open>
  C30: the fee time-lock. A fee proposed by the admin can be executed, by anyone, only when
  seven days have passed; until then execution fails with the lock error and, being an abort,
  changes nothing. Executing it installs exactly the proposed fee, which is at most 100%, and
  clears the proposal.
\<close>

theorem fee_change_timelock:
  assumes "propose_fee_change env admin bps W = Inr ((), W1)"
    and "ledger_timestamp env + 604800 \<le> u64_max"
    and "st W2 = st W1"
  shows "(ledger_timestamp env' < ledger_timestamp env + 604800 \<and>
            execute_fee_change env' W2 = Inl (Err StreamLocked)) \<or>
         (ledger_timestamp env + 604800 \<le> ledger_timestamp env' \<and> bps \<le> 10000 \<and>
            (\<exists>W3. execute_fee_change env' W2 = Inr ((), W3) \<and>
                  get_protocol_fee (st W3) = bps \<and> read_pending_fee_proposal (st W3) = None))"
proof -
  have "i_pnd_fee (st W2) = Some (bps, ledger_timestamp env + 604800)" and "bps \<le> 10000"
    using assms by (auto simp: propose_fee_change_def outcome Let_def handler checked_add_u64_def
        split: if_splits)
  then show ?thesis
    by (auto simp: execute_fee_change_def handler Let_def)
qed

theorem fee_change_timelock_witness:
  "\<exists>W1. propose_fee_change (ledger_env 0 (Addr 0) [Addr 1]) (Addr 1) 250
           (in_store (write_admin (Addr 1)) (genesis (\<lambda>_ _. 0))) = Inr ((), W1) \<and>
        ((604800::nat) < 0 + 604800 \<and>
           execute_fee_change (ledger_env 604800 (Addr 0) []) W1 = Inl (Err StreamLocked) \<or>
         0 + 604800 \<le> (604800::nat) \<and> 250 \<le> (10000::nat) \<and>
           (\<exists>W3. execute_fee_change (ledger_env 604800 (Addr 0) []) W1 = Inr ((), W3) \<and>
              get_protocol_fee (st W3) = 250 \<and> read_pending_fee_proposal (st W3) = None))"
proof -
  let ?e = "ledger_env 0 (Addr 0) [Addr 1]"
  obtain W1 where W1: "propose_fee_change ?e (Addr 1) 250
      (in_store (write_admin (Addr 1)) (genesis (\<lambda>_ _. 0))) = Inr ((), W1)"
    by (simp add: propose_fee_change_def admin_eval)
  have "ledger_timestamp ?e + 604800 \<le> u64_max" by (simp add: u64_max_def)
  from fee_change_timelock [OF W1 this refl, of "ledger_env 604800 (Addr 0) []"] W1
  show ?thesis by simp
qed

end
