(* ===== verification/Create_Stream.thy ===== *)
theory Create_Stream
  imports Admin
begin

text \<open>
  Creating a stream (\<open>create_stream\<close>), and the steps the stream instructions share: the time a
  stream's clock shows, paying a positive amount out of the contract, registering a new stream
  in the table and the indexes, and closing one.
\<close>

section \<open>Shared steps\<close>

text \<open>\<open>let now = if status == Paused { last_pause_time } else { env.ledger().timestamp() }\<close>\<close>

definition stream_now :: "'w env \<Rightarrow> stream \<Rightarrow> nat" where
  "stream_now env stream =
     (if s_status stream = Paused then s_last_pause_time stream else ledger_timestamp env)"

text \<open>\<open>if amount > 0 { token_client.transfer(&env.current_contract_address(), to, &amount) }\<close>\<close>

definition pay_if_positive ::
    "'w env \<Rightarrow> address \<Rightarrow> address \<Rightarrow> int \<Rightarrow> 'w world \<Rightarrow> (stream_error, 'w world) outcome" where
  "pay_if_positive env token to_addr amount W =
     (if amount > 0 then transfer env token (current_contract env) to_addr amount W else Inr W)"

definition register_stream :: "stream \<Rightarrow> storage \<Rightarrow> (stream_error, storage) outcome" where
  "register_stream stream s =
     bindE (index_by_sender (s_sender stream) (s_id stream) (save_stream stream s)) (\<lambda>s1.
     bindE (index_by_recipient (s_recipient stream) (s_id stream) s1) (\<lambda>s2.
       index_global_stream (s_id stream) s2))"

definition close_stream :: "nat \<Rightarrow> stream \<Rightarrow> storage \<Rightarrow> storage" where
  "close_stream stream_id stream s =
     unindex_by_recipient (s_recipient stream) stream_id
       (unindex_by_sender (s_sender stream) stream_id (remove_stream stream_id s))"

text \<open>Loading the stream an instruction is about.\<close>

definition find_stream :: "'w world \<Rightarrow> nat \<Rightarrow> (stream_error, stream) outcome" where
  "find_stream W stream_id = ok_or StreamNotFound (load_stream (st W) stream_id)"

section \<open>create\_stream\<close>

text \<open>The flat creation fee, when one is configured.\<close>

definition collect_creation_fee ::
    "'w env \<Rightarrow> address \<Rightarrow> 'w world \<Rightarrow> (stream_error, 'w world) outcome" where
  "collect_creation_fee env sender W =
     (let creation_fee = get_creation_fee_xlm (st W)
      in if creation_fee > 0 then
           bindE (ok_or NotInitialized (get_treasury (st W))) (\<lambda>treasury.
           bindE (ok_or NotInitialized (get_xlm_token (st W))) (\<lambda>xlm_token.
           bindE (transfer env xlm_token sender treasury creation_fee W) (\<lambda>W1.
             Inr (publish (ev_creation_fee_collected creation_fee treasury) W1))))
         else Inr W)"

definition create_stream ::
    "'w env \<Rightarrow> address \<Rightarrow> address \<Rightarrow> address \<Rightarrow> int \<Rightarrow> nat \<Rightarrow> nat \<Rightarrow> nat \<Rightarrow> bool \<Rightarrow> nat \<Rightarrow> bool \<Rightarrow>
     bytes \<Rightarrow> 'w world \<Rightarrow> ('w, nat) response" where
  "create_stream env sender recipient token amount duration_seconds cliff_seconds nonce
     auto_renew lock_until allow_recipient_termination metadata W0 =
     bindE (require_auth env sender) (\<lambda>_.
     bindE (when_not_paused env W0) (\<lambda>W.
     if nonce_used (st W) sender nonce then Inl (Err DuplicateStream)
     else if amount \<le> 0 then Inl (Err ZeroAmount)
     else if cliff_seconds \<ge> duration_seconds then Inl (Err InvalidCliff)
     else if length metadata > 64 then Inl (Err MetadataTooLong)
     else if is_whitelist_enabled (st W) \<and> \<not> is_whitelisted (st W) recipient
       then Inl (Err RecipientNotWhitelisted)
     else let min_dur = read_min_duration (st W) in
     if duration_seconds < min_dur then Inl (Err StreamDurationTooShort)
     else
     bindE (div_i128 amount (int duration_seconds)) (\<lambda>flow_rate.
     if flow_rate = 0 then Inl (Err ZeroFlowRate)
     else let sender_count = get_sender_stream_count (st W) sender;
              limit = effective_sender_limit (st W) sender in
     if sender_count \<ge> limit then Inl (Err SenderStreamLimitExceeded)
     else let W1 = in_store (mark_nonce_used sender nonce) W;
              now = ledger_timestamp env in
     bindE (ok_or Overflow (checked_add_u64 now duration_seconds)) (\<lambda>end_time.
     if end_time \<le> now then Inl (Err InvalidEndTime)
     else
     bindE (ok_or Overflow (checked_add_u64 now cliff_seconds)) (\<lambda>cliff_time.
     let stream_id = derive_stream_id env sender recipient now nonce in
     if stream_exists stream_id (st W1) then Inl (Err StreamIdConflict)
     else
     bindE (collect_creation_fee env sender W1) (\<lambda>W2.
     bindE (transfer env token sender (current_contract env) amount W2) (\<lambda>W3.
     let stream = \<lparr>s_id = stream_id, s_sender = sender, s_recipient = recipient,
                   s_token = token, s_deposit = amount, s_flow_rate = flow_rate,
                   s_start_time = now, s_cliff_time = cliff_time, s_lock_until = lock_until,
                   s_end_time = end_time, s_last_withdraw_time = now, s_status = Active,
                   s_auto_renew = auto_renew,
                   s_allow_recipient_termination = allow_recipient_termination,
                   s_last_pause_time = 0, s_total_withdrawn = 0, s_metadata = metadata\<rparr> in
     bindE (register_stream stream (st W3)) (\<lambda>s.
       let W4 = W3\<lparr>st := s\<rparr> in
       Inr (stream_id, publish (ev_stream_created stream_id sender recipient amount flow_rate
              end_time) W4)))))))))"

section \<open>Facts about the shared steps\<close>

lemma find_stream_Inr [outcome]:
  "find_stream W k = Inr x \<longleftrightarrow> p_streams (st W) k = Some x"
  by (simp add: find_stream_def load_stream_def outcome)

lemma pay_if_positive_Inr [outcome]:
  "pay_if_positive env token t a W = Inr W' \<longleftrightarrow>
     (if a > 0 then (\<exists>w. token_transfer env token (current_contract env) t a (ext W) = Some w \<and>
                        W' = W\<lparr>ext := w\<rparr>)
      else W' = W)"
  by (auto simp: pay_if_positive_def outcome)

lemma unindex_by_sender_streams [simp]:
  "p_streams (unindex_by_sender a x s) = p_streams s"
  by (auto simp: unindex_by_sender_def Let_def split: option.splits)

lemma unindex_by_recipient_streams [simp]:
  "p_streams (unindex_by_recipient a x s) = p_streams s"
  by (auto simp: unindex_by_recipient_def Let_def split: option.splits)

lemma close_stream_streams [simp]:
  "p_streams (close_stream k x s) = (p_streams s)(k := None)"
  by (simp add: close_stream_def remove_stream_def)

lemma register_stream_streams:
  "register_stream x s = Inr s' \<Longrightarrow> p_streams s' = (p_streams s)(s_id x \<mapsto> x)"
  by (auto simp: register_stream_def outcome save_stream_def)

end
