(* ===== verification/Withdraw.thy ===== *)
theory Withdraw
  imports Create_Stream
begin

text \<open>
  Withdrawing what a stream has earned: \<open>withdraw\<close>, split where the code splits into paying the
  claim (with the protocol fee), and finishing a stream whose end has passed (completion with
  the dust returned, auto-renewal, or failed auto-renewal).
\<close>

text \<open>
  The protocol fee on a claim, and the two transfers: the recipient's part and, when a treasury
  is set, the fee. The same code stands in \<open>withdraw\<close> and \<open>transfer_recipient\<close>.
\<close>

definition fee_on_claim :: "storage \<Rightarrow> address \<Rightarrow> int \<Rightarrow> (stream_error, int) outcome" where
  "fee_on_claim s recipient claimable =
     (let fee_bps = get_protocol_fee s
      in if fee_bps > 0 \<and> \<not> storage_is_fee_exempt s recipient
         then bindE (ok_or Overflow (checked_mul_i128 claimable (int fee_bps))) (\<lambda>x.
                div_i128 x 10000)
         else Inr 0)"

definition pay_claim ::
    "'w env \<Rightarrow> nat \<Rightarrow> stream \<Rightarrow> address \<Rightarrow> int \<Rightarrow> 'w world \<Rightarrow>
     (stream_error, int \<times> 'w world) outcome" where
  "pay_claim env stream_id stream payee claimable W =
     bindE (fee_on_claim (st W) (s_recipient stream) claimable) (\<lambda>fee_amount.
     bindE (sub_i128 claimable fee_amount) (\<lambda>recipient_amount.
     bindE (pay_if_positive env (s_token stream) payee recipient_amount W) (\<lambda>W1.
       if fee_amount > 0 then
         (case get_treasury (st W1) of
            Some treasury \<Rightarrow>
              bindE (transfer env (s_token stream) (current_contract env) treasury fee_amount W1)
                (\<lambda>W2. Inr (recipient_amount,
                           publish (ev_fee_collected stream_id fee_amount treasury) W2))
          | None \<Rightarrow> Inr (recipient_amount, W1))
       else Inr (recipient_amount, W1))))"

definition withdraw_payout ::
    "'w env \<Rightarrow> nat \<Rightarrow> address \<Rightarrow> stream \<Rightarrow> int \<Rightarrow> 'w world \<Rightarrow>
     (stream_error, stream \<times> 'w world) outcome" where
  "withdraw_payout env stream_id recipient stream claimable W =
     bindE (ok_or Overflow (checked_add_i128 (s_total_withdrawn stream) claimable)) (\<lambda>total.
     if total > s_deposit stream then Inl (Err Overflow)
     else
     bindE (pay_claim env stream_id stream recipient claimable W) (\<lambda>(recipient_amount, W1).
     bindE (ok_or Overflow (checked_add_i128 (s_total_withdrawn stream) claimable)) (\<lambda>total.
       let stream1 = stream\<lparr>s_total_withdrawn := total\<rparr>;
           W2 = try_invoke env recipient ''on_stream_withdraw''
                  [VU64 stream_id, VI128 recipient_amount] W1
       in Inr (stream1, W2))))"

text \<open>Creation-time dust: what the floored rate never streams.\<close>

definition dust_of :: "stream \<Rightarrow> nat \<Rightarrow> int" where
  "dust_of stream duration =
     saturating_sub_i128 (s_deposit stream)
       (saturating_mul_i128 (s_flow_rate stream) (int duration))"

text \<open>Re-locking the deposit for another cycle (the same steps in \<open>batch_withdraw\<close>).\<close>

definition renew_stream ::
    "'w env \<Rightarrow> stream \<Rightarrow> nat \<Rightarrow> 'w world \<Rightarrow> (stream_error, 'w world) outcome" where
  "renew_stream env stream duration W =
     bindE (require_auth env (s_sender stream)) (\<lambda>_.
     bindE (transfer env (s_token stream) (s_sender stream) (current_contract env)
              (s_deposit stream) W) (\<lambda>W1.
     bindE (ok_or Overflow (checked_add_u64 (s_end_time stream) duration)) (\<lambda>new_end.
       let stream1 = stream\<lparr>s_start_time := s_end_time stream, s_end_time := new_end,
                            s_last_withdraw_time := s_end_time stream, s_total_withdrawn := 0\<rparr>
       in Inr (in_store (save_stream stream1) W1))))"

definition withdraw_finish ::
    "'w env \<Rightarrow> nat \<Rightarrow> stream \<Rightarrow> 'w world \<Rightarrow> (stream_error, 'w world) outcome" where
  "withdraw_finish env stream_id stream W =
     bindE (sub_u64 (s_end_time stream) (s_start_time stream)) (\<lambda>duration.
     let dust = dust_of stream duration in
     if s_auto_renew stream then
       let sender_balance = token_balance env (s_token stream) (s_sender stream) (ext W) in
       if sender_balance < s_deposit stream then
         let W1 = publish (ev_auto_renew_failed stream_id (s_sender stream)
                             (s_deposit stream)) W in
         bindE (pay_if_positive env (s_token stream) (s_sender stream) dust W1) (\<lambda>W2.
           let stream1 = stream\<lparr>s_status := Completed\<rparr>;
               W3 = publish (ev_stream_completed stream_id) W2
           in Inr (in_store (save_stream stream1) W3))
       else
         bindE (sub_u64 (s_end_time stream) (s_start_time stream)) (\<lambda>duration.
           renew_stream env stream duration W)
     else
       bindE (pay_if_positive env (s_token stream) (s_sender stream) dust W) (\<lambda>W1.
         let W2 = publish (ev_stream_completed stream_id) W1
         in Inr (in_store (close_stream stream_id stream) W2)))"

definition withdraw :: "'w env \<Rightarrow> nat \<Rightarrow> address \<Rightarrow> 'w world \<Rightarrow> ('w, unit) response" where
  "withdraw env stream_id recipient W0 =
     bindE (when_not_paused env W0) (\<lambda>W.
     bindE (require_auth env recipient) (\<lambda>_.
     bindE (find_stream W stream_id) (\<lambda>stream.
     if s_recipient stream \<noteq> recipient then Inl (Err NotRecipient)
     else if s_status stream \<noteq> Active then Inl (Err StreamNotActive)
     else let now = ledger_timestamp env in
     if now < s_lock_until stream then Inl (Err StreamLocked)
     else let cooldown = get_withdrawal_cooldown (st W) in
     if cooldown > 0 \<and> now < saturating_add_u64 (s_last_withdraw_time stream) cooldown
       then Inl (Err WithdrawalCooldownActive)
     else let effective_now = min now (s_end_time stream) in
     bindE (ok_or Overflow (compute_claimable (s_flow_rate stream) now (s_cliff_time stream)
              (s_end_time stream) (s_last_withdraw_time stream))) (\<lambda>claimable.
     bindE (if claimable > 0
            then withdraw_payout env stream_id recipient stream claimable W
            else Inr (stream, W)) (\<lambda>(stream1, W1).
     let stream2 = stream1\<lparr>s_last_withdraw_time := effective_now\<rparr> in
     bindE (if now \<ge> s_end_time stream2
            then withdraw_finish env stream_id stream2 W1
            else Inr (in_store (save_stream stream2) W1)) (\<lambda>W2.
       Inr ((), publish (ev_stream_withdrawn stream_id recipient claimable now) W2)))))))"

end
