(* ===== verification/Cancel.thy ===== *)
theory Cancel
  imports Withdraw
begin

text \<open>
  Ending a stream early: \<open>cancel_stream\<close> by the sender or a delegate, \<open>recipient_terminate\<close> by
  the recipient, \<open>partial_cancel_stream\<close>, which reclaims part of the remainder and continues
  with a new stream, and \<open>archive_stream\<close>, which deletes a settled stream.
\<close>

text \<open>
  Who may manage a stream: its sender or the delegate registered for it.
\<close>

definition may_manage :: "'w world \<Rightarrow> nat \<Rightarrow> stream \<Rightarrow> address \<Rightarrow> bool" where
  "may_manage W stream_id stream caller \<longleftrightarrow>
     s_sender stream = caller \<or> Some caller = get_delegate (st W) stream_id"

definition refund_of :: "stream \<Rightarrow> int \<Rightarrow> int" where
  "refund_of stream recipient_amount =
     saturating_sub_i128 (saturating_sub_i128 (s_deposit stream) (s_total_withdrawn stream))
       recipient_amount"

definition cancel_stream :: "'w env \<Rightarrow> nat \<Rightarrow> address \<Rightarrow> 'w world \<Rightarrow> ('w, unit) response" where
  "cancel_stream env stream_id caller W =
     bindE (require_auth env caller) (\<lambda>_.
     bindE (find_stream W stream_id) (\<lambda>stream.
     if \<not> may_manage W stream_id stream caller then Inl (Err NotAuthorized)
     else if \<not> live stream then Inl (Err StreamNotActive)
     else let now = stream_now env stream in
     bindE (ok_or Overflow (compute_earned (s_flow_rate stream) now (s_end_time stream)
              (s_last_withdraw_time stream))) (\<lambda>recipient_amount.
     let refund_amount = refund_of stream recipient_amount in
     bindE (pay_if_positive env (s_token stream) (s_recipient stream) recipient_amount W) (\<lambda>W1.
     bindE (pay_if_positive env (s_token stream) (s_sender stream) refund_amount W1) (\<lambda>W2.
       let W3 = in_store (close_stream stream_id stream) W2
       in Inr ((), publish (ev_stream_cancelled stream_id (s_sender stream) refund_amount
                              recipient_amount) W3))))))"

definition recipient_terminate ::
    "'w env \<Rightarrow> nat \<Rightarrow> address \<Rightarrow> 'w world \<Rightarrow> ('w, unit) response" where
  "recipient_terminate env stream_id recipient W0 =
     bindE (when_not_paused env W0) (\<lambda>W.
     bindE (require_auth env recipient) (\<lambda>_.
     bindE (find_stream W stream_id) (\<lambda>stream.
     if s_recipient stream \<noteq> recipient then Inl (Err NotRecipient)
     else if \<not> s_allow_recipient_termination stream then Inl (Err NotAuthorized)
     else if \<not> live stream then Inl (Err StreamNotActive)
     else let now = stream_now env stream in
     bindE (ok_or Overflow (compute_claimable (s_flow_rate stream) now (s_cliff_time stream)
              (s_end_time stream) (s_last_withdraw_time stream))) (\<lambda>recipient_amount.
     let refund_amount = refund_of stream recipient_amount in
     bindE (pay_if_positive env (s_token stream) recipient recipient_amount W) (\<lambda>W1.
     bindE (pay_if_positive env (s_token stream) (s_sender stream) refund_amount W1) (\<lambda>W2.
       let W3 = in_store (close_stream stream_id stream) W2
       in Inr ((), publish (ev_stream_terminated_by_recipient stream_id recipient
                              recipient_amount refund_amount) W3)))))))"

definition checked_flow_amount :: "int \<Rightarrow> nat \<Rightarrow> (stream_error, int) outcome" where
  "checked_flow_amount flow_rate elapsed =
     ok_or Overflow (checked_mul_i128 flow_rate (int elapsed))"

definition partial_cancel_stream ::
    "'w env \<Rightarrow> nat \<Rightarrow> address \<Rightarrow> int \<Rightarrow> 'w world \<Rightarrow> ('w, nat) response" where
  "partial_cancel_stream env stream_id caller cancel_amount W =
     bindE (require_auth env caller) (\<lambda>_.
     bindE (find_stream W stream_id) (\<lambda>stream.
     if \<not> may_manage W stream_id stream caller then Inl (Err NotAuthorized)
     else if \<not> live stream then Inl (Err StreamNotActive)
     else if cancel_amount \<le> 0 then Inl (Err ZeroAmount)
     else let now = stream_now env stream;
              elapsed_since_withdraw = saturating_sub_u64 now (s_last_withdraw_time stream) in
     bindE (checked_flow_amount (s_flow_rate stream) elapsed_since_withdraw) (\<lambda>earned.
     let elapsed_since_start = saturating_sub_u64 now (s_start_time stream) in
     bindE (checked_flow_amount (s_flow_rate stream) elapsed_since_start) (\<lambda>total_streamed.
     let remaining = saturating_sub_i128 (s_deposit stream) total_streamed in
     if cancel_amount \<ge> remaining then Inl (Err InvalidPartialCancel)
     else
     bindE (sub_i128 remaining cancel_amount) (\<lambda>left.
     if left < s_flow_rate stream then Inl (Err InvalidPartialCancel)
     else
     bindE (sub_i128 remaining cancel_amount) (\<lambda>new_deposit.
     bindE (div_i128 new_deposit (s_flow_rate stream)) (\<lambda>new_duration_i128.
     bindE (ok_or Overflow (u64_try_from_i128 new_duration_i128)) (\<lambda>new_duration.
     bindE (ok_or Overflow (checked_add_u64 now new_duration)) (\<lambda>new_end_time.
     bindE (pay_if_positive env (s_token stream) (s_recipient stream) earned W) (\<lambda>W1.
     bindE (transfer env (s_token stream) (current_contract env) (s_sender stream)
              cancel_amount W1) (\<lambda>W2.
     let stream1 = stream\<lparr>s_status := Cancelled\<rparr>;
         W3 = in_store (save_stream stream1) W2;
         W4 = publish (ev_stream_cancelled stream_id (s_sender stream) cancel_amount earned) W3;
         new_nonce = stream_id;
         new_stream_id = derive_stream_id env (s_sender stream) (s_recipient stream) now new_nonce;
         new_stream = \<lparr>s_id = new_stream_id, s_sender = s_sender stream,
                       s_recipient = s_recipient stream, s_token = s_token stream,
                       s_deposit = new_deposit, s_flow_rate = s_flow_rate stream,
                       s_start_time = now, s_cliff_time = now, s_lock_until = now,
                       s_end_time = new_end_time, s_last_withdraw_time = now,
                       s_status = Active, s_auto_renew = s_auto_renew stream,
                       s_allow_recipient_termination = s_allow_recipient_termination stream,
                       s_last_pause_time = 0, s_total_withdrawn = 0,
                       s_metadata = s_metadata stream\<rparr> in
     bindE (register_stream new_stream (st W4)) (\<lambda>s.
       let W5 = W4\<lparr>st := s\<rparr>
       in Inr (new_stream_id,
               publish (ev_stream_partial_cancelled stream_id new_stream_id (s_sender stream)
                          cancel_amount new_deposit) W5)))))))))))))"

definition archive_stream :: "'w env \<Rightarrow> nat \<Rightarrow> address \<Rightarrow> 'w world \<Rightarrow> ('w, unit) response" where
  "archive_stream env stream_id caller W =
     bindE (require_auth env caller) (\<lambda>_.
     bindE (find_stream W stream_id) (\<lambda>stream.
     if s_sender stream \<noteq> caller \<and> s_recipient stream \<noteq> caller then Inl (Err NotAuthorized)
     else let duration = saturating_sub_u64 (s_end_time stream) (s_start_time stream);
              dust = dust_of stream duration in
     if saturating_add_i128 (s_total_withdrawn stream) dust < s_deposit stream
       then Inl (Err StreamNotSettled)
     else let W1 = in_store (close_stream stream_id stream) W;
              W2 = (if get_delegate (st W1) stream_id \<noteq> None
                    then in_store (remove_delegate stream_id) W1 else W1)
          in Inr ((), publish (ev_stream_archived stream_id (s_sender stream)
                                 (s_recipient stream) (s_deposit stream)) W2)))"

end
