(* ===== verification/Manage.thy ===== *)
theory Manage
  imports Cancel
begin

text \<open>
  Managing a running stream: \<open>transfer_recipient\<close>, \<open>top_up\<close>, \<open>pause_stream\<close>,
  \<open>resume_stream\<close>, delegation, metadata and the auto-renew switch.
\<close>

text \<open>
  Before the recipient changes, what is claimable is paid to the current one, unless the stream
  is still locked or before its cliff.
\<close>

definition settle_before_transfer ::
    "'w env \<Rightarrow> nat \<Rightarrow> address \<Rightarrow> stream \<Rightarrow> nat \<Rightarrow> 'w world \<Rightarrow>
     (stream_error, stream \<times> 'w world) outcome" where
  "settle_before_transfer env stream_id current_recipient stream now W =
     (if now \<ge> s_lock_until stream \<and> now \<ge> s_cliff_time stream then
        let effective_now = min now (s_end_time stream) in
        bindE (ok_or Overflow (compute_claimable (s_flow_rate stream) now
                 (s_cliff_time stream) (s_end_time stream)
                 (s_last_withdraw_time stream))) (\<lambda>claimable.
          if claimable > 0 then
            bindE (pay_claim env stream_id stream current_recipient claimable W)
              (\<lambda>(recipient_amount, W1).
            bindE (ok_or Overflow
                     (checked_add_i128 (s_total_withdrawn stream) claimable)) (\<lambda>total.
              let stream1 = stream\<lparr>s_total_withdrawn := total,
                                   s_last_withdraw_time := effective_now\<rparr>
              in Inr (stream1, publish (ev_stream_withdrawn stream_id current_recipient
                                          claimable now) W1)))
          else Inr (stream, W))
      else Inr (stream, W))"

definition transfer_recipient ::
    "'w env \<Rightarrow> nat \<Rightarrow> address \<Rightarrow> address \<Rightarrow> 'w world \<Rightarrow> ('w, unit) response" where
  "transfer_recipient env stream_id current_recipient new_recipient W0 =
     bindE (when_not_paused env W0) (\<lambda>W.
     bindE (require_auth env current_recipient) (\<lambda>_.
     bindE (find_stream W stream_id) (\<lambda>stream.
     if s_recipient stream \<noteq> current_recipient then Inl (Err NotRecipient)
     else if \<not> live stream then Inl (Err StreamNotActive)
     else let now = stream_now env stream in
     bindE (settle_before_transfer env stream_id current_recipient stream now W) (\<lambda>(stream1, W1).
     let old_recipient = s_recipient stream1;
         stream2 = stream1\<lparr>s_recipient := new_recipient\<rparr>;
         W2 = in_store (save_stream stream2) W1;
         W3 = in_store (unindex_by_recipient old_recipient stream_id) W2 in
     bindE (index_by_recipient new_recipient stream_id (st W3)) (\<lambda>s.
       let W4 = W3\<lparr>st := s\<rparr>
       in Inr ((), publish (ev_recipient_transferred stream_id old_recipient new_recipient)
                     W4))))))"

definition top_up ::
    "'w env \<Rightarrow> nat \<Rightarrow> address \<Rightarrow> address \<Rightarrow> int \<Rightarrow> 'w world \<Rightarrow> ('w, unit) response" where
  "top_up env stream_id caller token amount W0 =
     bindE (when_not_paused env W0) (\<lambda>W.
     bindE (require_auth env caller) (\<lambda>_.
     bindE (find_stream W stream_id) (\<lambda>stream.
     if \<not> may_manage W stream_id stream caller then Inl (Err NotAuthorized)
     else if s_token stream \<noteq> token then Inl (Err TokenMismatch)
     else if \<not> live stream then Inl (Err StreamNotActive)
     else if amount \<le> 0 then Inl (Err ZeroAmount)
     else
     bindE (rem_i128 amount (s_flow_rate stream)) (\<lambda>r.
     bindE (sub_i128 amount r) (\<lambda>effective_amount.
     if effective_amount \<le> 0 then Inl (Err ZeroAmount)
     else
     bindE (transfer env (s_token stream) caller (current_contract env) effective_amount W) (\<lambda>W1.
     bindE (div_i128 effective_amount (s_flow_rate stream)) (\<lambda>extra_seconds_i128.
     bindE (ok_or Overflow (u64_try_from_i128 extra_seconds_i128)) (\<lambda>extra_seconds.
     bindE (ok_or Overflow (checked_add_u64 (s_end_time stream) extra_seconds)) (\<lambda>end_time.
     bindE (ok_or Overflow (checked_add_i128 (s_deposit stream) effective_amount)) (\<lambda>deposit.
       let stream1 = stream\<lparr>s_end_time := end_time, s_deposit := deposit\<rparr>;
           W2 = in_store (save_stream stream1) W1
       in Inr ((), publish (ev_stream_topped_up stream_id effective_amount end_time)
                     W2)))))))))))"

definition delegate ::
    "'w env \<Rightarrow> address \<Rightarrow> nat \<Rightarrow> address \<Rightarrow> 'w world \<Rightarrow> ('w, unit) response" where
  "delegate env sender stream_id operator W =
     bindE (require_auth env sender) (\<lambda>_.
     bindE (find_stream W stream_id) (\<lambda>stream.
     if s_sender stream \<noteq> sender then Inl (Err NotSender)
     else Inr ((), in_store (set_delegate stream_id operator) W)))"

definition revoke_delegate :: "'w env \<Rightarrow> address \<Rightarrow> nat \<Rightarrow> 'w world \<Rightarrow> ('w, unit) response" where
  "revoke_delegate env sender stream_id W =
     bindE (require_auth env sender) (\<lambda>_.
     bindE (find_stream W stream_id) (\<lambda>stream.
     if s_sender stream \<noteq> sender then Inl (Err NotSender)
     else Inr ((), in_store (remove_delegate stream_id) W)))"

definition update_metadata ::
    "'w env \<Rightarrow> address \<Rightarrow> nat \<Rightarrow> bytes \<Rightarrow> 'w world \<Rightarrow> ('w, unit) response" where
  "update_metadata env sender stream_id metadata W =
     bindE (require_auth env sender) (\<lambda>_.
     bindE (find_stream W stream_id) (\<lambda>stream.
     if s_sender stream \<noteq> sender then Inl (Err NotSender)
     else if length metadata > 64 then Inl (Err MetadataTooLong)
     else let stream1 = stream\<lparr>s_metadata := metadata\<rparr>;
              W1 = in_store (save_stream stream1) W
          in Inr ((), publish (ev_metadata_updated stream_id metadata) W1)))"

definition cancel_auto_renew ::
    "'w env \<Rightarrow> address \<Rightarrow> nat \<Rightarrow> 'w world \<Rightarrow> ('w, unit) response" where
  "cancel_auto_renew env sender stream_id W =
     bindE (require_auth env sender) (\<lambda>_.
     bindE (find_stream W stream_id) (\<lambda>stream.
     if s_sender stream \<noteq> sender then Inl (Err NotSender)
     else let stream1 = stream\<lparr>s_auto_renew := False\<rparr>;
              W1 = in_store (save_stream stream1) W
          in Inr ((), publish (ev_auto_renew_cancelled stream_id) W1)))"

definition pause_stream :: "'w env \<Rightarrow> nat \<Rightarrow> address \<Rightarrow> 'w world \<Rightarrow> ('w, unit) response" where
  "pause_stream env stream_id sender W0 =
     bindE (when_not_paused env W0) (\<lambda>W.
     bindE (require_auth env sender) (\<lambda>_.
     bindE (find_stream W stream_id) (\<lambda>stream.
     if s_sender stream \<noteq> sender then Inl (Err NotSender)
     else if s_status stream \<noteq> Active then Inl (Err StreamNotActive)
     else let stream1 = stream\<lparr>s_status := Paused,
                               s_last_pause_time := ledger_timestamp env\<rparr>;
              W1 = in_store (save_stream stream1) W
          in Inr ((), publish (ev_stream_paused stream_id sender) W1))))"

definition resume_stream :: "'w env \<Rightarrow> nat \<Rightarrow> address \<Rightarrow> 'w world \<Rightarrow> ('w, unit) response" where
  "resume_stream env stream_id sender W0 =
     bindE (when_not_paused env W0) (\<lambda>W.
     bindE (require_auth env sender) (\<lambda>_.
     bindE (find_stream W stream_id) (\<lambda>stream.
     if s_sender stream \<noteq> sender then Inl (Err NotSender)
     else if s_status stream \<noteq> Paused then Inl (Err StreamNotPaused)
     else let now = ledger_timestamp env;
              paused_duration = saturating_sub_u64 now (s_last_pause_time stream);
              shift = (\<lambda>t. unwrap_or u64_max (checked_add_u64 t paused_duration));
              stream1 = stream\<lparr>s_end_time := shift (s_end_time stream),
                               s_cliff_time := shift (s_cliff_time stream),
                               s_start_time := shift (s_start_time stream),
                               s_last_withdraw_time := shift (s_last_withdraw_time stream),
                               s_lock_until := shift (s_lock_until stream),
                               s_status := Active, s_last_pause_time := 0\<rparr>;
              W1 = in_store (save_stream stream1) W
          in Inr ((), publish (ev_stream_resumed stream_id sender) W1))))"

end
