(* ===== verification/Batch.thy ===== *)
theory Batch
  imports Manage
begin

text \<open>
  The batch instructions. Each \<open>for\<close> loop is a recursion over the remaining list: the
  pre-pass of \<open>batch_create_stream\<close> that derives and checks all ids before anything is written,
  its second loop, the loop of \<open>batch_withdraw\<close>, and the loop of \<open>batch_cancel_stream\<close>, which
  collects the result of each stream where the closure returns early.
\<close>

section \<open>batch\_create\_stream\<close>

text \<open>
  \<open>for i in 0..n\<close> of the pre-pass: \<open>i\<close> is the position, \<open>batch_ids\<close> the ids found so far.
\<close>

fun batch_prepass ::
    "'w env \<Rightarrow> storage \<Rightarrow> address \<Rightarrow> nat \<Rightarrow> nat \<Rightarrow> nat \<Rightarrow> (address \<times> int) list \<Rightarrow> nat list \<Rightarrow>
     (stream_error, nat list) outcome" where
  "batch_prepass env s sender now duration_seconds i [] batch_ids = Inr batch_ids"
| "batch_prepass env s sender now duration_seconds i ((recipient, amount) # rest) batch_ids =
     (if amount \<le> 0 then Inl (Err ZeroAmount)
      else bindE (div_i128 amount (int duration_seconds)) (\<lambda>flow_rate.
        if flow_rate = 0 then Inl (Err ZeroFlowRate)
        else let stream_id = derive_stream_id env sender recipient now i in
          if stream_exists stream_id s then Inl (Err DuplicateStreamId)
          else if stream_id \<in> set batch_ids then Inl (Err DuplicateStreamId)
          else batch_prepass env s sender now duration_seconds (i + 1) rest
                 (batch_ids @ [stream_id])))"

text \<open>
  The second loop: each item is \<open>((id, recipient, amount), (token, lock_until))\<close>.
\<close>

fun batch_create_loop ::
    "'w env \<Rightarrow> address \<Rightarrow> nat \<Rightarrow> nat \<Rightarrow> nat \<Rightarrow> bool \<Rightarrow>
     ((nat \<times> address \<times> int) \<times> (address \<times> nat)) list \<Rightarrow> nat list \<Rightarrow> 'w world \<Rightarrow>
     ('w, nat list) response" where
  "batch_create_loop env sender now end_time duration_seconds auto_renew [] stream_ids W =
     Inr (stream_ids, W)"
| "batch_create_loop env sender now end_time duration_seconds auto_renew
     (((stream_id, recipient, amount), (token, lock_until)) # rest) stream_ids W =
     bindE (div_i128 amount (int duration_seconds)) (\<lambda>flow_rate.
     bindE (transfer env token sender (current_contract env) amount W) (\<lambda>W1.
     let stream = \<lparr>s_id = stream_id, s_sender = sender, s_recipient = recipient,
                   s_token = token, s_deposit = amount, s_flow_rate = flow_rate,
                   s_start_time = now, s_cliff_time = now, s_lock_until = lock_until,
                   s_end_time = end_time, s_last_withdraw_time = now, s_status = Active,
                   s_auto_renew = auto_renew, s_allow_recipient_termination = False,
                   s_last_pause_time = 0, s_total_withdrawn = 0, s_metadata = []\<rparr> in
     bindE (register_stream stream (st W1)) (\<lambda>s.
       let W2 = publish (ev_stream_created stream_id sender recipient amount flow_rate end_time)
                  (W1\<lparr>st := s\<rparr>)
       in batch_create_loop env sender now end_time duration_seconds auto_renew rest
            (stream_ids @ [stream_id]) W2)))"

definition batch_create_stream ::
    "'w env \<Rightarrow> address \<Rightarrow> address list \<Rightarrow> int list \<Rightarrow> address list \<Rightarrow> nat \<Rightarrow> bool \<Rightarrow> nat list \<Rightarrow>
     nat \<Rightarrow> 'w world \<Rightarrow> ('w, nat list) response" where
  "batch_create_stream env sender recipients amounts tokens duration_seconds auto_renew
     lock_untils nonce W0 =
     bindE (when_not_paused env W0) (\<lambda>W.
     bindE (require_auth env sender) (\<lambda>_.
     let expected_nonce = get_batch_nonce (st W) sender in
     if nonce \<noteq> expected_nonce then Inl (Err InvalidNonce)
     else
     bindE (increment_batch_nonce sender (st W)) (\<lambda>s.
     let W1 = W\<lparr>st := s\<rparr> in
     if length recipients \<noteq> length amounts \<or> length recipients \<noteq> length lock_untils
        \<or> length recipients \<noteq> length tokens then Inl (Err BatchLengthMismatch)
     else let now = ledger_timestamp env in
     bindE (ok_or Overflow (checked_add_u64 now duration_seconds)) (\<lambda>end_time.
     if end_time \<le> now then Inl (Err InvalidDuration)
     else let sender_count = get_sender_stream_count (st W1) sender;
              limit = effective_sender_limit (st W1) sender in
     bindE (add_u32 sender_count (length recipients)) (\<lambda>new_count.
     if new_count > limit then Inl (Err SenderStreamLimitExceeded)
     else
     bindE (batch_prepass env (st W1) sender now duration_seconds 0 (zip recipients amounts) [])
       (\<lambda>batch_ids.
         batch_create_loop env sender now end_time duration_seconds auto_renew
           (zip (zip batch_ids (zip recipients amounts)) (zip tokens lock_untils)) [] W1))))))"

section \<open>batch\_withdraw\<close>

text \<open>
  The claim is paid like in \<open>withdraw\<close>, but the fee is also announced to the treasury
  contract, and no fee event is published.
\<close>

definition pay_claim_batch ::
    "'w env \<Rightarrow> stream \<Rightarrow> address \<Rightarrow> int \<Rightarrow> 'w world \<Rightarrow> (stream_error, 'w world) outcome" where
  "pay_claim_batch env stream recipient claimable W =
     bindE (fee_on_claim (st W) (s_recipient stream) claimable) (\<lambda>fee_amount.
     bindE (sub_i128 claimable fee_amount) (\<lambda>recipient_amount.
     bindE (pay_if_positive env (s_token stream) recipient recipient_amount W) (\<lambda>W1.
       if fee_amount > 0 then
         (case get_treasury (st W1) of
            Some treasury \<Rightarrow>
              bindE (transfer env (s_token stream) (current_contract env) treasury fee_amount W1)
                (\<lambda>W2. Inr (try_invoke env treasury ''deposit''
                             [VAddr (s_token stream), VI128 fee_amount] W2))
          | None \<Rightarrow> Inr W1)
       else Inr W1)))"

definition batch_withdraw_finish ::
    "'w env \<Rightarrow> nat \<Rightarrow> stream \<Rightarrow> 'w world \<Rightarrow> (stream_error, 'w world) outcome" where
  "batch_withdraw_finish env stream_id stream W =
     bindE (sub_u64 (s_end_time stream) (s_start_time stream)) (\<lambda>duration.
     let dust = dust_of stream duration in
     if s_auto_renew stream then renew_stream env stream duration W
     else
       bindE (pay_if_positive env (s_token stream) (s_sender stream) dust W) (\<lambda>W1.
         let W2 = publish (ev_stream_completed stream_id) W1
         in Inr (in_store (close_stream stream_id stream) W2)))"

definition batch_withdraw_one ::
    "'w env \<Rightarrow> nat \<Rightarrow> address \<Rightarrow> 'w world \<Rightarrow> ('w, int) response" where
  "batch_withdraw_one env stream_id recipient W =
     bindE (find_stream W stream_id) (\<lambda>stream.
     if s_recipient stream \<noteq> recipient then Inl (Err NotRecipient)
     else if s_status stream \<noteq> Active then Inl (Err StreamNotActive)
     else let now = ledger_timestamp env in
     if now < s_lock_until stream then Inl (Err StreamLocked)
     else let effective_now = min now (s_end_time stream) in
     bindE (ok_or Overflow (compute_earned (s_flow_rate stream) now (s_end_time stream)
              (s_last_withdraw_time stream))) (\<lambda>claimable.
     bindE (if claimable > 0 then
              bindE (ok_or Overflow (checked_add_i128 (s_total_withdrawn stream) claimable))
                (\<lambda>total.
              if total > s_deposit stream then Inl (Err Overflow)
              else bindE (pay_claim_batch env stream recipient claimable W) (\<lambda>W1.
                bindE (ok_or Overflow
                         (checked_add_i128 (s_total_withdrawn stream) claimable)) (\<lambda>total.
                  Inr (stream\<lparr>s_total_withdrawn := total\<rparr>, W1))))
            else Inr (stream, W)) (\<lambda>(stream1, W1).
     let stream2 = stream1\<lparr>s_last_withdraw_time := effective_now\<rparr> in
     bindE (if now \<ge> s_end_time stream2
            then batch_withdraw_finish env stream_id stream2 W1
            else Inr (in_store (save_stream stream2) W1)) (\<lambda>W2.
       Inr (claimable, publish (ev_stream_withdrawn stream_id recipient claimable now) W2)))))"

fun batch_withdraw_loop ::
    "'w env \<Rightarrow> nat list \<Rightarrow> address \<Rightarrow> int list \<Rightarrow> 'w world \<Rightarrow> ('w, int list) response" where
  "batch_withdraw_loop env [] recipient amounts W = Inr (amounts, W)"
| "batch_withdraw_loop env (stream_id # rest) recipient amounts W =
     bindE (batch_withdraw_one env stream_id recipient W) (\<lambda>(claimable, W1).
       batch_withdraw_loop env rest recipient (amounts @ [claimable]) W1)"

definition batch_withdraw ::
    "'w env \<Rightarrow> nat list \<Rightarrow> address \<Rightarrow> 'w world \<Rightarrow> ('w, int list) response" where
  "batch_withdraw env stream_ids recipient W0 =
     bindE (when_not_paused env W0) (\<lambda>W.
     bindE (require_auth env recipient) (\<lambda>_.
       batch_withdraw_loop env stream_ids recipient [] W))"

section \<open>batch\_cancel\_stream\<close>

text \<open>The closure run for each id.\<close>

definition batch_cancel_one ::
    "'w env \<Rightarrow> nat \<Rightarrow> address \<Rightarrow> 'w world \<Rightarrow> ('w, unit) response" where
  "batch_cancel_one env stream_id sender W =
     bindE (find_stream W stream_id) (\<lambda>stream.
     if s_sender stream \<noteq> sender then Inl (Err NotSender)
     else if \<not> live stream then Inl (Err StreamNotActive)
     else let now = ledger_timestamp env in
     bindE (ok_or Overflow (compute_earned (s_flow_rate stream) now (s_end_time stream)
              (s_last_withdraw_time stream))) (\<lambda>recipient_amount.
     let refund_amount = refund_of stream recipient_amount in
     bindE (pay_if_positive env (s_token stream) (s_recipient stream) recipient_amount W) (\<lambda>W1.
     bindE (pay_if_positive env (s_token stream) (s_sender stream) refund_amount W1) (\<lambda>W2.
       let W3 = in_store (close_stream stream_id stream) W2
       in Inr ((), publish (ev_stream_cancelled stream_id (s_sender stream) refund_amount
                              recipient_amount) W3)))))"

text \<open>
  An error the closure returns is pushed to the results and the loop goes on; every error is
  returned before the closure writes. A panic aborts the whole invocation.
\<close>

fun batch_cancel_loop ::
    "'w env \<Rightarrow> nat list \<Rightarrow> address \<Rightarrow> (stream_error + unit) list \<Rightarrow> 'w world \<Rightarrow>
     ('w, (stream_error + unit) list) response" where
  "batch_cancel_loop env [] sender results W = Inr (results, W)"
| "batch_cancel_loop env (stream_id # rest) sender results W =
     (case batch_cancel_one env stream_id sender W of
        Inr (_, W1) \<Rightarrow> batch_cancel_loop env rest sender (results @ [Inr ()]) W1
      | Inl (Err e) \<Rightarrow> batch_cancel_loop env rest sender (results @ [Inl e]) W
      | Inl (Panic p) \<Rightarrow> Inl (Panic p))"

definition batch_cancel_stream ::
    "'w env \<Rightarrow> nat list \<Rightarrow> address \<Rightarrow> 'w world \<Rightarrow> ('w, (stream_error + unit) list) response" where
  "batch_cancel_stream env stream_ids sender W =
     bindE (require_auth env sender) (\<lambda>_.
     if stream_ids = [] \<or> length stream_ids > 20 then Inl (Err BatchLengthMismatch)
     else batch_cancel_loop env stream_ids sender [] W)"

end
