(* ===== verification/Queries.thy ===== *)
theory Queries
  imports Batch
begin

text \<open>
  The read-only instructions (single streams, pages, active streams, statistics) and the
  read-only half of the interface.
\<close>

definition get_stream :: "'w world \<Rightarrow> nat \<Rightarrow> (stream_error, stream) outcome" where
  "get_stream W stream_id = ok_or StreamNotFound (load_stream (st W) stream_id)"

definition get_all_stream_ids :: "'w world \<Rightarrow> nat \<Rightarrow> nat \<Rightarrow> nat list" where
  "get_all_stream_ids W start limit =
     (let total = get_global_stream_count (st W);
          cap = min limit 20;
          end_pos = min (saturating_add_u32 start cap) total
      in List.map_filter (\<lambda>i.
           case get_global_stream_at (st W) i of
             Some k \<Rightarrow> if load_stream (st W) k \<noteq> None then Some k else None
           | None \<Rightarrow> None) [start..<end_pos])"

definition get_nonce :: "'w world \<Rightarrow> address \<Rightarrow> nat" where
  "get_nonce W sender = get_batch_nonce (st W) sender"

definition get_claimable :: "'w env \<Rightarrow> 'w world \<Rightarrow> nat \<Rightarrow> (stream_error, int) outcome" where
  "get_claimable env W stream_id =
     bindE (find_stream W stream_id) (\<lambda>stream.
     if \<not> live stream then Inr 0
     else let now = stream_now env stream in
     if now < s_cliff_time stream then Inr 0
     else ok_or Overflow (compute_claimable (s_flow_rate stream) now (s_cliff_time stream)
            (s_end_time stream) (s_last_withdraw_time stream)))"

definition is_participant :: "'w world \<Rightarrow> nat \<Rightarrow> address \<Rightarrow> (stream_error, bool) outcome" where
  "is_participant W stream_id address =
     bindE (find_stream W stream_id) (\<lambda>stream.
       Inr (s_sender stream = address \<or> s_recipient stream = address))"

text \<open>
  The page \<open>start .. min(start + cap, len)\<close> of a list of ids, as streams; positions are
  \<open>usize\<close>, in which the sum of two \<open>u32\<close> values is taken with saturation.
\<close>

definition stream_page :: "'w world \<Rightarrow> nat list \<Rightarrow> nat \<Rightarrow> nat \<Rightarrow> stream list" where
  "stream_page W ids start limit =
     (let cap = min limit 20
      in List.map_filter (\<lambda>i. load_stream (st W) (ids ! i))
           [start..<min (saturating_add_u32 start cap) (length ids)])"

definition get_streams_by_sender :: "'w world \<Rightarrow> address \<Rightarrow> nat \<Rightarrow> nat \<Rightarrow> stream list" where
  "get_streams_by_sender W sender start limit =
     stream_page W (get_ids_by_sender (st W) sender) start limit"

definition get_streams_by_recipient :: "'w world \<Rightarrow> address \<Rightarrow> nat \<Rightarrow> nat \<Rightarrow> stream list" where
  "get_streams_by_recipient W recipient start limit =
     stream_page W (get_ids_by_recipient (st W) recipient) start limit"

definition active_streams_of :: "'w world \<Rightarrow> nat list \<Rightarrow> stream list" where
  "active_streams_of W ids =
     List.map_filter (\<lambda>k.
       case load_stream (st W) k of
         Some s \<Rightarrow> if s_status s = Active then Some s else None
       | None \<Rightarrow> None) ids"

definition get_active_streams_by_sender :: "'w world \<Rightarrow> address \<Rightarrow> stream list" where
  "get_active_streams_by_sender W sender = active_streams_of W (get_ids_by_sender (st W) sender)"

definition get_active_streams_by_recipient :: "'w world \<Rightarrow> address \<Rightarrow> stream list" where
  "get_active_streams_by_recipient W recipient =
     active_streams_of W (get_ids_by_recipient (st W) recipient)"

text \<open>The counters of \<open>get_stats\<close>, over the positions of the global index.\<close>

fun stats_loop :: "storage \<Rightarrow> nat list \<Rightarrow> stats \<Rightarrow> (stream_error, stats) outcome" where
  "stats_loop s [] acc = Inr acc"
| "stats_loop s (i # rest) acc =
     (case get_global_stream_at s i of
        None \<Rightarrow> stats_loop s rest acc
      | Some stream_id \<Rightarrow>
          (case load_stream s stream_id of
             None \<Rightarrow> stats_loop s rest acc
           | Some stream \<Rightarrow>
               bindE (add_u64 (total_streams acc) 1) (\<lambda>total.
               let volume = saturating_add_i128 (total_volume acc) (s_deposit stream) in
               bindE (if s_status stream = Active then add_u64 (active_streams acc) 1
                      else Inr (active_streams acc)) (\<lambda>active.
                 stats_loop s rest \<lparr>total_streams = total, active_streams = active,
                                    total_volume = volume\<rparr>))))"

definition get_stats :: "'w world \<Rightarrow> (stream_error, stats) outcome" where
  "get_stats W =
     (let count = get_global_stream_count (st W)
      in stats_loop (st W) [0..<count]
           \<lparr>total_streams = 0, active_streams = 0, total_volume = 0\<rparr>)"

section \<open>The read-only half of the interface\<close>

text \<open>
  One constructor per read-only entry point of \<open>interface.rs\<close>, those about streams and those
  about the contract, and the dispatch of the trait implementation. (\<open>is_paused\<close> is not among
  them: it writes when a pause has expired, so it is a \<open>call\<close>.)
\<close>

datatype (plugins only:) stream_query =
    Get_stream nat
  | Get_all_stream_ids nat nat
  | Get_nonce address
  | Get_claimable nat
  | Is_participant nat address
  | Get_streams_by_sender address nat nat
  | Get_streams_by_recipient address nat nat
  | Get_active_streams_by_sender address
  | Get_active_streams_by_recipient address

datatype (plugins only:) contract_query =
    Get_admin
  | Get_version
  | Get_protocol_fee_info
  | Get_stats
  | Min_duration
  | Get_admin_log
  | Is_fee_exempt address
  | Get_guardian
  | Get_governance
  | Get_pause_expiry
  | Get_creation_fee

datatype (plugins only:) answer =
    AStream stream
  | AStreams "stream list"
  | AIds "nat list"
  | ANat nat
  | AAmount int
  | ABool bool
  | AAddress address
  | AString string
  | AMaybe "address option"
  | AFeeInfo nat "address option"
  | AStats stats
  | AEntries "audit_entry list"

definition answered :: "('a \<Rightarrow> answer) \<Rightarrow> ('e, 'a) outcome \<Rightarrow> ('e, answer) outcome" where
  "answered f m = bindE m (\<lambda>a. Inr (f a))"

primrec ask_stream ::
    "'w env \<Rightarrow> stream_query \<Rightarrow> 'w world \<Rightarrow> (stream_error, answer) outcome" where
  "ask_stream env (Get_stream k) W = answered AStream (get_stream W k)"
| "ask_stream env (Get_all_stream_ids start lim) W =
     Inr (AIds (get_all_stream_ids W start lim))"
| "ask_stream env (Get_nonce a) W = Inr (ANat (get_nonce W a))"
| "ask_stream env (Get_claimable k) W = answered AAmount (get_claimable env W k)"
| "ask_stream env (Is_participant k a) W = answered ABool (is_participant W k a)"
| "ask_stream env (Get_streams_by_sender a start lim) W =
     Inr (AStreams (get_streams_by_sender W a start lim))"
| "ask_stream env (Get_streams_by_recipient a start lim) W =
     Inr (AStreams (get_streams_by_recipient W a start lim))"
| "ask_stream env (Get_active_streams_by_sender a) W =
     Inr (AStreams (get_active_streams_by_sender W a))"
| "ask_stream env (Get_active_streams_by_recipient a) W =
     Inr (AStreams (get_active_streams_by_recipient W a))"

primrec ask_contract :: "contract_query \<Rightarrow> 'w world \<Rightarrow> (stream_error, answer) outcome" where
  "ask_contract Get_admin W = answered AAddress (get_admin W)"
| "ask_contract Get_version W = answered AString (get_version W)"
| "ask_contract Get_protocol_fee_info W =
     (let (bps, treasury) = get_protocol_fee_info W in Inr (AFeeInfo bps treasury))"
| "ask_contract Get_stats W = answered AStats (get_stats W)"
| "ask_contract Min_duration W = Inr (ANat (min_duration W))"
| "ask_contract Get_admin_log W = answered AEntries (get_admin_log W)"
| "ask_contract (Is_fee_exempt a) W = Inr (ABool (is_fee_exempt W a))"
| "ask_contract Get_guardian W = Inr (AMaybe (get_guardian W))"
| "ask_contract Get_governance W = Inr (AMaybe (get_governance W))"
| "ask_contract Get_pause_expiry W = Inr (ANat (get_pause_expiry W))"
| "ask_contract Get_creation_fee W = Inr (AAmount (get_creation_fee W))"

end
