(* ===== verification/Accounting.thy ===== *)
theory Accounting
  imports Queries
begin

text \<open>
  The books of the stream contract: what each stream is owed in a token, the invariant of the
  stream table, and how transfers move the contract's balance. The operations' preservation
  lemmas in \<open>Solvency\<close> are built from the rules here.
\<close>

section \<open>Well-formed streams\<close>

text \<open>Every field is in the range of its Rust type; metadata is at most 64 octets.\<close>

definition typed :: "stream \<Rightarrow> bool" where
  "typed x \<longleftrightarrow>
     in_i128 (s_deposit x) \<and> in_i128 (s_flow_rate x) \<and> in_i128 (s_total_withdrawn x) \<and>
     s_start_time x \<le> u64_max \<and> s_cliff_time x \<le> u64_max \<and> s_lock_until x \<le> u64_max \<and>
     s_end_time x \<le> u64_max \<and> s_last_withdraw_time x \<le> u64_max \<and>
     s_last_pause_time x \<le> u64_max \<and> length (s_metadata x) \<le> 64"

text \<open>
  What holds of a live stream at ledger time \<open>T\<close>: its times are in order, the rate times the
  duration is covered by the deposit, and no more has been withdrawn than what streamed up to
  the last withdrawal.
\<close>

definition funded :: "nat \<Rightarrow> stream \<Rightarrow> bool" where
  "funded T x \<longleftrightarrow>
     0 < s_flow_rate x \<and> 0 \<le> s_total_withdrawn x \<and>
     s_start_time x \<le> s_last_withdraw_time x \<and> s_last_withdraw_time x \<le> s_end_time x \<and>
     s_last_withdraw_time x \<le> T \<and>
     (s_status x = Paused \<longrightarrow>
        s_last_withdraw_time x \<le> s_last_pause_time x \<and> s_last_pause_time x \<le> T) \<and>
     s_flow_rate x * int (s_end_time x - s_start_time x) \<le> s_deposit x \<and>
     s_total_withdrawn x \<le>
       s_flow_rate x * int (s_last_withdraw_time x - s_start_time x)"

definition stream_ok :: "nat \<Rightarrow> stream \<Rightarrow> bool" where
  "stream_ok T x \<longleftrightarrow> typed x \<and> (live x \<longrightarrow> funded T x)"

text \<open>What the contract owes on a stream in a token: the deposit not yet withdrawn.\<close>

definition owed :: "address \<Rightarrow> stream \<Rightarrow> int" where
  "owed tok x = (if s_token x = tok \<and> live x then s_deposit x - s_total_withdrawn x else 0)"

lemma funded_mono: "funded T x \<Longrightarrow> T \<le> T' \<Longrightarrow> funded T' x"
  by (auto simp: funded_def)

lemma stream_ok_mono: "stream_ok T x \<Longrightarrow> T \<le> T' \<Longrightarrow> stream_ok T' x"
  by (auto simp: stream_ok_def intro: funded_mono)

lemma stream_ok_funded: "stream_ok T x \<Longrightarrow> live x \<Longrightarrow> funded T x"
  by (simp add: stream_ok_def)

lemma flow_split:
  "s \<le> l \<Longrightarrow> l \<le> m \<Longrightarrow> f * int (l - s) + f * int (m - l) = (f::int) * int (m - s)"
  by (simp add: algebra_simps of_nat_diff)

lemma flow_mono: "0 \<le> (f::int) \<Longrightarrow> m \<le> n \<Longrightarrow> f * int m \<le> f * int n"
  by (simp add: mult_left_mono)

text \<open>
  A claim on a funded stream, up to any time: it is not negative, and together with what was
  withdrawn it is covered by what has streamed by then, hence by the deposit.
\<close>

lemma claim_bounds:
  assumes "funded T x"
  defines "l \<equiv> s_last_withdraw_time x" and "s \<equiv> s_start_time x" and "f \<equiv> s_flow_rate x"
  shows "0 \<le> f * int (min n (s_end_time x) - l)"
    and "s_total_withdrawn x + f * int (min n (s_end_time x) - l)
           \<le> f * int (max l (min n (s_end_time x)) - s)"
    and "s_total_withdrawn x + f * int (min n (s_end_time x) - l) \<le> s_deposit x"
proof -
  let ?m = "max l (min n (s_end_time x))"
  have f: "0 < f" "s \<le> l" "l \<le> s_end_time x" "f * int (s_end_time x - s) \<le> s_deposit x"
    "s_total_withdrawn x \<le> f * int (l - s)"
    using assms by (auto simp: funded_def)
  show "0 \<le> f * int (min n (s_end_time x) - l)" using f(1) by simp
  have m: "min n (s_end_time x) - l = ?m - l" "?m - s \<le> s_end_time x - s"
    using f(3) by auto
  have "f * int (l - s) + f * int (?m - l) = f * int (?m - s)"
    using f(2) by (intro flow_split) simp_all
  then show *: "s_total_withdrawn x + f * int (min n (s_end_time x) - l) \<le> f * int (?m - s)"
    using f(5) m(1) by simp
  have "f * int (?m - s) \<le> f * int (s_end_time x - s)"
    using f(1) m(2) by (intro flow_mono) simp_all
  with * f(4) show "s_total_withdrawn x + f * int (min n (s_end_time x) - l) \<le> s_deposit x"
    by linarith
qed

lemma funded_owed_nonneg:
  assumes "funded T x"
  shows "s_total_withdrawn x \<le> s_deposit x"
  using claim_bounds(3) [OF assms, of 0] claim_bounds(1) [OF assms, of 0] by linarith

lemma owed_nonneg: "stream_ok T x \<Longrightarrow> 0 \<le> owed tok x"
  using funded_owed_nonneg by (auto simp: owed_def stream_ok_def)

section \<open>The books\<close>

definition fee_state :: "storage \<Rightarrow> nat option \<times> (nat \<times> nat) option" where
  "fee_state s = (i_fee_bps s, i_pnd_fee s)"

definition fees_ok :: "storage \<Rightarrow> bool" where
  "fees_ok s \<longleftrightarrow> (case i_fee_bps s of None \<Rightarrow> True | Some b \<Rightarrow> b \<le> 10000) \<and>
                 (case i_pnd_fee s of None \<Rightarrow> True | Some (b, _) \<Rightarrow> b \<le> 10000)"

lemma fees_ok_frame: "fee_state s' = fee_state s \<Longrightarrow> fees_ok s' = fees_ok s"
  by (simp add: fees_ok_def fee_state_def)

lemma fees_ok_fee: "fees_ok s \<Longrightarrow> get_protocol_fee s \<le> 10000"
  by (auto simp: fees_ok_def get_protocol_fee_def split: option.splits)

definition table_ok :: "nat \<Rightarrow> (nat \<rightharpoonup> stream) \<Rightarrow> bool" where
  "table_ok T m \<longleftrightarrow>
     finite (dom m) \<and> (\<forall>k x. m k = Some x \<longrightarrow> s_id x = k \<and> stream_ok T x)"

definition books_ok :: "nat \<Rightarrow> address \<Rightarrow> int \<Rightarrow> storage \<Rightarrow> bool" where
  "books_ok T tok bal s \<longleftrightarrow>
     table_ok T (p_streams s) \<and> fees_ok s \<and> msum (owed tok) (p_streams s) \<le> bal"

lemma table_okD:
  "table_ok T m \<Longrightarrow> m k = Some x \<Longrightarrow> s_id x = k \<and> stream_ok T x"
  by (simp add: table_ok_def)

lemma books_stream:
  "books_ok T tok b s \<Longrightarrow> p_streams s k = Some x \<Longrightarrow> s_id x = k \<and> stream_ok T x"
  by (auto simp: books_ok_def dest: table_okD)

lemma table_ok_update:
  "table_ok T m \<Longrightarrow> T \<le> T' \<Longrightarrow> s_id y = k \<Longrightarrow> stream_ok T' y \<Longrightarrow> table_ok T' (m(k \<mapsto> y))"
  by (auto simp: table_ok_def intro: stream_ok_mono)

lemma table_ok_remove: "table_ok T m \<Longrightarrow> T \<le> T' \<Longrightarrow> table_ok T' (m(k := None))"
  by (auto simp: table_ok_def intro: stream_ok_mono split: if_splits)

text \<open>The three ways an operation changes the table: keep it, save a stream, remove one.\<close>

lemma books_keep:
  assumes "books_ok T tok b s" "T \<le> T'" "p_streams s' = p_streams s" "fees_ok s'" "b \<le> b'"
  shows "books_ok T' tok b' s'"
  using assms by (auto simp: books_ok_def table_ok_def intro: stream_ok_mono)

lemma books_save:
  assumes "books_ok T tok b s" "T \<le> T'" "p_streams s' = (p_streams s)(k \<mapsto> y)"
    and "fee_state s' = fee_state s" "s_id y = k" "stream_ok T' y"
    and "b - value_at (owed tok) (p_streams s) k + owed tok y \<le> b'"
  shows "books_ok T' tok b' s'"
proof -
  have "finite (dom (p_streams s))" using assms(1) by (simp add: books_ok_def table_ok_def)
  then have "msum (owed tok) (p_streams s') \<le> b'"
    using assms(1,3,7) by (simp add: books_ok_def msum_update)
  moreover have "table_ok T' (p_streams s')"
    using assms by (auto simp: books_ok_def simp del: fun_upd_apply intro: table_ok_update)
  ultimately show ?thesis
    using assms(1,4) by (simp add: books_ok_def fees_ok_frame [OF assms(4)])
qed

lemma books_remove:
  assumes "books_ok T tok b s" "T \<le> T'" "p_streams s' = (p_streams s)(k := None)"
    and "fee_state s' = fee_state s"
    and "b - value_at (owed tok) (p_streams s) k \<le> b'"
  shows "books_ok T' tok b' s'"
proof -
  have "finite (dom (p_streams s))" using assms(1) by (simp add: books_ok_def table_ok_def)
  then have "msum (owed tok) (p_streams s') \<le> b'"
    using assms(1,3,5) by (simp add: books_ok_def msum_remove)
  moreover have "table_ok T' (p_streams s')"
    using assms by (auto simp: books_ok_def simp del: fun_upd_apply intro: table_ok_remove)
  ultimately show ?thesis
    using assms(1,4) by (simp add: books_ok_def fees_ok_frame [OF assms(4)])
qed

lemma books_value_nonneg:
  assumes "books_ok T tok b s"
  shows "0 \<le> value_at (owed tok) (p_streams s) k"
proof (cases "p_streams s k")
  case None
  then show ?thesis by simp
next
  case (Some x)
  with books_stream [OF assms Some] show ?thesis using owed_nonneg by auto
qed

lemma books_cover:
  assumes "books_ok T tok b s" "p_streams s k = Some x"
  shows "owed tok x \<le> b"
proof -
  have "value_at (owed tok) (p_streams s) k \<le> msum (owed tok) (p_streams s)"
    using assms(1) books_stream [OF assms(1)] owed_nonneg
    by (intro msum_ge_value_at) (auto simp: books_ok_def table_ok_def, blast)
  then show ?thesis using assms by (simp add: books_ok_def)
qed

section \<open>The storage frame of the shared steps\<close>

lemma fee_state_simps [simp]:
  "fee_state (save_stream x s) = fee_state s"
  "fee_state (remove_stream k s) = fee_state s"
  "fee_state (mark_nonce_used a n s) = fee_state s"
  "fee_state (set_delegate k a s) = fee_state s"
  "fee_state (remove_delegate k s) = fee_state s"
  by (simp_all add: fee_state_def handler)

lemma unindex_fee_state [simp]:
  "fee_state (unindex_by_sender a x s) = fee_state s"
  "fee_state (unindex_by_recipient a x s) = fee_state s"
  by (auto simp: fee_state_def unindex_by_sender_def unindex_by_recipient_def Let_def
      split: option.splits)

lemma close_stream_fee_state [simp]: "fee_state (close_stream k x s) = fee_state s"
  by (simp add: close_stream_def)

lemma register_stream_fee_state: "register_stream x s = Inr s' \<Longrightarrow> fee_state s' = fee_state s"
  by (auto simp: register_stream_def outcome save_stream_def fee_state_def)

lemma unpause_frame:
  assumes "when_not_paused env W = Inr W'"
  shows "p_streams (st W') = p_streams (st W)" "fee_state (st W') = fee_state (st W)"
    "ext W' = ext W"
  using when_not_paused_frame [OF assms] by (auto simp: fee_state_def)

section \<open>The contract's balance\<close>

definition balance_of :: "'w env \<Rightarrow> address \<Rightarrow> 'w world \<Rightarrow> int" where
  "balance_of env tok W = token_balance env tok (current_contract env) (ext W)"

lemma balance_of_simps [simp]:
  "balance_of env tok (publish e W) = balance_of env tok W"
  "balance_of env tok (in_store f W) = balance_of env tok W"
  "balance_of env tok (W\<lparr>st := s\<rparr>) = balance_of env tok W"
  by (simp_all add: balance_of_def publish_def)

lemma transfer_st: "transfer env tk f t a W = Inr W' \<Longrightarrow> st W' = st W"
  by (auto simp: outcome)

lemma pay_if_positive_st: "pay_if_positive env tk t a W = Inr W' \<Longrightarrow> st W' = st W"
  by (auto simp: outcome split: if_splits)

lemma transfer_out:
  assumes "honest_token env tok" "transfer env tk (current_contract env) t a W = Inr W'"
  shows "balance_of env tok W - (if tk = tok then max a 0 else 0) \<le> balance_of env tok W'"
proof (cases "tk = tok")
  case True
  with assms obtain w where w: "sac env tok"
    "token_transfer env tok (current_contract env) t a (ext W) = Some w" "W' = W\<lparr>ext := w\<rparr>"
    by (auto simp: outcome honest_token_def)
  from sacD(1) [OF w(1,2)] sacD(3) [OF w(1,2), of "current_contract env"] w(3) True
  show ?thesis by (simp add: balance_of_def)
next
  case False
  with assms show ?thesis
    by (auto simp: outcome honest_token_def isolated_def balance_of_def)
qed

lemma transfer_in:
  assumes "honest_token env tok" "transfer env tk f (current_contract env) a W = Inr W'"
    and "f \<noteq> current_contract env"
  shows "balance_of env tok W + (if tk = tok then a else 0) \<le> balance_of env tok W'"
proof (cases "tk = tok")
  case True
  with assms obtain w where w: "sac env tok"
    "token_transfer env tok f (current_contract env) a (ext W) = Some w" "W' = W\<lparr>ext := w\<rparr>"
    by (auto simp: outcome honest_token_def)
  from sacD(3) [OF w(1,2), of "current_contract env"] w(3) True assms(3)
  show ?thesis by (simp add: balance_of_def)
next
  case False
  with assms show ?thesis
    by (auto simp: outcome honest_token_def isolated_def balance_of_def)
qed

text \<open>A transfer between two other accounts.\<close>

lemma transfer_other:
  assumes "honest_token env tok" "transfer env tk f t a W = Inr W'"
    and "f \<noteq> current_contract env"
  shows "balance_of env tok W \<le> balance_of env tok W'"
proof (cases "tk = tok")
  case True
  with assms obtain w where w: "sac env tok"
    "token_transfer env tok f t a (ext W) = Some w" "W' = W\<lparr>ext := w\<rparr>"
    by (auto simp: outcome honest_token_def)
  from sacD(1) [OF w(1,2)] sacD(3) [OF w(1,2), of "current_contract env"] w(3) True assms(3)
  show ?thesis by (simp add: balance_of_def)
next
  case False
  with assms show ?thesis
    by (auto simp: outcome honest_token_def isolated_def balance_of_def)
qed

lemma pay_if_positive_out:
  assumes "honest_token env tok" "pay_if_positive env tk t a W = Inr W'"
  shows "balance_of env tok W - (if tk = tok then max a 0 else 0) \<le> balance_of env tok W'"
proof (cases "a > 0")
  case True
  with assms(2) have "transfer env tk (current_contract env) t a W
      = (Inr W' :: (stream_error, _) outcome)"
    by (simp add: pay_if_positive_def)
  from transfer_out [OF assms(1) this] show ?thesis .
next
  case False
  with assms(2) show ?thesis by (simp add: pay_if_positive_def)
qed

lemma try_invoke_balance:
  assumes "honest_token env tok"
  shows "balance_of env tok W \<le> balance_of env tok (try_invoke env c fn args W)"
  using assms by (auto simp: try_invoke_def balance_of_def honest_token_def isolated_def
      split: option.splits)

lemma invoke_balance:
  assumes "honest_token env tok" "invoke env c fn args W = Inr (r, W')"
  shows "balance_of env tok W \<le> balance_of env tok W'" "st W' = st W"
  using assms by (auto simp: outcome balance_of_def honest_token_def isolated_def)

text \<open>
  The protocol fee on a claim lies between zero and the claim, so paying the claim costs the
  contract at most the claim.
\<close>

lemma fee_on_claim_bounds:
  assumes "fees_ok s" "0 < c" "fee_on_claim s r c = Inr fee"
  shows "0 \<le> fee" "fee \<le> c"
    "fee = (if storage_is_fee_exempt s r then 0 else c * int (get_protocol_fee s) div 10000)"
proof -
  have bps: "int (get_protocol_fee s) \<le> 10000" using fees_ok_fee [OF assms(1)] by simp
  have le: "c * int (get_protocol_fee s) \<le> c * 10000" using bps assms(2) by simp
  show fee: "fee = (if storage_is_fee_exempt s r then 0
                    else c * int (get_protocol_fee s) div 10000)"
    using assms(2,3) by (auto simp: fee_on_claim_def Let_def outcome div_i128_nonneg
        split: if_splits)
  have "c * int (get_protocol_fee s) div 10000 \<le> c * 10000 div 10000"
    using le by (intro zdiv_mono1) simp_all
  then show "fee \<le> c" using fee assms(2) by auto
  show "0 \<le> fee" using fee assms(2) by (auto intro!: pos_imp_zdiv_nonneg_iff [THEN iffD2])
qed

lemma pay_claim_out:
  assumes "honest_token env tok" "fees_ok (st W)" "0 < c"
    and "pay_claim env k x payee c W = Inr (r, W')"
  shows "balance_of env tok W - (if s_token x = tok then c else 0) \<le> balance_of env tok W'"
    and "st W' = st W" and "0 \<le> r" "r \<le> c"
proof -
  from assms(4) obtain fee W1 where
    fee: "fee_on_claim (st W) (s_recipient x) c = Inr fee" and r: "r = c - fee"
    and W1: "pay_if_positive env (s_token x) payee r W = Inr W1"
    and rest: "(if fee > 0 then
         (case get_treasury (st W1) of
            Some tr \<Rightarrow> bindE (transfer env (s_token x) (current_contract env) tr fee W1)
                (\<lambda>W2. Inr (r, publish (ev_fee_collected k fee tr) W2))
          | None \<Rightarrow> Inr (r, W1)) else Inr (r, W1)) = Inr (r, W')"
    by (auto simp: pay_claim_def outcome split: if_splits option.splits)
  note b = fee_on_claim_bounds [OF assms(2,3) fee]
  show "0 \<le> r" "r \<le> c" using b r by simp_all
  have one: "balance_of env tok W - (if s_token x = tok then max r 0 else 0) \<le> balance_of env tok W1"
    by (rule pay_if_positive_out [OF assms(1) W1])
  have st1: "st W1 = st W" by (rule pay_if_positive_st [OF W1])
  have "balance_of env tok W1 - (if s_token x = tok then fee else 0) \<le> balance_of env tok W'
        \<and> st W' = st W1"
    using rest transfer_out [OF assms(1)] transfer_st b(1)
    by (fastforce simp: bindE_eq_Inr split: if_splits option.splits)
  then show "balance_of env tok W - (if s_token x = tok then c else 0) \<le> balance_of env tok W'"
    and "st W' = st W"
    using one st1 r b by (auto split: if_splits)
qed

lemma pay_claim_batch_out:
  assumes "honest_token env tok" "fees_ok (st W)" "0 < c"
    and "pay_claim_batch env x payee c W = Inr W'"
  shows "balance_of env tok W - (if s_token x = tok then c else 0) \<le> balance_of env tok W'"
    and "st W' = st W"
proof -
  from assms(4) obtain fee W1 where
    fee: "fee_on_claim (st W) (s_recipient x) c = Inr fee"
    and W1: "pay_if_positive env (s_token x) payee (c - fee) W = Inr W1"
    and rest: "(if fee > 0 then
         (case get_treasury (st W1) of
            Some tr \<Rightarrow> bindE (transfer env (s_token x) (current_contract env) tr fee W1)
                (\<lambda>W2. Inr (try_invoke env tr ''deposit'' [VAddr (s_token x), VI128 fee] W2))
          | None \<Rightarrow> Inr W1) else Inr W1) = (Inr W' :: (stream_error, _) outcome)"
    by (auto simp: pay_claim_batch_def outcome split: if_splits option.splits)
  note b = fee_on_claim_bounds [OF assms(2,3) fee]
  have one: "balance_of env tok W - (if s_token x = tok then max (c - fee) 0 else 0)
      \<le> balance_of env tok W1"
    by (rule pay_if_positive_out [OF assms(1) W1])
  have st1: "st W1 = st W" by (rule pay_if_positive_st [OF W1])
  have "balance_of env tok W1 - (if s_token x = tok then fee else 0) \<le> balance_of env tok W'
        \<and> st W' = st W1"
  proof (cases "fee > 0 \<and> get_treasury (st W1) \<noteq> None")
    case True
    with rest obtain tr W2 where t: "transfer env (s_token x) (current_contract env) tr fee W1
        = (Inr W2 :: (stream_error, _) outcome)"
      and W': "W' = try_invoke env tr ''deposit'' [VAddr (s_token x), VI128 fee] W2"
      by (auto simp: bindE_eq_Inr)
    have "balance_of env tok W2 \<le> balance_of env tok W'"
      unfolding W' by (rule try_invoke_balance [OF assms(1)])
    moreover have "st W' = st W2" by (simp add: W')
    ultimately show ?thesis
      using transfer_out [OF assms(1) t] transfer_st [OF t] b(1) by (auto split: if_splits)
  next
    case False
    with rest b(1) show ?thesis by (auto split: if_splits)
  qed
  then show "balance_of env tok W - (if s_token x = tok then c else 0) \<le> balance_of env tok W'"
    and "st W' = st W"
    using one st1 b by (auto split: if_splits)
qed

end
