(* ===== verification/Solvency.thy ===== *)
theory Solvency
  imports Accounting
begin

text \<open>
  Every stream instruction keeps the books of an honest token: the stream table stays well
  formed and what is owed on the live streams stays covered by the contract's balance. One
  lemma per instruction; \<open>Interface\<close> collects them into the invariant of the whole contract.
\<close>

section \<open>Streams after an update\<close>

lemma stream_ok_fields [simp]:
  "stream_ok T (x\<lparr>s_recipient := r\<rparr>) = stream_ok T x"
  "stream_ok T (x\<lparr>s_auto_renew := b\<rparr>) = stream_ok T x"
  by (simp_all add: stream_ok_def typed_def funded_def live_def)

lemma owed_fields [simp]:
  "owed tok (x\<lparr>s_recipient := r\<rparr>) = owed tok x"
  "owed tok (x\<lparr>s_auto_renew := b\<rparr>) = owed tok x"
  "owed tok (x\<lparr>s_metadata := m\<rparr>) = owed tok x"
  by (auto simp: owed_def live_def)

lemma owed_dead [simp]: "\<not> live x \<Longrightarrow> owed tok x = 0"
  by (simp add: owed_def)

lemma live_fields [simp]:
  "live (x\<lparr>s_total_withdrawn := t\<rparr>) = live x"
  "live (x\<lparr>s_last_withdraw_time := l\<rparr>) = live x"
  "live (x\<lparr>s_deposit := d\<rparr>) = live x"
  "live (x\<lparr>s_end_time := e\<rparr>) = live x"
  by (simp_all add: live_def)

lemma fresh_stream_ok:
  assumes "typed x" "s_status x = Active" "s_total_withdrawn x = 0"
    and "s_start_time x = s_last_withdraw_time x" "s_last_withdraw_time x \<le> T"
    and "s_last_withdraw_time x \<le> s_end_time x" "0 < s_flow_rate x"
    and "s_flow_rate x * int (s_end_time x - s_start_time x) \<le> s_deposit x"
  shows "stream_ok T x"
  using assms by (simp add: stream_ok_def funded_def)

text \<open>Claiming up to time \<open>n\<close>, or (before the cliff) only moving the last withdrawal.\<close>

lemma claimed_ok:
  assumes ok: "stream_ok T x" "live x" "T \<le> T'"
    and n: "s_last_withdraw_time x \<le> n" "n \<le> T'"
    and paused: "s_status x = Paused \<Longrightarrow> n = s_last_pause_time x"
    and c: "c = 0 \<or>
        c = s_flow_rate x * int (min n (s_end_time x) - s_last_withdraw_time x)"
  shows "stream_ok T' (x\<lparr>s_total_withdrawn := s_total_withdrawn x + c,
                        s_last_withdraw_time := min n (s_end_time x)\<rparr>)"
proof -
  let ?m = "min n (s_end_time x)"
  have f: "funded T x" and ty: "typed x" using ok by (simp_all add: stream_ok_def)
  have m: "s_last_withdraw_time x \<le> ?m" using f n(1) by (auto simp: funded_def)
  note b = claim_bounds [OF f, of n]
  have max: "max (s_last_withdraw_time x) ?m = ?m" using m by simp
  have tw: "0 \<le> s_total_withdrawn x" using f by (simp add: funded_def)
  have le: "s_total_withdrawn x + c \<le> s_flow_rate x * int (?m - s_start_time x)"
    "s_total_withdrawn x + c \<le> s_deposit x" "0 \<le> c"
    using c b max by auto
  have "in_i128 (s_total_withdrawn x + c)"
    by (rule in_i128_below [of _ "s_deposit x"]) (use le tw ty in \<open>simp_all add: typed_def\<close>)
  then have "typed (x\<lparr>s_total_withdrawn := s_total_withdrawn x + c,
                     s_last_withdraw_time := ?m\<rparr>)"
    using ty by (auto simp: typed_def)
  moreover have "funded T' (x\<lparr>s_total_withdrawn := s_total_withdrawn x + c,
                              s_last_withdraw_time := ?m\<rparr>)"
    using f le m n paused ok(3) tw by (auto simp: funded_def)
  ultimately show ?thesis by (simp add: stream_ok_def)
qed

section \<open>Creation\<close>

lemma created_rate:
  assumes "0 < amount" "in_i128 amount" "0 < d"
    and "div_i128 amount (int d) = (Inr f :: (stream_error, int) outcome)" "f \<noteq> 0"
  shows "0 < f" "in_i128 f" "f * int d \<le> amount"
proof -
  have f: "f = amount div int d" using assms by (simp add: div_i128_nonneg)
  then have "0 \<le> f" using assms(1,3) by (simp add: pos_imp_zdiv_nonneg_iff)
  with assms(5) show "0 < f" by simp
  show le: "f * int d \<le> amount" using flow_rate_le_deposit(1) [OF assms(1,3)] f by simp
  have "f * 1 \<le> f * int d" using \<open>0 < f\<close> assms(3) by (intro mult_left_mono) simp_all
  then have "f \<le> amount" using le by linarith
  with \<open>0 < f\<close> assms(2) show "in_i128 f" by (intro in_i128_below [of f amount]) simp_all
qed

lemma register_books:
  assumes "books_ok T tok b s" "T \<le> T'" "register_stream x s = Inr s'"
    and "p_streams s (s_id x) = None" "stream_ok T' x"
    and "b + owed tok x \<le> b'"
  shows "books_ok T' tok b' s'"
  using assms by (intro books_save [OF assms(1,2) register_stream_streams [OF assms(3)]
        register_stream_fee_state [OF assms(3)]]) simp_all

lemma collect_creation_fee_books:
  assumes "collect_creation_fee env sender W = Inr W'" "honest_token env tok"
    and "sender \<noteq> current_contract env"
  shows "balance_of env tok W \<le> balance_of env tok W'" "st W' = st W"
proof -
  have *: "balance_of env tok W \<le> balance_of env tok W1"
    if "transfer env tk sender t a W = (Inr W1 :: (stream_error, _) outcome)" for tk t a W1
    by (rule transfer_other [OF assms(2) that assms(3)])
  show "balance_of env tok W \<le> balance_of env tok W'" "st W' = st W"
    using assms(1) * by (auto simp: collect_creation_fee_def Let_def bindE_eq_Inr
        dest: transfer_st split: if_splits)
qed

lemma create_stream_books:
  assumes create: "create_stream env sender recipient token amount d cliff nonce ar lock art md W
      = Inr (k, W')"
    and books: "books_ok T tok (balance_of env tok W) (st W)" "T \<le> ledger_timestamp env"
    and env: "env_ok env" "honest_token env tok"
    and args: "in_i128 amount" "lock \<le> u64_max"
  shows "books_ok (ledger_timestamp env) tok (balance_of env tok W') (st W')"
proof -
  let ?now = "ledger_timestamp env"
  from create obtain W0 f W2 W3 s where
    auth: "authorizes env sender" and W0: "when_not_paused env W = Inr W0"
    and guards: "0 < amount" "cliff < d" "length md \<le> 64"
    and f: "div_i128 amount (int d) = (Inr f :: (stream_error, int) outcome)" "f \<noteq> 0"
    and times: "?now + d \<le> u64_max" "?now + cliff \<le> u64_max"
    and k: "k = derive_stream_id env sender recipient ?now nonce"
    and fresh: "p_streams (st W0) k = None"
    and W2: "collect_creation_fee env sender (in_store (mark_nonce_used sender nonce) W0) = Inr W2"
    and W3: "transfer env token sender (current_contract env) amount W2
        = (Inr W3 :: (stream_error, _) outcome)"
    and s: "register_stream \<lparr>s_id = k, s_sender = sender, s_recipient = recipient,
              s_token = token, s_deposit = amount, s_flow_rate = f, s_start_time = ?now,
              s_cliff_time = ?now + cliff, s_lock_until = lock, s_end_time = ?now + d,
              s_last_withdraw_time = ?now, s_status = Active, s_auto_renew = ar,
              s_allow_recipient_termination = art, s_last_pause_time = 0,
              s_total_withdrawn = 0, s_metadata = md\<rparr> (st W3) = Inr s"
    and W': "st W' = s" "balance_of env tok W' = balance_of env tok W3"
    by (auto simp: create_stream_def Let_def bindE_eq_Inr ok_or_eq_Inr checked_add_u64_Some
        require_auth_Inr not_less not_le stream_exists_def mark_nonce_used_def split: if_splits)
  have self: "sender \<noteq> current_contract env" using env(1) auth by (auto simp: env_ok_def)
  note fee = collect_creation_fee_books [OF W2 env(2) self]
  have pay: "balance_of env tok W2 + (if token = tok then amount else 0) \<le> balance_of env tok W3"
    by (rule transfer_in [OF env(2) W3 self])
  have st3: "st W3 = mark_nonce_used sender nonce (st W0)"
    using transfer_st [OF W3] fee(2) by simp
  note frame = unpause_frame [OF W0]
  have base: "books_ok T tok (balance_of env tok W) (st W3)"
    by (rule books_keep [OF books(1)])
      (use books(1) frame in \<open>simp_all add: st3 fees_ok_frame books_ok_def mark_nonce_used_def
         fee_state_def fees_ok_def\<close>)
  note rate = created_rate [OF guards(1) args(1) _ f]
  have d: "0 < d" using guards(2) by simp
  have bal: "balance_of env tok W + (if token = tok then amount else 0) \<le> balance_of env tok W'"
    using fee(1) pay W'(2) frame(3) by (simp add: balance_of_def)
  have "p_streams (st W3) k = None" using fresh st3 by (simp add: mark_nonce_used_def)
  then show ?thesis
    unfolding W'(1) using rate [OF d] guards times args env(1) bal d
    by (intro register_books [OF base books(2) s])
      (auto simp: owed_def live_def env_ok_def intro!: fresh_stream_ok simp: typed_def)
qed

section \<open>Paying a claim\<close>

lemma books_update:
  assumes "books_ok T tok b s" "T \<le> T'" "p_streams s k = Some x"
    and "p_streams s' = (p_streams s)(k \<mapsto> y)" "fee_state s' = fee_state s"
    and "s_id y = s_id x" "stream_ok T' y" "b - owed tok x + owed tok y \<le> b'"
  shows "books_ok T' tok b' s'"
  using books_stream [OF assms(1,3)] assms
  by (intro books_save [OF assms(1,2,4,5)]) simp_all

lemma books_delete:
  assumes "books_ok T tok b s" "T \<le> T'" "p_streams s k = Some x"
    and "p_streams s' = (p_streams s)(k := None)" "fee_state s' = fee_state s"
    and "b - owed tok x \<le> b'"
  shows "books_ok T' tok b' s'"
  using assms by (intro books_remove [OF assms(1,2,4,5)]) simp

lemma save_stream_streams [simp]:
  "p_streams (save_stream y s) = (p_streams s)(s_id y \<mapsto> y)"
  by (simp add: save_stream_def)

lemma fees_ok_save [simp]: "fees_ok (save_stream y s) = fees_ok s"
  by (rule fees_ok_frame) simp

text \<open>
  A claim was paid and the stream is about to be saved as \<open>y\<close>: the books hold for the storage
  with \<open>y\<close> in it.
\<close>

definition claimed :: "stream \<Rightarrow> int \<Rightarrow> nat \<Rightarrow> stream" where
  "claimed x c n =
     x\<lparr>s_total_withdrawn := s_total_withdrawn x + c,
       s_last_withdraw_time := min n (s_end_time x)\<rparr>"

lemma claimed_fields [simp]:
  "s_id (claimed x c n) = s_id x" "s_token (claimed x c n) = s_token x"
  "s_deposit (claimed x c n) = s_deposit x" "s_status (claimed x c n) = s_status x"
  "s_end_time (claimed x c n) = s_end_time x" "live (claimed x c n) = live x"
  "s_sender (claimed x c n) = s_sender x" "s_recipient (claimed x c n) = s_recipient x"
  by (simp_all add: claimed_def)

lemma owed_claimed:
  "live x \<Longrightarrow> owed tok (claimed x c n) = owed tok x - (if s_token x = tok then c else 0)"
  by (simp add: owed_def claimed_def)

lemma claimed_books:
  assumes books: "books_ok T tok b s" "T \<le> T'" "p_streams s k = Some x" "live x"
    and st: "p_streams s' = p_streams s" "fee_state s' = fee_state s"
    and n: "s_last_withdraw_time x \<le> n" "n \<le> T'" "s_status x = Paused \<Longrightarrow> n = s_last_pause_time x"
    and c: "c = 0 \<or> c = s_flow_rate x * int (min n (s_end_time x) - s_last_withdraw_time x)"
    and b: "b - (if s_token x = tok then c else 0) \<le> b'"
  shows "books_ok T' tok b' (save_stream (claimed x c n) s')"
proof -
  from books_stream [OF books(1,3)] have x: "s_id x = k" "stream_ok T x" by simp_all
  have "stream_ok T' (claimed x c n)"
    unfolding claimed_def by (rule claimed_ok [OF x(2) books(4,2) n c])
  moreover have "b - owed tok x + owed tok (claimed x c n) \<le> b'"
    using b by (simp add: owed_claimed [OF books(4)])
  ultimately show ?thesis
    using x st by (intro books_update [OF books(1-3)]) simp_all
qed

lemma compute_claimable_cases:
  assumes "compute_claimable f n cliff e l = Some c"
  shows "c = 0 \<or> c = f * int (min n e - l)"
  using assms by (auto simp: compute_claimable_def Let_def checked_mul_Some split: if_splits)

lemma earned_amount:
  "compute_earned f n e l = Some c \<Longrightarrow> c = f * int (min n e - l)"
  by (auto simp: compute_earned_def Let_def checked_mul_Some)

lemma dust_le_owed:
  assumes "stream_ok T x" "live x"
  shows "dust_of x (s_end_time x - s_start_time x)
       = s_deposit x - s_flow_rate x * int (s_end_time x - s_start_time x)"
    "0 \<le> dust_of x (s_end_time x - s_start_time x)"
    "s_token x = tok \<Longrightarrow> dust_of x (s_end_time x - s_start_time x) \<le> owed tok x"
proof -
  let ?d = "s_end_time x - s_start_time x"
  have f: "funded T x" "typed x" using assms by (auto simp: stream_ok_def)
  have fd: "0 \<le> s_flow_rate x * int ?d" "s_flow_rate x * int ?d \<le> s_deposit x"
    using f(1) by (auto simp: funded_def)
  have m: "in_i128 (s_flow_rate x * int ?d)"
    by (rule in_i128_below [OF fd]) (use f(2) in \<open>simp add: typed_def\<close>)
  have "in_i128 (s_deposit x - s_flow_rate x * int ?d)"
    by (rule in_i128_below [of _ "s_deposit x"]) (use fd f(2) in \<open>simp_all add: typed_def\<close>)
  then show d: "dust_of x ?d = s_deposit x - s_flow_rate x * int ?d"
    using m by (simp add: dust_of_def saturating_sub_i128_def saturating_mul_i128_def)
  show "0 \<le> dust_of x ?d" using d fd by simp
  have "s_flow_rate x * int (s_last_withdraw_time x - s_start_time x) \<le> s_flow_rate x * int ?d"
    using f(1) by (intro flow_mono) (auto simp: funded_def)
  moreover have "s_total_withdrawn x \<le> s_flow_rate x * int (s_last_withdraw_time x - s_start_time x)"
    using f(1) unfolding funded_def by blast
  ultimately have "s_total_withdrawn x \<le> s_flow_rate x * int ?d" by (rule order_trans [rotated])
  then show "s_token x = tok \<Longrightarrow> dust_of x ?d \<le> owed tok x"
    using d assms(2) by (simp add: owed_def)
qed

section \<open>Finishing a stream whose end has passed\<close>

text \<open>
  The stream \<open>y\<close> to finish is not saved yet; the hypothesis is that the books hold for the
  storage with \<open>y\<close> in it (\<open>claimed_books\<close> provides it).
\<close>

lemma renew_stream_books:
  assumes op: "renew_stream env y (s_end_time y - s_start_time y) W = Inr W'"
    and books: "books_ok T tok (balance_of env tok W) (save_stream y (st W))"
    and y: "live y" "s_status y = Active" "s_end_time y \<le> T"
    and env: "env_ok env" "honest_token env tok"
  shows "books_ok T tok (balance_of env tok W') (st W')"
proof -
  let ?d = "s_end_time y - s_start_time y"
  let ?z = "y\<lparr>s_start_time := s_end_time y, s_end_time := s_end_time y + ?d,
              s_last_withdraw_time := s_end_time y, s_total_withdrawn := 0\<rparr>"
  from op obtain W1 where auth: "authorizes env (s_sender y)"
    and W1: "transfer env (s_token y) (s_sender y) (current_contract env) (s_deposit y) W
        = (Inr W1 :: (stream_error, _) outcome)"
    and le: "s_end_time y + ?d \<le> u64_max" and W': "W' = in_store (save_stream ?z) W1"
    by (auto simp: renew_stream_def bindE_eq_Inr ok_or_eq_Inr checked_add_u64_Some
        require_auth_Inr)
  have self: "s_sender y \<noteq> current_contract env" using env(1) auth by (auto simp: env_ok_def)
  note pay = transfer_in [OF env(2) W1 self]
  have ok: "stream_ok T y" using books_stream [OF books, of "s_id y"] by simp
  then have f: "funded T y" and ty: "typed y" using y by (auto simp: stream_ok_def)
  have "stream_ok T ?z"
    using f ty y le by (auto simp: stream_ok_def typed_def funded_def)
  moreover have "balance_of env tok W - owed tok y + owed tok ?z \<le> balance_of env tok W'"
    using pay owed_nonneg [OF ok, of tok] y by (auto simp: W' owed_def live_def split: if_splits)
  ultimately show ?thesis
    using transfer_st [OF W1]
    by (intro books_update [OF books order_refl, of "s_id y" y]) (simp_all add: W')
qed

text \<open>Paying the dust and then completing or removing the stream.\<close>

lemma pay_dust_books:
  assumes pay: "pay_if_positive env (s_token y) t (dust_of y (s_end_time y - s_start_time y)) W
      = Inr W1"
    and books: "books_ok T tok (balance_of env tok W) (save_stream y (st W))" and y: "live y"
    and env: "honest_token env tok"
  shows "balance_of env tok W - owed tok y \<le> balance_of env tok W1" "st W1 = st W"
proof -
  have ok: "stream_ok T y" using books_stream [OF books, of "s_id y"] by simp
  show "st W1 = st W" by (rule pay_if_positive_st [OF pay])
  from pay_if_positive_out [OF env pay] dust_le_owed(2) [OF ok y] dust_le_owed(3) [OF ok y]
    owed_nonneg [OF ok, of tok]
  show "balance_of env tok W - owed tok y \<le> balance_of env tok W1" by (auto split: if_splits)
qed

lemma completed_books:
  assumes "books_ok T tok b (save_stream y s)" "b - owed tok y \<le> b'"
  shows "books_ok T tok b' (save_stream (y\<lparr>s_status := Completed\<rparr>) s)"
proof -
  have "typed y" using books_stream [OF assms(1), of "s_id y"] by (simp add: stream_ok_def)
  then have "stream_ok T (y\<lparr>s_status := Completed\<rparr>)"
    by (simp add: stream_ok_def typed_def live_def)
  moreover have "owed tok (y\<lparr>s_status := Completed\<rparr>) = 0" by (simp add: live_def)
  then have "b - owed tok y + owed tok (y\<lparr>s_status := Completed\<rparr>) \<le> b'"
    using assms(2) by linarith
  ultimately show ?thesis
    by (intro books_update [OF assms(1) order_refl, of "s_id y" y]) simp_all
qed

lemma closed_books:
  assumes "books_ok T tok b (save_stream y s)" "b - owed tok y \<le> b'"
  shows "books_ok T tok b' (close_stream (s_id y) x s)"
  using assms(2) by (intro books_delete [OF assms(1) order_refl, of "s_id y" y]) simp_all

lemma withdraw_finish_cases:
  assumes "withdraw_finish env k y W = Inr W'"
  obtains
    (failed) W1 where "pay_if_positive env (s_token y) (s_sender y)
          (dust_of y (s_end_time y - s_start_time y))
          (publish (ev_auto_renew_failed k (s_sender y) (s_deposit y)) W) = Inr W1"
      and "W' = in_store (save_stream (y\<lparr>s_status := Completed\<rparr>))
        (publish (ev_stream_completed k) W1)"
  | (renewed) "renew_stream env y (s_end_time y - s_start_time y) W = Inr W'"
  | (closed) W1 where "pay_if_positive env (s_token y) (s_sender y)
          (dust_of y (s_end_time y - s_start_time y)) W = Inr W1"
      and "W' = in_store (close_stream k y) (publish (ev_stream_completed k) W1)"
proof (cases "s_auto_renew y")
  case True
  show thesis
  proof (cases "token_balance env (s_token y) (s_sender y) (ext W) < s_deposit y")
    case low: True
    with True assms that(1) show thesis
      by (auto simp: withdraw_finish_def Let_def bindE_eq_Inr plain_eq_Inr)
  next
    case False
    with True assms that(2) show thesis
      by (auto simp: withdraw_finish_def Let_def bindE_eq_Inr plain_eq_Inr)
  qed
next
  case False
  with assms that(3) show thesis
    by (auto simp: withdraw_finish_def Let_def bindE_eq_Inr plain_eq_Inr)
qed

lemma withdraw_finish_books:
  assumes op: "withdraw_finish env k y W = Inr W'" and k: "s_id y = k"
    and books: "books_ok T tok (balance_of env tok W) (save_stream y (st W))"
    and y: "s_status y = Active" "s_end_time y \<le> T"
    and env: "env_ok env" "honest_token env tok"
  shows "books_ok T tok (balance_of env tok W') (st W')"
proof -
  have live: "live y" using y by (simp add: live_def)
  note dust = pay_dust_books [OF _ books live env(2)]
  have if_failed: "books_ok T tok (balance_of env tok W') (st W')"
    if "pay_if_positive env (s_token y) (s_sender y)
          (dust_of y (s_end_time y - s_start_time y))
          (publish (ev_auto_renew_failed k (s_sender y) (s_deposit y)) W) = Inr W1"
      and "W' = in_store (save_stream (y\<lparr>s_status := Completed\<rparr>))
        (publish (ev_stream_completed k) W1)" for W1
  proof -
    let ?W = "publish (ev_auto_renew_failed k (s_sender y) (s_deposit y)) W"
    have "books_ok T tok (balance_of env tok ?W) (save_stream y (st ?W))"
      using books by simp
    from pay_dust_books [OF that(1) this live env(2)] that(2) show ?thesis
      using completed_books [OF books] by simp
  qed
  have if_closed: "books_ok T tok (balance_of env tok W') (st W')"
    if "pay_if_positive env (s_token y) (s_sender y)
          (dust_of y (s_end_time y - s_start_time y)) W = Inr W1"
      and "W' = in_store (close_stream k y) (publish (ev_stream_completed k) W1)" for W1
    using dust [OF that(1)] that(2) closed_books [OF books] k by simp
  from op show ?thesis
  proof (cases rule: withdraw_finish_cases)
    case (failed W1)
    then show ?thesis by (rule if_failed)
  next
    case renewed
    then show ?thesis by (rule renew_stream_books [OF _ books live y env])
  next
    case (closed W1)
    then show ?thesis by (rule if_closed)
  qed
qed

section \<open>Withdrawal\<close>

lemma withdraw_payout_out:
  assumes op: "withdraw_payout env k r x c W = Inr (y, W')"
    and "honest_token env tok" "fees_ok (st W)" "0 < c"
  shows "y = x\<lparr>s_total_withdrawn := s_total_withdrawn x + c\<rparr>" "st W' = st W"
    "balance_of env tok W - (if s_token x = tok then c else 0) \<le> balance_of env tok W'"
    "s_total_withdrawn x + c \<le> s_deposit x"
proof -
  from op obtain ra W1 where pay: "pay_claim env k x r c W = Inr (ra, W1)"
    and y: "y = x\<lparr>s_total_withdrawn := s_total_withdrawn x + c\<rparr>"
    and le: "s_total_withdrawn x + c \<le> s_deposit x"
    and W': "W' = try_invoke env r ''on_stream_withdraw'' [VU64 k, VI128 ra] W1"
    by (auto simp: withdraw_payout_def Let_def bindE_eq_Inr ok_or_eq_Inr checked_add_Some
        split: if_splits)
  note out = pay_claim_out [OF assms(2-4) pay]
  show "y = x\<lparr>s_total_withdrawn := s_total_withdrawn x + c\<rparr>" by (rule y)
  show "s_total_withdrawn x + c \<le> s_deposit x" by (rule le)
  show "st W' = st W" using out(2) by (simp add: W')
  have "balance_of env tok W1 \<le> balance_of env tok W'"
    unfolding W' by (rule try_invoke_balance [OF assms(2)])
  with out(1) show "balance_of env tok W - (if s_token x = tok then c else 0)
      \<le> balance_of env tok W'" by linarith
qed

lemma claim_time:
  assumes "books_ok T tok b s" "p_streams s k = Some x" "live x" "T \<le> T'"
  shows "s_last_withdraw_time x \<le> T'"
    and "s_status x = Paused \<Longrightarrow> s_last_withdraw_time x \<le> s_last_pause_time x \<and>
           s_last_pause_time x \<le> T'"
  using books_stream [OF assms(1,2)] assms(3,4) by (auto simp: stream_ok_def funded_def)

lemma unpaused_books:
  assumes "when_not_paused env W0 = Inr W" "books_ok T tok (balance_of env tok W0) (st W0)"
  shows "books_ok T tok (balance_of env tok W) (st W)" "fees_ok (st W)"
proof -
  note frame = unpause_frame [OF assms(1)]
  show "fees_ok (st W)"
    using assms(2) frame(2) by (simp add: books_ok_def fees_ok_frame [OF frame(2)])
  with frame show "books_ok T tok (balance_of env tok W) (st W)"
    using assms(2) by (simp add: books_ok_def balance_of_def)
qed

lemma withdraw_books:
  assumes op: "withdraw env k r W0 = Inr (u, W')"
    and books0: "books_ok T tok (balance_of env tok W0) (st W0)" "T \<le> ledger_timestamp env"
    and env: "env_ok env" "honest_token env tok"
  shows "books_ok (ledger_timestamp env) tok (balance_of env tok W') (st W')"
proof -
  let ?now = "ledger_timestamp env"
  from op obtain W x c y W1 W2 where
    W: "when_not_paused env W0 = Inr W" and x: "p_streams (st W) k = Some x"
    and active: "s_status x = Active"
    and c: "compute_claimable (s_flow_rate x) ?now (s_cliff_time x) (s_end_time x)
        (s_last_withdraw_time x) = Some c"
    and pay: "(if 0 < c then withdraw_payout env k r x c W else Inr (x, W)) = Inr (y, W1)"
    and fin: "(if s_end_time (y\<lparr>s_last_withdraw_time := min ?now (s_end_time x)\<rparr>) \<le> ?now
        then withdraw_finish env k (y\<lparr>s_last_withdraw_time := min ?now (s_end_time x)\<rparr>) W1
        else Inr (in_store (save_stream (y\<lparr>s_last_withdraw_time := min ?now (s_end_time x)\<rparr>))
          W1)) = Inr W2"
    and W': "st W' = st W2" "balance_of env tok W' = balance_of env tok W2"
    by (auto simp: withdraw_def Let_def bindE_eq_Inr ok_or_eq_Inr find_stream_Inr if_Inl_eq_Inr)
  note books = unpaused_books [OF W books0(1)]
  have live: "live x" using active by (simp add: live_def)
  note cc = compute_claimable_cases [OF c]
  let ?c = "max 0 c"
  have y: "y\<lparr>s_last_withdraw_time := min ?now (s_end_time x)\<rparr> = claimed x ?c ?now"
    and out: "st W1 = st W"
      "balance_of env tok W - (if s_token x = tok then ?c else 0) \<le> balance_of env tok W1"
    using pay withdraw_payout_out [OF _ env(2) books(2), of k r x c y W1]
    by (auto simp: claimed_def split: if_splits)
  have "?c = 0 \<or> ?c = s_flow_rate x * int (min ?now (s_end_time x) - s_last_withdraw_time x)"
    using cc by (auto simp: max_def)
  then have saved: "books_ok ?now tok (balance_of env tok W1)
      (save_stream (claimed x ?c ?now) (st W1))"
    using active out claim_time [OF books(1) x live books0(2)]
    by (intro claimed_books [OF books(1) books0(2) x live]) simp_all
  have id: "s_id x = k" using books_stream [OF books(1) x] by simp
  show ?thesis
  proof (cases "s_end_time x \<le> ?now")
    case True
    with fin [unfolded y] have "withdraw_finish env k (claimed x ?c ?now) W1 = Inr W2" by simp
    from withdraw_finish_books [OF this _ saved _ _ env] True active id show ?thesis
      by (simp add: W')
  next
    case False
    with fin [unfolded y] have "W2 = in_store (save_stream (claimed x ?c ?now)) W1" by simp
    with saved show ?thesis by (simp add: W')
  qed
qed

end
