(* ===== verification/Solvency_Cancel.thy ===== *)
theory Solvency_Cancel
  imports Solvency
begin

text \<open>
  The instructions that end a stream keep the books: cancelling by the sender, the recipient or
  in a batch pays out exactly what the stream is owed; a partial cancellation splits it between
  the payments and the new stream.
\<close>

section \<open>Settling a stream\<close>

text \<open>
  Recipient's part and sender's refund add up to the deposit not yet withdrawn, and neither is
  negative.
\<close>

lemma settlement:
  assumes "stream_ok T x" "live x"
    and c: "c = 0 \<or> c = s_flow_rate x * int (min n (s_end_time x) - s_last_withdraw_time x)"
  shows "refund_of x c = s_deposit x - s_total_withdrawn x - c"
    and "0 \<le> c" "0 \<le> refund_of x c"
proof -
  have f: "funded T x" "typed x" using assms by (auto simp: stream_ok_def)
  note b = claim_bounds [OF f(1), of n]
  have tw: "0 \<le> s_total_withdrawn x" "s_total_withdrawn x \<le> s_deposit x"
    using f(1) funded_owed_nonneg [OF f(1)] by (auto simp: funded_def)
  have c': "0 \<le> c" "s_total_withdrawn x + c \<le> s_deposit x" using c b(1,3) tw by auto
  have d: "in_i128 (s_deposit x)" using f(2) by (simp add: typed_def)
  have "in_i128 (s_deposit x - s_total_withdrawn x)"
    by (rule in_i128_below [OF _ _ d]) (use tw in simp_all)
  moreover have "in_i128 (s_deposit x - s_total_withdrawn x - c)"
    by (rule in_i128_below [OF _ _ d]) (use tw c' in simp_all)
  ultimately show r: "refund_of x c = s_deposit x - s_total_withdrawn x - c"
    by (simp add: refund_of_def saturating_sub_i128_def)
  show "0 \<le> c" by (rule c')
  show "0 \<le> refund_of x c" using r c' by simp
qed

lemma settlement_out:
  assumes ok: "stream_ok T x" "live x"
    and c: "c = 0 \<or> c = s_flow_rate x * int (min n (s_end_time x) - s_last_withdraw_time x)"
    and pay: "pay_if_positive env (s_token x) r c W = Inr W1"
      "pay_if_positive env (s_token x) t (refund_of x c) W1 = Inr W2"
    and env: "honest_token env tok"
  shows "balance_of env tok W - owed tok x \<le> balance_of env tok W2" "st W2 = st W"
proof -
  note s = settlement [OF ok c]
  show "st W2 = st W" using pay_if_positive_st [OF pay(1)] pay_if_positive_st [OF pay(2)] by simp
  show "balance_of env tok W - owed tok x \<le> balance_of env tok W2"
    using pay_if_positive_out [OF env pay(1)] pay_if_positive_out [OF env pay(2)] s ok(2)
    by (auto simp: owed_def split: if_splits)
qed

lemma settled_books:
  assumes books: "books_ok T tok (balance_of env tok W) (st W)" "T \<le> T'"
    "p_streams (st W) k = Some x" "live x"
    and c: "c = 0 \<or> c = s_flow_rate x * int (min n (s_end_time x) - s_last_withdraw_time x)"
    and pay: "pay_if_positive env (s_token x) r c W = Inr W1"
      "pay_if_positive env (s_token x) t (refund_of x c) W1 = Inr W2"
    and env: "honest_token env tok"
  shows "books_ok T' tok (balance_of env tok W2) (close_stream k x (st W2))"
proof -
  have ok: "stream_ok T x" using books_stream [OF books(1,3)] by simp
  note out = settlement_out [OF ok books(4) c pay env]
  show ?thesis
    by (rule books_delete [OF books(1-3)]) (use out in simp_all)
qed

section \<open>Cancellation and termination\<close>

lemma cancel_stream_books:
  assumes op: "cancel_stream env k a W = Inr (u, W')"
    and books: "books_ok T tok (balance_of env tok W) (st W)" "T \<le> ledger_timestamp env"
    and env: "env_ok env" "honest_token env tok"
  shows "books_ok (ledger_timestamp env) tok (balance_of env tok W') (st W')"
proof -
  from op obtain x c W1 W2 where x: "p_streams (st W) k = Some x" "live x"
    and c: "compute_earned (s_flow_rate x) (stream_now env x) (s_end_time x)
        (s_last_withdraw_time x) = Some c"
    and pay: "pay_if_positive env (s_token x) (s_recipient x) c W = Inr W1"
      "pay_if_positive env (s_token x) (s_sender x) (refund_of x c) W1 = Inr W2"
    and W': "st W' = close_stream k x (st W2)" "balance_of env tok W' = balance_of env tok W2"
    by (auto simp: cancel_stream_def Let_def bindE_eq_Inr ok_or_eq_Inr find_stream_Inr
        if_Inl_eq_Inr)
  show ?thesis
    unfolding W' using earned_amount [OF c]
    by (intro settled_books [OF books x _ pay env(2)]) (rule disjI2)
qed

lemma recipient_terminate_books:
  assumes op: "recipient_terminate env k a W0 = Inr (u, W')"
    and books0: "books_ok T tok (balance_of env tok W0) (st W0)" "T \<le> ledger_timestamp env"
    and env: "env_ok env" "honest_token env tok"
  shows "books_ok (ledger_timestamp env) tok (balance_of env tok W') (st W')"
proof -
  from op obtain W x c W1 W2 where W: "when_not_paused env W0 = Inr W"
    and x: "p_streams (st W) k = Some x" "live x"
    and c: "compute_claimable (s_flow_rate x) (stream_now env x) (s_cliff_time x)
        (s_end_time x) (s_last_withdraw_time x) = Some c"
    and pay: "pay_if_positive env (s_token x) a c W = Inr W1"
      "pay_if_positive env (s_token x) (s_sender x) (refund_of x c) W1 = Inr W2"
    and W': "st W' = close_stream k x (st W2)" "balance_of env tok W' = balance_of env tok W2"
    by (auto simp: recipient_terminate_def Let_def bindE_eq_Inr ok_or_eq_Inr find_stream_Inr
        if_Inl_eq_Inr)
  note books = unpaused_books [OF W books0(1)]
  show ?thesis
    unfolding W' by (rule settled_books [OF books(1) books0(2) x compute_claimable_cases [OF c]
          pay env(2)])
qed

section \<open>Partial cancellation\<close>

lemma cancelled_books:
  assumes books: "books_ok T tok b s" "T \<le> T'" and x: "p_streams s k = Some x"
  shows "books_ok T' tok (b - owed tok x) (save_stream (x\<lparr>s_status := Cancelled\<rparr>) s)"
proof -
  let ?y = "x\<lparr>s_status := Cancelled\<rparr>"
  have id: "s_id x = k" and ok: "stream_ok T x" using books_stream [OF books(1) x] by simp_all
  have "stream_ok T' ?y" using ok by (simp add: stream_ok_def typed_def live_def)
  moreover have "owed tok ?y = 0" by (simp add: live_def)
  ultimately show ?thesis
    by (intro books_update [OF books x, where y = ?y]) (simp_all add: id)
qed

text \<open>The parts of a partial cancellation add up.\<close>

lemma partial_sum:
  assumes ok: "stream_ok T x" "live x" and n: "s_last_withdraw_time x \<le> n"
    and total: "in_i128 (s_flow_rate x * int (n - s_start_time x))"
    and d: "d = saturating_sub_i128 (s_deposit x) (s_flow_rate x * int (n - s_start_time x)) - a"
  shows "s_flow_rate x * int (n - s_last_withdraw_time x) + a + d
           = s_deposit x - s_flow_rate x * int (s_last_withdraw_time x - s_start_time x)"
proof -
  let ?f = "s_flow_rate x"
  have f: "funded T x" "typed x" using ok by (auto simp: stream_ok_def)
  have fl: "0 < ?f" "s_start_time x \<le> s_last_withdraw_time x"
    using f(1) unfolding funded_def by blast+
  have split: "?f * int (s_last_withdraw_time x - s_start_time x)
      + ?f * int (n - s_last_withdraw_time x) = ?f * int (n - s_start_time x)"
    by (rule flow_split [OF fl(2) n])
  have d0: "0 \<le> s_deposit x" using funded_owed_nonneg [OF f(1)] f(1) unfolding funded_def by simp
  have t0: "0 \<le> ?f * int (n - s_start_time x)" using fl(1) by simp
  have "saturating_sub_i128 (s_deposit x) (?f * int (n - s_start_time x))
      = s_deposit x - ?f * int (n - s_start_time x)"
    using d0 t0 total f(2) by (simp add: saturating_sub_i128_def clamp_i128_sub typed_def)
  with split d show ?thesis by linarith
qed

text \<open>
  The amounts of a partial cancellation: earned part, refund and new deposit together are at
  most what the stream is owed, and the new stream's rate and duration fit its deposit.
\<close>

lemma partial_amounts:
  assumes ok: "stream_ok T x" "live x" and n: "s_last_withdraw_time x \<le> n"
    and total: "in_i128 (s_flow_rate x * int (n - s_start_time x))"
    and cancel: "0 < a"
      "a < saturating_sub_i128 (s_deposit x) (s_flow_rate x * int (n - s_start_time x))"
    and new: "d = saturating_sub_i128 (s_deposit x) (s_flow_rate x * int (n - s_start_time x)) - a"
      "s_flow_rate x \<le> d"
  shows "s_flow_rate x * int (n - s_last_withdraw_time x) + a + d
           \<le> s_deposit x - s_total_withdrawn x"
    and "in_i128 d" "0 < d" "0 \<le> s_flow_rate x * int (n - s_last_withdraw_time x)"
    and "s_flow_rate x * (d div s_flow_rate x) \<le> d"
proof -
  let ?f = "s_flow_rate x"
  have f: "funded T x" "typed x" using ok by (auto simp: stream_ok_def)
  have fl: "0 < ?f" "s_total_withdrawn x \<le> ?f * int (s_last_withdraw_time x - s_start_time x)"
    using f(1) unfolding funded_def by blast+
  have fl: "0 < ?f" "s_total_withdrawn x \<le> ?f * int (s_last_withdraw_time x - s_start_time x)"
    "0 \<le> ?f * int (s_last_withdraw_time x - s_start_time x)"
    using fl by simp_all
  note sum = partial_sum [OF ok n total new(1)]
  show "?f * int (n - s_last_withdraw_time x) + a + d \<le> s_deposit x - s_total_withdrawn x"
    using sum fl(2) by linarith
  show d: "0 < d" using new(2) fl(1) by simp
  show e: "0 \<le> ?f * int (n - s_last_withdraw_time x)" using fl(1) by simp
  have "d \<le> s_deposit x" using sum cancel(1) fl(3) e by linarith
  then show "in_i128 d"
    using d f(2) by (intro in_i128_below [of d "s_deposit x"]) (simp_all add: typed_def)
  show "?f * (d div ?f) \<le> d"
    using mult_div_mod_eq [of ?f d] pos_mod_sign [OF fl(1), of d] by linarith
qed

text \<open>The stream a partial cancellation continues with.\<close>

definition continued :: "stream \<Rightarrow> nat \<Rightarrow> nat \<Rightarrow> int \<Rightarrow> int \<Rightarrow> stream" where
  "continued x k n d m =
     \<lparr>s_id = k, s_sender = s_sender x, s_recipient = s_recipient x,
      s_token = s_token x, s_deposit = d, s_flow_rate = s_flow_rate x, s_start_time = n,
      s_cliff_time = n, s_lock_until = n, s_end_time = n + nat m, s_last_withdraw_time = n,
      s_status = Active, s_auto_renew = s_auto_renew x,
      s_allow_recipient_termination = s_allow_recipient_termination x,
      s_last_pause_time = 0, s_total_withdrawn = 0, s_metadata = s_metadata x\<rparr>"

lemma continued_fields [simp]:
  "s_id (continued x k n d m) = k" "s_token (continued x k n d m) = s_token x"
  "s_deposit (continued x k n d m) = d" "s_flow_rate (continued x k n d m) = s_flow_rate x"
  "s_start_time (continued x k n d m) = n" "s_end_time (continued x k n d m) = n + nat m"
  "s_last_withdraw_time (continued x k n d m) = n" "s_status (continued x k n d m) = Active"
  "s_total_withdrawn (continued x k n d m) = 0" "live (continued x k n d m)"
  by (simp_all add: continued_def live_def)

lemma partial_cancel_inv:
  assumes "partial_cancel_stream env k caller a W = Inr (k', W')"
  obtains x n d m W1 W2 s where "p_streams (st W) k = Some x" "live x"
    "n = stream_now env x"
    "in_i128 (s_flow_rate x * int (n - s_start_time x))"
    "0 < a" "a < saturating_sub_i128 (s_deposit x) (s_flow_rate x * int (n - s_start_time x))"
    "d = saturating_sub_i128 (s_deposit x) (s_flow_rate x * int (n - s_start_time x)) - a"
    "s_flow_rate x \<le> d"
    "div_i128 d (s_flow_rate x) = (Inr m :: (stream_error, int) outcome)"
    "nat m \<le> u64_max" "n + nat m \<le> u64_max"
    "pay_if_positive env (s_token x) (s_recipient x)
        (s_flow_rate x * int (n - s_last_withdraw_time x)) W = Inr W1"
    "transfer env (s_token x) (current_contract env) (s_sender x) a W1
        = (Inr W2 :: (stream_error, _) outcome)"
    "register_stream (continued x k' n d m)
        (save_stream (x\<lparr>s_status := Cancelled\<rparr>) (st W2)) = Inr s"
    "st W' = s" "ext W' = ext W2"
    "k' = derive_stream_id env (s_sender x) (s_recipient x) n k"
  using assms
  by (auto simp: partial_cancel_stream_def Let_def bindE_eq_Inr ok_or_eq_Inr find_stream_Inr
      if_Inl_eq_Inr checked_flow_amount_def checked_mul_Some plain_eq_Inr
      checked_add_u64_Some u64_try_from_Some not_less not_le continued_def)

text \<open>
  The same with a well-formed stream: its parts are positive and add up to what is left of it,
  and the new stream lasts the whole seconds its deposit pays for.
\<close>

lemma partial_cancel_at:
  assumes op: "partial_cancel_stream env k caller a W = Inr (k', W')"
    and books: "books_ok T tok b (st W)" "T \<le> ledger_timestamp env"
  obtains x n f e d W1 W2 where "p_streams (st W) k = Some x" "live x" "n = stream_now env x"
    "f = s_flow_rate x" "e = f * int (n - s_last_withdraw_time x)" "0 < f"
    "s_last_withdraw_time x \<le> n" "n \<le> ledger_timestamp env" "0 < a" "0 < d" "0 \<le> e" "in_i128 d"
    "e + a + d = s_deposit x - f * int (s_last_withdraw_time x - s_start_time x)"
    "e + a + d \<le> s_deposit x - s_total_withdrawn x"
    "0 \<le> d div f" "f * (d div f) \<le> d" "n + nat (d div f) \<le> u64_max"
    "pay_if_positive env (s_token x) (s_recipient x) e W = Inr W1"
    "transfer env (s_token x) (current_contract env) (s_sender x) a W1
      = (Inr W2 :: (stream_error, _) outcome)"
    "register_stream (continued x k' n d (d div f)) (save_stream (x\<lparr>s_status := Cancelled\<rparr>) (st W))
      = Inr (st W')"
    "ext W' = ext W2" "k' = derive_stream_id env (s_sender x) (s_recipient x) n k"
proof -
  obtain x n f d m W1 W2 s where x: "p_streams (st W) k = Some x" and live: "live x"
    and n_def: "n = stream_now env x" and f_def: "f = s_flow_rate x" and total: "in_i128 (f * int (n - s_start_time x))"
    and a: "0 < a" "a < saturating_sub_i128 (s_deposit x) (f * int (n - s_start_time x))"
    and d: "d = saturating_sub_i128 (s_deposit x) (f * int (n - s_start_time x)) - a" "f \<le> d"
    and m: "div_i128 d f = (Inr m :: (stream_error, int) outcome)" "n + nat m \<le> u64_max"
    and W1: "pay_if_positive env (s_token x) (s_recipient x)
        (f * int (n - s_last_withdraw_time x)) W = Inr W1"
    and W2: "transfer env (s_token x) (current_contract env) (s_sender x) a W1
        = (Inr W2 :: (stream_error, _) outcome)"
    and s: "register_stream (continued x k' n d m)
        (save_stream (x\<lparr>s_status := Cancelled\<rparr>) (st W2)) = Inr s"
    and W': "st W' = s" "ext W' = ext W2"
    and k': "k' = derive_stream_id env (s_sender x) (s_recipient x) n k"
    using op by (elim partial_cancel_inv) blast
  have ok: "stream_ok T x" using books_stream [OF books(1) x] by simp
  have f0: "0 < f" using ok live by (simp add: f_def stream_ok_def funded_def)
  have nb: "s_last_withdraw_time x \<le> n" "n \<le> ledger_timestamp env"
    using claim_time [OF books(1) x live books(2)] by (auto simp: n_def stream_now_def)
  note am = partial_amounts [OF ok live nb(1) total [unfolded f_def] a [unfolded f_def]
      d [unfolded f_def], folded f_def]
  note sum = partial_sum [OF ok live nb(1) total [unfolded f_def] d(1) [unfolded f_def], folded f_def]
  have m_eq: "m = d div f" using m(1) am(3) f0 by (simp add: div_i128_nonneg)
  have m0: "0 \<le> d div f" using am(3) f0 by (simp add: pos_imp_zdiv_nonneg_iff)
  have st: "st W2 = st W" using pay_if_positive_st [OF W1] transfer_st [OF W2] by simp
  show thesis
    by (rule that [OF x live n_def f_def refl f0 nb a(1) am(3,4,2) sum am(1) m0 am(5) m(2) [unfolded m_eq] W1 W2
          s [unfolded st m_eq, folded W'(1)] W'(2) k'])
qed

lemma partial_cancel_stream_books:
  assumes op: "partial_cancel_stream env k caller a W = Inr (k', W')"
    and books: "books_ok T tok (balance_of env tok W) (st W)" "T \<le> ledger_timestamp env"
    and env: "env_ok env" "honest_token env tok"
  shows "books_ok (ledger_timestamp env) tok (balance_of env tok W') (st W')"
proof -
  let ?now = "ledger_timestamp env"
  obtain x n f e d W1 W2 where x: "p_streams (st W) k = Some x" and live: "live x"
    and f: "f = s_flow_rate x" "0 < f" and nb: "n \<le> ?now"
    and am: "0 < a" "0 < d" "0 \<le> e" "in_i128 d" "e + a + d \<le> s_deposit x - s_total_withdrawn x"
    and m: "0 \<le> d div f" "f * (d div f) \<le> d" "n + nat (d div f) \<le> u64_max"
    and W1: "pay_if_positive env (s_token x) (s_recipient x) e W = Inr W1"
    and W2: "transfer env (s_token x) (current_contract env) (s_sender x) a W1
      = (Inr W2 :: (stream_error, _) outcome)"
    and s: "register_stream (continued x k' n d (d div f))
        (save_stream (x\<lparr>s_status := Cancelled\<rparr>) (st W)) = Inr (st W')"
      (is "register_stream ?z ?s3 = _")
    and ext: "ext W' = ext W2"
    by (rule partial_cancel_at [OF op books]) blast
  have ok: "stream_ok T x" using books_stream [OF books(1) x] by simp
  have bal: "balance_of env tok W - owed tok x + (if s_token x = tok then d else 0)
      \<le> balance_of env tok W'"
    using pay_if_positive_out [OF env(2) W1] transfer_out [OF env(2) W2] ext am live
    by (auto simp: owed_def balance_of_def split: if_splits)
  have base: "books_ok ?now tok (balance_of env tok W - owed tok x) ?s3"
    by (rule cancelled_books [OF books x])
  moreover have "stream_ok ?now ?z"
    using ok nb m am f env(1)
    by (intro fresh_stream_ok) (auto simp: stream_ok_def typed_def env_ok_def continued_def)
  moreover have "owed tok ?z = (if s_token x = tok then d else 0)"
    by (simp add: owed_def)
  moreover have "0 \<le> value_at (owed tok) (p_streams ?s3) k'"
    by (rule books_value_nonneg [OF base])
  ultimately show ?thesis
    using bal register_stream_streams [OF s]
    by (intro books_save [OF base order_refl _ register_stream_fee_state [OF s], of k' ?z]) simp_all
qed

section \<open>Archiving\<close>

lemma delegate_streams [simp]:
  "p_streams (remove_delegate k s) = p_streams s"
  "p_streams (set_delegate k a s) = p_streams s"
  by (simp_all add: remove_delegate_def set_delegate_def)

lemma archive_stream_books:
  assumes op: "archive_stream env k caller W = Inr (u, W')"
    and books: "books_ok T tok (balance_of env tok W) (st W)" "T \<le> ledger_timestamp env"
  shows "books_ok (ledger_timestamp env) tok (balance_of env tok W') (st W')"
proof -
  from op obtain x where x: "p_streams (st W) k = Some x"
    and W': "p_streams (st W') = (p_streams (st W))(k := None)"
      "fee_state (st W') = fee_state (st W)" "balance_of env tok W' = balance_of env tok W"
    by (auto simp: archive_stream_def Let_def bindE_eq_Inr find_stream_Inr if_Inl_eq_Inr
        split: if_splits)
  have "0 \<le> owed tok x" using books_stream [OF books(1) x] by (blast intro: owed_nonneg)
  then show ?thesis
    by (intro books_delete [OF books x W'(1,2)]) (simp add: W'(3))
qed

end
