(* ===== verification/Solvency_Manage.thy ===== *)
theory Solvency_Manage
  imports Solvency_Cancel
begin

text \<open>
  Transferring, topping up, pausing and resuming keep the books.
\<close>

section \<open>Saving a changed stream\<close>

lemma owed_funds:
  "live x \<Longrightarrow> s_token y = s_token x \<Longrightarrow> s_deposit y = s_deposit x + a \<Longrightarrow>
     s_total_withdrawn y = s_total_withdrawn x \<Longrightarrow> live y \<Longrightarrow>
     owed tok y = owed tok x + (if s_token x = tok then a else 0)"
  by (simp add: owed_def)

lemma index_by_recipient_frame:
  assumes "index_by_recipient a k s = (Inr s' :: (stream_error, _) outcome)"
  shows "p_streams s' = p_streams s" "fee_state s' = fee_state s"
  using assms by (auto simp: outcome fee_state_def)

lemma settle_before_transfer_cases:
  assumes "settle_before_transfer env k a x n W = Inr (y, W1)"
  obtains (unchanged) "y = x" "W1 = W"
  | (paid) c r W2 where
      "compute_claimable (s_flow_rate x) n (s_cliff_time x) (s_end_time x)
         (s_last_withdraw_time x) = Some c" "0 < c"
      "pay_claim env k x a c W = Inr (r, W2)" "y = claimed x c n"
      "W1 = publish (ev_stream_withdrawn k a c n) W2"
proof (cases "s_lock_until x \<le> n \<and> s_cliff_time x \<le> n")
  case True
  with assms obtain c where
    c: "compute_claimable (s_flow_rate x) n (s_cliff_time x) (s_end_time x)
         (s_last_withdraw_time x) = Some c"
    by (auto simp: settle_before_transfer_def Let_def bindE_eq_Inr ok_or_eq_Inr)
  show thesis
  proof (cases "0 < c")
    case pos: True
    from assms True c pos obtain r W2 where "pay_claim env k x a c W = Inr (r, W2)"
      "y = claimed x c n" "W1 = publish (ev_stream_withdrawn k a c n) W2"
      by (auto simp: settle_before_transfer_def Let_def bindE_eq_Inr checked_add_Some
          ok_or_eq_Inr claimed_def)
    then show thesis by (rule paid [OF c pos])
  next
    case False
    with assms True c unchanged show thesis
      by (simp add: settle_before_transfer_def Let_def)
  qed
next
  case False
  with assms unchanged show thesis by (simp add: settle_before_transfer_def)
qed

lemma transfer_recipient_books:
  assumes op: "transfer_recipient env k a b W0 = Inr (u, W')"
    and books0: "books_ok T tok (balance_of env tok W0) (st W0)" "T \<le> ledger_timestamp env"
    and env: "env_ok env" "honest_token env tok"
  shows "books_ok (ledger_timestamp env) tok (balance_of env tok W') (st W')"
proof -
  let ?now = "ledger_timestamp env"
  from op obtain W x y W1 s where W: "when_not_paused env W0 = Inr W"
    and x: "p_streams (st W) k = Some x" "live x"
    and claim: "settle_before_transfer env k a x (stream_now env x) W = Inr (y, W1)"
    and s: "index_by_recipient b k (unindex_by_recipient (s_recipient y) k
        (save_stream (y\<lparr>s_recipient := b\<rparr>) (st W1))) = (Inr s :: (stream_error, _) outcome)"
    and W': "st W' = s" "balance_of env tok W' = balance_of env tok W1"
    by (auto simp: transfer_recipient_def Let_def bindE_eq_Inr find_stream_Inr if_Inl_eq_Inr)
  note books = unpaused_books [OF W books0(1)]
  have id: "s_id x = k" and ok: "stream_ok T x" using books_stream [OF books(1) x(1)] by simp_all
  note time = claim_time [OF books(1) x books0(2)]
  have n: "s_last_withdraw_time x \<le> stream_now env x" "stream_now env x \<le> ?now"
    using time by (auto simp: stream_now_def)
  have saved: "books_ok ?now tok (balance_of env tok W1) (save_stream y (st W1)) \<and> s_id y = k"
    using claim
  proof (cases rule: settle_before_transfer_cases)
    case unchanged
    have "books_ok ?now tok (balance_of env tok W) (save_stream x (st W))"
      using id stream_ok_mono [OF ok books0(2)]
      by (intro books_update [OF books(1) books0(2) x(1), where y = x]) simp_all
    with unchanged id show ?thesis by simp
  next
    case (paid c r W2)
    note out = pay_claim_out [OF env(2) books(2) paid(2,3)]
    have "books_ok ?now tok (balance_of env tok W2)
        (save_stream (claimed x c (stream_now env x)) (st W2))"
      using compute_claimable_cases [OF paid(1)] out n
      by (intro claimed_books [OF books(1) books0(2) x]) (simp_all add: stream_now_def)
    then show ?thesis using id by (simp add: paid)
  qed
  let ?s = "save_stream y (st W1)"
  have p: "p_streams s = (p_streams ?s)(k \<mapsto> y\<lparr>s_recipient := b\<rparr>)"
    using index_by_recipient_frame(1) [OF s] saved by simp
  have fs: "fee_state s = fee_state ?s" using index_by_recipient_frame(2) [OF s] by simp
  have y: "p_streams ?s k = Some y" using saved by simp
  have "stream_ok ?now y" using books_stream [OF conjunct1 [OF saved] y] by simp
  then have "books_ok ?now tok (balance_of env tok W1) s"
    by (intro books_update [OF conjunct1 [OF saved] order_refl y p fs]) simp_all
  then show ?thesis by (simp add: W')
qed

section \<open>Top-up\<close>

lemma top_up_amounts:
  assumes f: "0 < f" "0 < (a::int)" and r: "rem_i128 a f = (Inr r :: (stream_error, int) outcome)"
  shows "r = a mod f" "0 \<le> r" "r < f" "f dvd (a - r)" "a - r = f * (a div f)"
  using assms by (auto simp: rem_i128_nonneg minus_mod_eq_mult_div)

lemma top_up_stream_ok:
  assumes ok: "stream_ok T x" "live x"
    and e: "e = s_flow_rate x * m" "0 \<le> m" "s_end_time x + nat m \<le> u64_max"
    and d: "in_i128 (s_deposit x + e)"
  shows "stream_ok T (x\<lparr>s_end_time := s_end_time x + nat m, s_deposit := s_deposit x + e\<rparr>)"
proof -
  have f: "funded T x" "typed x" using ok by (auto simp: stream_ok_def)
  have le: "s_start_time x \<le> s_end_time x"
    and fl: "s_flow_rate x * int (s_end_time x - s_start_time x) \<le> s_deposit x"
    using f(1) unfolding funded_def by linarith+
  have "int (s_end_time x + nat m - s_start_time x) = int (s_end_time x - s_start_time x) + m"
    using le e(2) by simp
  then have "s_flow_rate x * int (s_end_time x + nat m - s_start_time x)
      = s_flow_rate x * int (s_end_time x - s_start_time x) + e"
    by (simp only: e(1) distrib_left)
  with fl have "s_flow_rate x * int (s_end_time x + nat m - s_start_time x) \<le> s_deposit x + e"
    by linarith
  then show ?thesis
    using f e(3) d ok(2) unfolding stream_ok_def typed_def funded_def
    by (simp del: of_nat_diff)
qed

lemma top_up_books:
  assumes op: "top_up env k caller token amount W0 = Inr (u, W')"
    and books0: "books_ok T tok (balance_of env tok W0) (st W0)" "T \<le> ledger_timestamp env"
    and env: "env_ok env" "honest_token env tok"
  shows "books_ok (ledger_timestamp env) tok (balance_of env tok W') (st W')"
proof -
  let ?now = "ledger_timestamp env"
  from op obtain W x r m W1 where W: "when_not_paused env W0 = Inr W"
    and auth: "authorizes env caller"
    and x: "p_streams (st W) k = Some x" "live x" and amount: "0 < amount"
    and r: "rem_i128 amount (s_flow_rate x) = (Inr r :: (stream_error, int) outcome)"
    and e: "0 < amount - r"
    and W1: "transfer env (s_token x) caller (current_contract env) (amount - r) W
        = (Inr W1 :: (stream_error, _) outcome)"
    and m: "div_i128 (amount - r) (s_flow_rate x) = (Inr m :: (stream_error, int) outcome)"
    and le: "s_end_time x + nat m \<le> u64_max" "in_i128 (s_deposit x + (amount - r))"
    and W': "st W' = save_stream (x\<lparr>s_end_time := s_end_time x + nat m,
          s_deposit := s_deposit x + (amount - r)\<rparr>) (st W1)" (is "_ = save_stream ?y _")
      "balance_of env tok W' = balance_of env tok W1"
    by (auto simp: top_up_def Let_def bindE_eq_Inr find_stream_Inr if_Inl_eq_Inr ok_or_eq_Inr
        require_auth_Inr plain_eq_Inr checked_add_u64_Some checked_add_Some u64_try_from_Some
        not_le not_less)
  note books = unpaused_books [OF W books0(1)]
  have id: "s_id x = k" and ok: "stream_ok T x" using books_stream [OF books(1) x(1)] by simp_all
  have f0: "0 < s_flow_rate x" using ok x(2) by (simp add: stream_ok_def funded_def)
  note a = top_up_amounts [OF f0 amount r]
  have m_eq: "m = amount div s_flow_rate x"
    using m a(5) e f0 by (simp add: div_i128_nonneg)
  have m0: "0 \<le> m" using m_eq amount f0 by (simp add: pos_imp_zdiv_nonneg_iff)
  have self: "caller \<noteq> current_contract env" using env(1) auth by (auto simp: env_ok_def)
  note pay = transfer_in [OF env(2) W1 self]
  have yok: "stream_ok ?now ?y"
    using a(5) by (intro top_up_stream_ok [OF stream_ok_mono [OF ok books0(2)] x(2) _ m0 le])
      (simp add: m_eq)
  have "owed tok ?y = owed tok x + (if s_token x = tok then amount - r else 0)"
    using x(2) by (intro owed_funds) simp_all
  then have "balance_of env tok W - owed tok x + owed tok ?y \<le> balance_of env tok W1"
    using pay by linarith
  then show ?thesis
    unfolding W' using yok id transfer_st [OF W1]
    by (intro books_update [OF books(1) books0(2) x(1), of _ ?y]) simp_all
qed

section \<open>Pausing and resuming a stream\<close>

lemma owed_status:
  "live x \<Longrightarrow> live y \<Longrightarrow> s_token y = s_token x \<Longrightarrow> s_deposit y = s_deposit x \<Longrightarrow>
     s_total_withdrawn y = s_total_withdrawn x \<Longrightarrow> owed tok y = owed tok x"
  by (simp add: owed_def)

lemma resave_books:
  assumes books: "books_ok T tok b s" "T \<le> T'" and x: "p_streams s k = Some x"
    and y: "s_id y = s_id x" "stream_ok T' y" "owed tok y = owed tok x"
  shows "books_ok T' tok b (save_stream y s)"
  using books_stream [OF books(1) x] y
  by (intro books_update [OF books x, where y = y]) simp_all

lemma pause_stream_books:
  assumes op: "pause_stream env k a W0 = Inr (u, W')"
    and books0: "books_ok T tok (balance_of env tok W0) (st W0)" "T \<le> ledger_timestamp env"
    and env: "env_ok env"
  shows "books_ok (ledger_timestamp env) tok (balance_of env tok W') (st W')"
proof -
  let ?now = "ledger_timestamp env"
  from op obtain W x where W: "when_not_paused env W0 = Inr W"
    and x: "p_streams (st W) k = Some x" "s_status x = Active"
    and W': "st W' = save_stream (x\<lparr>s_status := Paused, s_last_pause_time := ?now\<rparr>) (st W)"
      (is "_ = save_stream ?y _") "balance_of env tok W' = balance_of env tok W"
    by (auto simp: pause_stream_def Let_def bindE_eq_Inr find_stream_Inr if_Inl_eq_Inr)
  note books = unpaused_books [OF W books0(1)]
  have ok: "stream_ok T x" using books_stream [OF books(1) x(1)] by simp
  have live: "live x" "live ?y" using x(2) by (simp_all add: live_def)
  have "stream_ok ?now ?y"
    using ok live books0(2) env unfolding stream_ok_def typed_def funded_def env_ok_def
    by (simp del: of_nat_diff)
  moreover have "owed tok ?y = owed tok x" by (rule owed_status [OF live]) simp_all
  ultimately show ?thesis
    unfolding W' by (intro resave_books [OF books(1) books0(2) x(1)]) simp_all
qed

text \<open>
  Resuming shifts every time by the length of the pause. The shift of the last withdrawal never
  overflows, as the result is not in the future; a later time may saturate.
\<close>

lemma resumed_ok:
  assumes ok: "stream_ok T x" "s_status x = Paused" "T \<le> n" "n \<le> u64_max"
  defines "sh \<equiv> \<lambda>t. unwrap_or u64_max (checked_add_u64 t (n - s_last_pause_time x))"
  shows "stream_ok n (x\<lparr>s_end_time := sh (s_end_time x), s_cliff_time := sh (s_cliff_time x),
      s_start_time := sh (s_start_time x), s_last_withdraw_time := sh (s_last_withdraw_time x),
      s_lock_until := sh (s_lock_until x), s_status := Active, s_last_pause_time := 0\<rparr>)"
    (is "stream_ok n ?y")
proof -
  let ?d = "n - s_last_pause_time x"
  have f: "funded T x" "typed x" using ok by (auto simp: stream_ok_def live_def)
  have sh: "sh t = min u64_max (t + ?d)" for t by (simp add: sh_def checked_add_u64_def)
  have times: "s_start_time x \<le> s_last_withdraw_time x" "s_last_withdraw_time x \<le> s_end_time x"
    "s_last_withdraw_time x \<le> s_last_pause_time x" "s_last_pause_time x \<le> T"
    using f(1) ok(2) unfolding funded_def by simp_all
  have l: "sh (s_last_withdraw_time x) = s_last_withdraw_time x + ?d"
    "sh (s_start_time x) = s_start_time x + ?d"
    "s_last_withdraw_time x + ?d \<le> n"
    using times ok(3,4) by (simp_all add: sh)
  have diff: "sh (s_last_withdraw_time x) - sh (s_start_time x)
      = s_last_withdraw_time x - s_start_time x"
    "sh (s_end_time x) - sh (s_start_time x) \<le> s_end_time x - s_start_time x"
    using l times(1,2) sh [of "s_end_time x"] by linarith+
  have "s_flow_rate x * int (sh (s_end_time x) - sh (s_start_time x)) \<le> s_deposit x"
  proof -
    have "s_flow_rate x * int (sh (s_end_time x) - sh (s_start_time x))
        \<le> s_flow_rate x * int (s_end_time x - s_start_time x)"
      using f(1) diff(2) by (intro flow_mono) (simp_all add: funded_def)
    also have "\<dots> \<le> s_deposit x" using f(1) unfolding funded_def by blast
    finally show ?thesis .
  qed
  moreover have "sh (s_last_withdraw_time x) \<le> sh (s_end_time x)" using times by (simp add: sh)
  ultimately have "funded n ?y"
    using f(1) l times(1) diff(1) unfolding funded_def by (simp del: of_nat_diff)
  moreover have "typed ?y" using f(2) by (simp add: typed_def sh)
  ultimately show ?thesis by (simp add: stream_ok_def)
qed

lemma resume_stream_books:
  assumes op: "resume_stream env k a W0 = Inr (u, W')"
    and books0: "books_ok T tok (balance_of env tok W0) (st W0)" "T \<le> ledger_timestamp env"
    and env: "env_ok env"
  shows "books_ok (ledger_timestamp env) tok (balance_of env tok W') (st W')"
proof -
  let ?now = "ledger_timestamp env"
  from op obtain W x where W: "when_not_paused env W0 = Inr W"
    and x: "p_streams (st W) k = Some x" "s_status x = Paused"
    and W': "let sh = \<lambda>t. unwrap_or u64_max (checked_add_u64 t (?now - s_last_pause_time x))
      in st W' = save_stream (x\<lparr>s_end_time := sh (s_end_time x),
           s_cliff_time := sh (s_cliff_time x), s_start_time := sh (s_start_time x),
           s_last_withdraw_time := sh (s_last_withdraw_time x),
           s_lock_until := sh (s_lock_until x), s_status := Active,
           s_last_pause_time := 0\<rparr>) (st W)"
    and bal: "balance_of env tok W' = balance_of env tok W"
    by (auto simp: resume_stream_def Let_def bindE_eq_Inr find_stream_Inr if_Inl_eq_Inr)
  note books = unpaused_books [OF W books0(1)]
  have ok: "stream_ok T x" using books_stream [OF books(1) x(1)] by simp
  have u: "?now \<le> u64_max" using env by (simp add: env_ok_def)
  from resumed_ok [OF ok x(2) books0(2) u] W' obtain y where
    y: "st W' = save_stream y (st W)" "stream_ok ?now y" "s_id y = s_id x"
      "live y" "s_token y = s_token x" "s_deposit y = s_deposit x"
      "s_total_withdrawn y = s_total_withdrawn x"
    by (fastforce simp: Let_def live_def)
  have live: "live x" using x(2) by (simp add: live_def)
  show ?thesis
    unfolding y(1) bal
    by (intro resave_books [OF books(1) books0(2) x(1) y(3,2)] owed_status [OF live y(4-7)])
qed

end
