(* ===== verification/Solvency_Batch.thy ===== *)
theory Solvency_Batch
  imports Solvency_Manage
begin

text \<open>
  The remaining management instructions and the batch instructions keep the books. The loops go
  by induction on the list, with the loop's state in the hypothesis.
\<close>

section \<open>Metadata, auto-renewal, delegation\<close>

lemma update_metadata_books:
  assumes op: "update_metadata env a k m W = Inr (u, W')"
    and books: "books_ok T tok (balance_of env tok W) (st W)" "T \<le> T'"
  shows "books_ok T' tok (balance_of env tok W') (st W')"
proof -
  from op obtain x where x: "p_streams (st W) k = Some x" and m: "length m \<le> 64"
    and W': "st W' = save_stream (x\<lparr>s_metadata := m\<rparr>) (st W)"
      "balance_of env tok W' = balance_of env tok W"
    by (auto simp: update_metadata_def Let_def bindE_eq_Inr find_stream_Inr if_Inl_eq_Inr)
  have ok: "stream_ok T' x" using books_stream [OF books(1) x] books(2) stream_ok_mono by blast
  have "stream_ok T' (x\<lparr>s_metadata := m\<rparr>)"
    using ok m by (simp add: stream_ok_def typed_def funded_def live_def del: of_nat_diff)
  then show ?thesis unfolding W' by (intro resave_books [OF books x]) simp_all
qed

lemma cancel_auto_renew_books:
  assumes op: "cancel_auto_renew env a k W = Inr (u, W')"
    and books: "books_ok T tok (balance_of env tok W) (st W)" "T \<le> T'"
  shows "books_ok T' tok (balance_of env tok W') (st W')"
proof -
  from op obtain x where x: "p_streams (st W) k = Some x"
    and W': "st W' = save_stream (x\<lparr>s_auto_renew := False\<rparr>) (st W)"
      "balance_of env tok W' = balance_of env tok W"
    by (auto simp: cancel_auto_renew_def Let_def bindE_eq_Inr find_stream_Inr if_Inl_eq_Inr)
  have "stream_ok T' x" using books_stream [OF books(1) x] books(2) stream_ok_mono by blast
  then show ?thesis unfolding W' by (intro resave_books [OF books x]) simp_all
qed

lemma kept_books:
  assumes "books_ok T tok (balance_of env tok W) (st W)" "T \<le> T'"
    and "p_streams (st W') = p_streams (st W)" "fee_state (st W') = fee_state (st W)"
    and "balance_of env tok W \<le> balance_of env tok W'"
  shows "books_ok T' tok (balance_of env tok W') (st W')"
  using assms fees_ok_frame [OF assms(4)]
  by (intro books_keep [OF assms(1,2,3)]) (simp_all add: books_ok_def)

lemma delegate_books:
  assumes op: "delegate env a k b W = Inr (u, W')"
    and books: "books_ok T tok (balance_of env tok W) (st W)" "T \<le> T'"
  shows "books_ok T' tok (balance_of env tok W') (st W')"
  using op by (intro kept_books [OF books])
    (auto simp: delegate_def bindE_eq_Inr if_Inl_eq_Inr)

lemma revoke_delegate_books:
  assumes op: "revoke_delegate env a k W = Inr (u, W')"
    and books: "books_ok T tok (balance_of env tok W) (st W)" "T \<le> T'"
  shows "books_ok T' tok (balance_of env tok W') (st W')"
  using op by (intro kept_books [OF books])
    (auto simp: revoke_delegate_def bindE_eq_Inr if_Inl_eq_Inr)

section \<open>batch\_create\_stream\<close>

text \<open>
  What the pre-pass establishes: one id per item, none in the table, all different; and every
  amount is positive with a positive rate.
\<close>

definition batch_item_ok :: "nat \<Rightarrow> address \<times> int \<Rightarrow> bool" where
  "batch_item_ok d item \<longleftrightarrow> 0 < snd item \<and>
     (\<exists>f. div_i128 (snd item) (int d) = (Inr f :: (stream_error, int) outcome) \<and> f \<noteq> 0)"

lemma batch_prepass_Inr:
  "batch_prepass env s sender now d i items ids = Inr ids' \<Longrightarrow>
     \<exists>new. ids' = ids @ new \<and> length new = length items \<and> distinct new \<and>
       set new \<inter> set ids = {} \<and> (\<forall>k \<in> set new. p_streams s k = None) \<and>
       (\<forall>item \<in> set items. batch_item_ok d item)"
proof (induction env s sender now d i items ids rule: batch_prepass.induct)
  case (1 env s sender now d i ids)
  then show ?case by simp
next
  case (2 env s sender now d i r a rest ids)
  let ?k = "derive_stream_id env sender r now i"
  from 2(2) obtain f where a: "0 < a"
    and f: "div_i128 a (int d) = (Inr f :: (stream_error, int) outcome)" "f \<noteq> 0"
    and fresh: "p_streams s ?k = None" "?k \<notin> set ids"
    and rest: "batch_prepass env s sender now d (i + 1) rest (ids @ [?k]) = Inr ids'"
    by (auto simp: bindE_eq_Inr Let_def stream_exists_def split: if_splits)
  from 2(1) [of f ?k] a f fresh rest obtain new where
    new: "ids' = (ids @ [?k]) @ new" "length new = length rest" "distinct new"
      "set new \<inter> set (ids @ [?k]) = {}" "\<forall>k \<in> set new. p_streams s k = None"
      "\<forall>item \<in> set rest. batch_item_ok d item"
    by (auto simp: stream_exists_def)
  have "batch_item_ok d (r, a)" using a f by (auto simp: batch_item_ok_def)
  then show ?case
    using new fresh by (intro exI [of _ "?k # new"]) auto
qed

lemma batch_create_loop_books:
  assumes "batch_create_loop env sender now end_time d ar items out W = Inr (out', W')"
    and "books_ok now tok (balance_of env tok W) (st W)"
    and "distinct (map (fst \<circ> fst) items)"
    and "\<forall>k \<in> set (map (fst \<circ> fst) items). p_streams (st W) k = None"
    and "\<forall>item \<in> set items. batch_item_ok d (snd (fst item)) \<and>
           in_i128 (snd (snd (fst item))) \<and> snd (snd item) \<le> u64_max"
    and "end_time = now + d" "end_time \<le> u64_max" "0 < d"
    and "honest_token env tok" "sender \<noteq> current_contract env"
  shows "books_ok now tok (balance_of env tok W') (st W')"
  using assms
proof (induction items arbitrary: out W)
  case Nil
  then show ?case by simp
next
  case (Cons item rest)
  obtain k r a token lock where item: "item = ((k, r, a), token, lock)"
    by (metis surj_pair)
  let ?x = "\<lambda>f. \<lparr>s_id = k, s_sender = sender, s_recipient = r,
                   s_token = token, s_deposit = a, s_flow_rate = f,
                   s_start_time = now, s_cliff_time = now, s_lock_until = lock,
                   s_end_time = end_time, s_last_withdraw_time = now, s_status = Active,
                   s_auto_renew = ar, s_allow_recipient_termination = False,
                   s_last_pause_time = 0, s_total_withdrawn = 0, s_metadata = []\<rparr>"
  let ?W2 = "\<lambda>f s W1. publish (ev_stream_created k sender r a f end_time) (W1\<lparr>st := s\<rparr>)"
  from Cons.prems(1) obtain f W1 s where
    f: "div_i128 a (int d) = (Inr f :: (stream_error, int) outcome)"
    and W1: "transfer env token sender (current_contract env) a W
        = (Inr W1 :: (stream_error, _) outcome)"
    and s: "register_stream (?x f) (st W1) = Inr s"
    and rest: "batch_create_loop env sender now end_time d ar rest (out @ [k]) (?W2 f s W1)
        = Inr (out', W')"
    by (auto simp: item Let_def bindE_eq_Inr)
  define W2 where "W2 = ?W2 f s W1"
  have W2: "st W2 = s" "balance_of env tok W2 = balance_of env tok W1"
    by (simp_all add: W2_def)
  note rest = rest [folded W2_def]
  have fresh: "p_streams (st W1) k = None"
    using Cons.prems(4) transfer_st [OF W1] by (simp add: item)
  have it: "0 < a" "in_i128 a" "lock \<le> u64_max" "f \<noteq> 0"
    using Cons.prems(5) f by (auto simp: item batch_item_ok_def)
  note rate = created_rate [OF it(1,2) Cons.prems(8) f it(4)]
  have base: "books_ok now tok (balance_of env tok W) (st W1)"
    using Cons.prems(2) transfer_st [OF W1] by simp
  have "stream_ok now (?x f)"
    using rate it Cons.prems(6-8) by (intro fresh_stream_ok) (simp_all add: typed_def)
  moreover have "balance_of env tok W + owed tok (?x f) \<le> balance_of env tok W2"
    using transfer_in [OF Cons.prems(9) W1 Cons.prems(10)] W2(2)
    by (auto simp: owed_def live_def split: if_splits)
  ultimately have "books_ok now tok (balance_of env tok W2) (st W2)"
    unfolding W2(1) using fresh by (intro register_books [OF base order_refl s]) simp_all
  then show ?case
    using Cons.prems register_stream_streams [OF s] transfer_st [OF W1]
    by (intro Cons.IH [OF rest]) (auto simp: item W2(1))
qed

lemma in_zip: "p \<in> set (zip xs ys) \<Longrightarrow> fst p \<in> set xs \<and> snd p \<in> set ys"
  by (cases p) (auto dest: set_zip_leftD set_zip_rightD)

lemma batch_create_stream_books:
  assumes op: "batch_create_stream env sender rs as ts d ar ls nonce W0 = Inr (out, W')"
    and books0: "books_ok T tok (balance_of env tok W0) (st W0)" "T \<le> ledger_timestamp env"
    and env: "env_ok env" "honest_token env tok"
    and args: "list_all in_i128 as" "list_all (\<lambda>l. l \<le> u64_max) ls"
  shows "books_ok (ledger_timestamp env) tok (balance_of env tok W') (st W')"
proof -
  let ?now = "ledger_timestamp env"
  from op obtain W s ids where W: "when_not_paused env W0 = Inr W"
    and auth: "authorizes env sender"
    and s: "increment_batch_nonce sender (st W) = (Inr s :: (stream_error, _) outcome)"
    and len: "length rs = length as" "length rs = length ls" "length rs = length ts"
    and d: "?now + d \<le> u64_max" "0 < d"
    and pre: "batch_prepass env s sender ?now d 0 (zip rs as) [] = Inr ids"
    and loop: "batch_create_loop env sender ?now (?now + d) d ar
        (zip (zip ids (zip rs as)) (zip ts ls)) [] (W\<lparr>st := s\<rparr>) = Inr (out, W')"
    unfolding batch_create_stream_def Let_def bindE_eq_Inr ok_or_eq_Inr require_auth_Inr
      checked_add_u64_Some if_Inl_eq_Inr not_le de_Morgan_disj not_not
    by (elim exE conjE) (simp add: bindE_eq_Inr)
  note books = unpaused_books [OF W books0(1)]
  have s': "p_streams s = p_streams (st W)" "fee_state s = fee_state (st W)"
    using s by (auto simp: increment_batch_nonce_Inr fee_state_def)
  have base: "books_ok ?now tok (balance_of env tok (W\<lparr>st := s\<rparr>)) (st (W\<lparr>st := s\<rparr>))"
    using s' by (intro kept_books [OF books(1) books0(2)]) simp_all
  from batch_prepass_Inr [OF pre] have ids: "length ids = length rs" "distinct ids"
    "\<forall>k \<in> set ids. p_streams s k = None" "\<forall>item \<in> set (zip rs as). batch_item_ok d item"
    using len by auto
  let ?items = "zip (zip ids (zip rs as)) (zip ts ls)"
  have fsts: "map (fst \<circ> fst) ?items = ids"
    using len ids(1) by (simp add: map_map [symmetric] del: map_map)
  have items: "batch_item_ok d (snd (fst item)) \<and> in_i128 (snd (snd (fst item))) \<and>
      snd (snd item) \<le> u64_max" if "item \<in> set ?items" for item
  proof -
    from in_zip [OF that] have "fst item \<in> set (zip ids (zip rs as))"
      "snd item \<in> set (zip ts ls)" by simp_all
    from in_zip [OF this(1)] in_zip [OF this(2)]
    have "snd (fst item) \<in> set (zip rs as)" "snd (snd item) \<in> set ls" by simp_all
    moreover from in_zip [OF this(1)] have "snd (snd (fst item)) \<in> set as" by simp
    ultimately show ?thesis
      using ids(4) args by (simp add: list_all_iff)
  qed
  have self: "sender \<noteq> current_contract env" using env(1) auth by (auto simp: env_ok_def)
  show ?thesis
    by (rule batch_create_loop_books [OF loop base _ _ _ refl d(1,2) env(2) self])
      (use ids(2,3) fsts items in simp_all)
qed

section \<open>batch\_withdraw\<close>

lemma batch_withdraw_finish_books:
  assumes op: "batch_withdraw_finish env k y W = Inr W'" and k: "s_id y = k"
    and books: "books_ok T tok (balance_of env tok W) (save_stream y (st W))"
    and y: "s_status y = Active" "s_end_time y \<le> T"
    and env: "env_ok env" "honest_token env tok"
  shows "books_ok T tok (balance_of env tok W') (st W')"
proof -
  have live: "live y" using y by (simp add: live_def)
  show ?thesis
  proof (cases "s_auto_renew y")
    case True
    with op have "renew_stream env y (s_end_time y - s_start_time y) W = Inr W'"
      by (auto simp: batch_withdraw_finish_def Let_def bindE_eq_Inr plain_eq_Inr)
    then show ?thesis by (rule renew_stream_books [OF _ books live y env])
  next
    case False
    with op obtain W1 where
      pay: "pay_if_positive env (s_token y) (s_sender y)
          (dust_of y (s_end_time y - s_start_time y)) W = Inr W1"
      and W': "W' = in_store (close_stream k y) (publish (ev_stream_completed k) W1)"
      by (auto simp: batch_withdraw_finish_def Let_def bindE_eq_Inr plain_eq_Inr)
    from pay_dust_books [OF pay books live env(2)] closed_books [OF books] k W'
    show ?thesis by simp
  qed
qed

lemma batch_withdraw_one_books:
  assumes op: "batch_withdraw_one env k r W = Inr (a, W')"
    and books: "books_ok T tok (balance_of env tok W) (st W)" "T \<le> ledger_timestamp env"
    and env: "env_ok env" "honest_token env tok"
  shows "books_ok (ledger_timestamp env) tok (balance_of env tok W') (st W')"
proof -
  let ?now = "ledger_timestamp env"
  from op obtain x c y W1 W2 where
    x: "p_streams (st W) k = Some x" and active: "s_status x = Active"
    and c: "compute_earned (s_flow_rate x) ?now (s_end_time x) (s_last_withdraw_time x) = Some c"
    and pay: "(if 0 < c then
        bindE (ok_or Overflow (checked_add_i128 (s_total_withdrawn x) c)) (\<lambda>total.
        if s_deposit x < total then Inl (Err Overflow)
        else bindE (pay_claim_batch env x r c W) (\<lambda>W1.
          bindE (ok_or Overflow (checked_add_i128 (s_total_withdrawn x) c)) (\<lambda>total.
            Inr (x\<lparr>s_total_withdrawn := total\<rparr>, W1))))
        else Inr (x, W)) = Inr (y, W1)"
    and fin: "(if s_end_time (y\<lparr>s_last_withdraw_time := min ?now (s_end_time x)\<rparr>) \<le> ?now
        then batch_withdraw_finish env k (y\<lparr>s_last_withdraw_time := min ?now (s_end_time x)\<rparr>) W1
        else Inr (in_store (save_stream (y\<lparr>s_last_withdraw_time := min ?now (s_end_time x)\<rparr>))
          W1)) = Inr W2"
    and W': "st W' = st W2" "balance_of env tok W' = balance_of env tok W2"
    by (auto simp: batch_withdraw_one_def Let_def bindE_eq_Inr ok_or_eq_Inr find_stream_Inr
        if_Inl_eq_Inr)
  have live: "live x" using active by (simp add: live_def)
  note cc = earned_amount [OF c]
  have fees: "fees_ok (st W)" using books(1) by (simp add: books_ok_def)
  let ?c = "max 0 c"
  have y: "y\<lparr>s_last_withdraw_time := min ?now (s_end_time x)\<rparr> = claimed x ?c ?now"
    and out: "st W1 = st W"
      "balance_of env tok W - (if s_token x = tok then ?c else 0) \<le> balance_of env tok W1"
    using pay pay_claim_batch_out [OF env(2) fees, of c x r W1]
    by (auto simp: claimed_def bindE_eq_Inr ok_or_eq_Inr checked_add_Some split: if_splits)
  have "?c = 0 \<or> ?c = s_flow_rate x * int (min ?now (s_end_time x) - s_last_withdraw_time x)"
    using cc by (auto simp: max_def)
  then have saved: "books_ok ?now tok (balance_of env tok W1)
      (save_stream (claimed x ?c ?now) (st W1))"
    using active out claim_time [OF books(1) x live books(2)]
    by (intro claimed_books [OF books(1,2) x live]) simp_all
  have id: "s_id x = k" using books_stream [OF books(1) x] by simp
  show ?thesis
  proof (cases "s_end_time x \<le> ?now")
    case True
    with fin [unfolded y] have "batch_withdraw_finish env k (claimed x ?c ?now) W1 = Inr W2"
      by simp
    from batch_withdraw_finish_books [OF this _ saved _ _ env] True active id show ?thesis
      by (simp add: W')
  next
    case False
    with fin [unfolded y] have "W2 = in_store (save_stream (claimed x ?c ?now)) W1" by simp
    with saved show ?thesis by (simp add: W')
  qed
qed

lemma batch_withdraw_loop_books:
  assumes "batch_withdraw_loop env ks r out W = Inr (out', W')"
    and "books_ok (ledger_timestamp env) tok (balance_of env tok W) (st W)"
    and "env_ok env" "honest_token env tok"
  shows "books_ok (ledger_timestamp env) tok (balance_of env tok W') (st W')"
  using assms
proof (induction ks arbitrary: out W)
  case Nil
  then show ?case by simp
next
  case (Cons k ks)
  from Cons.prems(1) obtain c W1 where one: "batch_withdraw_one env k r W = Inr (c, W1)"
    and rest: "batch_withdraw_loop env ks r (out @ [c]) W1 = Inr (out', W')"
    by (auto simp: bindE_eq_Inr)
  from batch_withdraw_one_books [OF one Cons.prems(2) order_refl Cons.prems(3,4)]
  show ?case by (intro Cons.IH [OF rest _ Cons.prems(3,4)])
qed

lemma books_later:
  "books_ok T tok b s \<Longrightarrow> T \<le> T' \<Longrightarrow> books_ok T' tok b s"
  by (rule books_keep [where s = s and b = b]) (simp_all add: books_ok_def)

lemma batch_withdraw_books:
  assumes op: "batch_withdraw env ks r W0 = Inr (out, W')"
    and books0: "books_ok T tok (balance_of env tok W0) (st W0)" "T \<le> ledger_timestamp env"
    and env: "env_ok env" "honest_token env tok"
  shows "books_ok (ledger_timestamp env) tok (balance_of env tok W') (st W')"
proof -
  from op obtain W where W: "when_not_paused env W0 = Inr W"
    and loop: "batch_withdraw_loop env ks r [] W = Inr (out, W')"
    by (auto simp: batch_withdraw_def bindE_eq_Inr)
  from batch_withdraw_loop_books [OF loop books_later [OF _ books0(2)] env]
    unpaused_books(1) [OF W books0(1)]
  show ?thesis by blast
qed

section \<open>batch\_cancel\_stream\<close>

lemma batch_cancel_one_books:
  assumes op: "batch_cancel_one env k a W = Inr (u, W')"
    and books: "books_ok T tok (balance_of env tok W) (st W)" "T \<le> T'"
    and env: "honest_token env tok"
  shows "books_ok T' tok (balance_of env tok W') (st W')"
proof -
  from op obtain x c W1 W2 where x: "p_streams (st W) k = Some x" "live x"
    and c: "compute_earned (s_flow_rate x) (ledger_timestamp env) (s_end_time x)
        (s_last_withdraw_time x) = Some c"
    and pay: "pay_if_positive env (s_token x) (s_recipient x) c W = Inr W1"
      "pay_if_positive env (s_token x) (s_sender x) (refund_of x c) W1 = Inr W2"
    and W': "st W' = close_stream k x (st W2)" "balance_of env tok W' = balance_of env tok W2"
    by (auto simp: batch_cancel_one_def Let_def bindE_eq_Inr ok_or_eq_Inr find_stream_Inr
        if_Inl_eq_Inr)
  show ?thesis
    unfolding W' using earned_amount [OF c]
    by (intro settled_books [OF books x _ pay env]) (rule disjI2)
qed

lemma batch_cancel_loop_books:
  assumes "batch_cancel_loop env ks a out W = Inr (out', W')"
    and "books_ok T tok (balance_of env tok W) (st W)" and "honest_token env tok"
  shows "books_ok T tok (balance_of env tok W') (st W')"
  using assms
proof (induction ks arbitrary: out W)
  case Nil
  then show ?case by simp
next
  case (Cons k ks)
  show ?case
  proof (cases "batch_cancel_one env k a W")
    case (Inl e)
    with Cons show ?thesis by (cases e) auto
  next
    case (Inr p)
    then obtain u W1 where one: "batch_cancel_one env k a W = Inr (u, W1)" by (cases p) auto
    from batch_cancel_one_books [OF one Cons.prems(2) order_refl Cons.prems(3)] Cons one
    show ?thesis by auto
  qed
qed

lemma batch_cancel_stream_books:
  assumes op: "batch_cancel_stream env ks a W = Inr (out, W')"
    and books: "books_ok T tok (balance_of env tok W) (st W)" "T \<le> T'"
    and env: "honest_token env tok"
  shows "books_ok T' tok (balance_of env tok W') (st W')"
  using op batch_cancel_loop_books [OF _ books_later [OF books] env]
  by (auto simp: batch_cancel_stream_def bindE_eq_Inr if_Inl_eq_Inr)

end
