(* ===== verification/Interface.thy ===== *)
theory Interface
  imports Solvency_Batch
begin

text \<open>
  The contract seen from outside: one constructor of \<open>call\<close> per state-changing entry point of
  \<open>interface.rs\<close> (and the four that only the contract's own implementation block exports), the
  dispatch of the trait implementation, and the fact that every invocation keeps the books of an
  honest token. (The read-only entry points are the functions
  of \<open>Queries\<close> and the getters of \<open>Admin\<close>.)
\<close>

section \<open>Calls and replies\<close>

text \<open>The trait's first part: deployment, the admin and the emergency pause, limits.\<close>

datatype (plugins only:) setup_call =
    Initialize address string
  | Set_admin address
  | Emergency_pause
  | Emergency_resume
  | Is_paused
  | Upgrade bytes
  | Set_max_streams nat
  | Set_sender_stream_limit address nat

text \<open>Its calls on single streams, with the cooldown and the whitelist between them.\<close>

datatype (plugins only:) stream_call =
    Create_stream address address address int nat nat nat bool nat bool bytes
  | Set_withdrawal_cooldown address nat
  | Set_whitelist_enabled address bool
  | Add_to_whitelist address address
  | Remove_from_whitelist address address
  | Update_metadata address nat bytes
  | Cancel_auto_renew address nat
  | Withdraw nat address
  | Cancel_stream nat address
  | Transfer_recipient nat address address
  | Partial_cancel_stream nat address int
  | Top_up nat address address int

text \<open>Pausing and resuming a stream, the batches, and the fee and the treasury.\<close>

datatype (plugins only:) batch_call =
    Pause_stream nat address
  | Resume_stream nat address
  | Batch_create_stream address "address list" "int list" "address list" nat bool "nat list" nat
  | Batch_withdraw "nat list" address
  | Batch_cancel_stream "nat list" address
  | Set_protocol_fee nat
  | Propose_fee_change address nat
  | Execute_fee_change
  | Set_treasury_address address

text \<open>The rest of the trait, and the four calls that only the contract's own block exports.\<close>

datatype (plugins only:) settings_call =
    Recipient_terminate nat address
  | Set_min_duration address nat
  | Migrate string string
  | Archive_stream nat address
  | Add_fee_exempt address
  | Remove_fee_exempt address
  | Set_guardian address
  | Set_governance address
  | Pause address
  | Unpause address
  | Set_creation_fee int address
  | Delegate address nat address
  | Revoke_delegate address nat
  | Withdraw_treasury address int address
  | Withdraw_all_from_treasury address address

datatype (plugins only:) call =
    On_setup setup_call
  | On_stream stream_call
  | On_batch batch_call
  | On_settings settings_call

datatype reply =
    RUnit
  | RBool bool
  | RId nat
  | RIds "nat list"
  | RAmount int
  | RAmounts "int list"
  | RResults "(stream_error + unit) list"

definition reply_with :: "('a \<Rightarrow> reply) \<Rightarrow> ('w, 'a) response \<Rightarrow> ('w, reply) response" where
  "reply_with f m = bindE m (\<lambda>(a, W). Inr (f a, W))"

lemma reply_with_Inr [outcome]:
  "reply_with f m = Inr (r, W) \<longleftrightarrow> (\<exists>a. m = Inr (a, W) \<and> r = f a)"
  by (auto simp: reply_with_def bindE_eq_Inr)

primrec exec_setup :: "'w env \<Rightarrow> setup_call \<Rightarrow> 'w world \<Rightarrow> ('w, reply) response" where
  "exec_setup env (Initialize x1 x2) W = reply_with (\<lambda>_. RUnit) (initialize env x1 x2 W)"
| "exec_setup env (Set_admin x1) W = reply_with (\<lambda>_. RUnit) (set_admin env x1 W)"
| "exec_setup env Emergency_pause W = reply_with (\<lambda>_. RUnit) (emergency_pause env W)"
| "exec_setup env Emergency_resume W = reply_with (\<lambda>_. RUnit) (emergency_resume env W)"
| "exec_setup env Is_paused W = (let (p, W1) = is_paused env W in Inr (RBool p, W1))"
| "exec_setup env (Upgrade x1) W = reply_with (\<lambda>_. RUnit) (upgrade env x1 W)"
| "exec_setup env (Set_max_streams x1) W = reply_with (\<lambda>_. RUnit) (set_max_streams env x1 W)"
| "exec_setup env (Set_sender_stream_limit x1 x2) W =
     reply_with (\<lambda>_. RUnit) (set_sender_stream_limit env x1 x2 W)"

primrec exec_stream :: "'w env \<Rightarrow> stream_call \<Rightarrow> 'w world \<Rightarrow> ('w, reply) response" where
  "exec_stream env (Create_stream x1 x2 x3 x4 x5 x6 x7 x8 x9 x10 x11) W =
     reply_with RId (create_stream env x1 x2 x3 x4 x5 x6 x7 x8 x9 x10 x11 W)"
| "exec_stream env (Set_withdrawal_cooldown x1 x2) W =
     reply_with (\<lambda>_. RUnit) (set_withdrawal_cooldown env x1 x2 W)"
| "exec_stream env (Set_whitelist_enabled x1 x2) W =
     reply_with (\<lambda>_. RUnit) (set_whitelist_enabled env x1 x2 W)"
| "exec_stream env (Add_to_whitelist x1 x2) W =
     reply_with (\<lambda>_. RUnit) (add_to_whitelist env x1 x2 W)"
| "exec_stream env (Remove_from_whitelist x1 x2) W =
     reply_with (\<lambda>_. RUnit) (remove_from_whitelist env x1 x2 W)"
| "exec_stream env (Update_metadata x1 x2 x3) W =
     reply_with (\<lambda>_. RUnit) (update_metadata env x1 x2 x3 W)"
| "exec_stream env (Cancel_auto_renew x1 x2) W =
     reply_with (\<lambda>_. RUnit) (cancel_auto_renew env x1 x2 W)"
| "exec_stream env (Withdraw x1 x2) W = reply_with (\<lambda>_. RUnit) (withdraw env x1 x2 W)"
| "exec_stream env (Cancel_stream x1 x2) W =
     reply_with (\<lambda>_. RUnit) (cancel_stream env x1 x2 W)"
| "exec_stream env (Transfer_recipient x1 x2 x3) W =
     reply_with (\<lambda>_. RUnit) (transfer_recipient env x1 x2 x3 W)"
| "exec_stream env (Partial_cancel_stream x1 x2 x3) W =
     reply_with RId (partial_cancel_stream env x1 x2 x3 W)"
| "exec_stream env (Top_up x1 x2 x3 x4) W = reply_with (\<lambda>_. RUnit) (top_up env x1 x2 x3 x4 W)"

primrec exec_batch :: "'w env \<Rightarrow> batch_call \<Rightarrow> 'w world \<Rightarrow> ('w, reply) response" where
  "exec_batch env (Pause_stream x1 x2) W = reply_with (\<lambda>_. RUnit) (pause_stream env x1 x2 W)"
| "exec_batch env (Resume_stream x1 x2) W =
     reply_with (\<lambda>_. RUnit) (resume_stream env x1 x2 W)"
| "exec_batch env (Batch_create_stream x1 x2 x3 x4 x5 x6 x7 x8) W =
     reply_with RIds (batch_create_stream env x1 x2 x3 x4 x5 x6 x7 x8 W)"
| "exec_batch env (Batch_withdraw x1 x2) W = reply_with RAmounts (batch_withdraw env x1 x2 W)"
| "exec_batch env (Batch_cancel_stream x1 x2) W =
     reply_with RResults (batch_cancel_stream env x1 x2 W)"
| "exec_batch env (Set_protocol_fee x1) W =
     reply_with (\<lambda>_. RUnit) (set_protocol_fee env x1 W)"
| "exec_batch env (Propose_fee_change x1 x2) W =
     reply_with (\<lambda>_. RUnit) (propose_fee_change env x1 x2 W)"
| "exec_batch env Execute_fee_change W = reply_with (\<lambda>_. RUnit) (execute_fee_change env W)"
| "exec_batch env (Set_treasury_address x1) W =
     reply_with (\<lambda>_. RUnit) (set_treasury_address env x1 W)"

primrec exec_settings :: "'w env \<Rightarrow> settings_call \<Rightarrow> 'w world \<Rightarrow> ('w, reply) response" where
  "exec_settings env (Recipient_terminate x1 x2) W =
     reply_with (\<lambda>_. RUnit) (recipient_terminate env x1 x2 W)"
| "exec_settings env (Set_min_duration x1 x2) W =
     reply_with (\<lambda>_. RUnit) (set_min_duration env x1 x2 W)"
| "exec_settings env (Migrate x1 x2) W = reply_with (\<lambda>_. RUnit) (migrate env x1 x2 W)"
| "exec_settings env (Archive_stream x1 x2) W =
     reply_with (\<lambda>_. RUnit) (archive_stream env x1 x2 W)"
| "exec_settings env (Add_fee_exempt x1) W = reply_with (\<lambda>_. RUnit) (add_fee_exempt env x1 W)"
| "exec_settings env (Remove_fee_exempt x1) W =
     reply_with (\<lambda>_. RUnit) (remove_fee_exempt env x1 W)"
| "exec_settings env (Set_guardian x1) W = reply_with (\<lambda>_. RUnit) (set_guardian env x1 W)"
| "exec_settings env (Set_governance x1) W = reply_with (\<lambda>_. RUnit) (set_governance env x1 W)"
| "exec_settings env (Pause x1) W = reply_with (\<lambda>_. RUnit) (pause env x1 W)"
| "exec_settings env (Unpause x1) W = reply_with (\<lambda>_. RUnit) (unpause env x1 W)"
| "exec_settings env (Set_creation_fee x1 x2) W =
     reply_with (\<lambda>_. RUnit) (set_creation_fee env x1 x2 W)"
| "exec_settings env (Delegate x1 x2 x3) W = reply_with (\<lambda>_. RUnit) (delegate env x1 x2 x3 W)"
| "exec_settings env (Revoke_delegate x1 x2) W =
     reply_with (\<lambda>_. RUnit) (revoke_delegate env x1 x2 W)"
| "exec_settings env (Withdraw_treasury x1 x2 x3) W =
     reply_with (\<lambda>_. RUnit) (withdraw_treasury env x1 x2 x3 W)"
| "exec_settings env (Withdraw_all_from_treasury x1 x2) W =
     reply_with RAmount (withdraw_all_from_treasury env x1 x2 W)"

primrec exec :: "'w env \<Rightarrow> call \<Rightarrow> 'w world \<Rightarrow> ('w, reply) response" where
  "exec env (On_setup c) W = exec_setup env c W"
| "exec env (On_stream c) W = exec_stream env c W"
| "exec env (On_batch c) W = exec_batch env c W"
| "exec env (On_settings c) W = exec_settings env c W"

lemmas exec_simps =
  exec.simps exec_setup.simps exec_stream.simps exec_batch.simps exec_settings.simps

section \<open>Arguments in range\<close>

text \<open>
  The ranges of the Rust types of the arguments that enter the books: \<open>i128\<close> amounts, \<open>u64\<close>
  times. (The host decodes arguments to these types before the contract runs.)
\<close>

definition call_ok :: "call \<Rightarrow> bool" where
  "call_ok c \<longleftrightarrow>
     (case c of
        On_stream
          (Create_stream sender recipient token amount duration cliff nonce ar lock art md) \<Rightarrow>
          in_i128 amount \<and> lock \<le> u64_max
      | On_batch (Batch_create_stream sender rs as ts duration ar locks nonce) \<Rightarrow>
          list_all in_i128 as \<and> list_all (\<lambda>l. l \<le> u64_max) locks
      | _ \<Rightarrow> True)"

section \<open>Administration keeps the books\<close>

lemma admin_books:
  assumes "books_ok T tok (balance_of env tok W) (st W)" "T \<le> T'"
    and "p_streams (st W') = p_streams (st W)" "fees_ok (st W')"
    and "balance_of env tok W \<le> balance_of env tok W'"
  shows "books_ok T' tok (balance_of env tok W') (st W')"
  using assms by (intro books_keep [OF assms(1,2,3)])

lemma append_audit_entry_fees:
  "append_audit_entry e s = Inr s' \<Longrightarrow> fee_state s' = fee_state s"
  by (auto simp: append_audit_entry_def Let_def outcome fee_state_def)

text \<open>The instructions that change neither streams nor fees nor tokens.\<close>

definition quiet :: "'w env \<Rightarrow> 'w world \<Rightarrow> 'w world \<Rightarrow> bool" where
  "quiet env W W' \<longleftrightarrow>
     p_streams (st W') = p_streams (st W) \<and> fee_state (st W') = fee_state (st W) \<and>
     ext W' = ext W"

lemma quiet_books:
  assumes "books_ok T tok (balance_of env tok W) (st W)" "T \<le> T'" "quiet env W W'"
  shows "books_ok T' tok (balance_of env tok W') (st W')"
  using assms by (intro kept_books [OF assms(1,2)]) (simp_all add: quiet_def balance_of_def)

lemmas quiet_eval = quiet_def fee_state_def Let_def handler

lemma quiet_settings:
  "initialize env a v W = Inr (u, W') \<Longrightarrow> quiet env W W'"
  "set_admin env a W = Inr (u, W') \<Longrightarrow> quiet env W W'"
  "set_guardian env a W = Inr (u, W') \<Longrightarrow> quiet env W W'"
  "set_governance env a W = Inr (u, W') \<Longrightarrow> quiet env W W'"
  "add_fee_exempt env a W = Inr (u, W') \<Longrightarrow> quiet env W W'"
  "remove_fee_exempt env a W = Inr (u, W') \<Longrightarrow> quiet env W W'"
  "set_max_streams env n W = Inr (u, W') \<Longrightarrow> quiet env W W'"
  "set_sender_stream_limit env a n W = Inr (u, W') \<Longrightarrow> quiet env W W'"
  "set_min_duration env a n W = Inr (u, W') \<Longrightarrow> quiet env W W'"
  "set_treasury_address env a W = Inr (u, W') \<Longrightarrow> quiet env W W'"
  by (auto simp: initialize_def set_admin_def set_guardian_def set_governance_def
      add_fee_exempt_def remove_fee_exempt_def set_max_streams_def set_sender_stream_limit_def
      set_min_duration_def set_treasury_address_def quiet_eval bindE_eq_Inr split: if_splits)

lemma quiet_admin_settings:
  "set_withdrawal_cooldown env a n W = Inr (u, W') \<Longrightarrow> quiet env W W'"
  "set_whitelist_enabled env a b W = Inr (u, W') \<Longrightarrow> quiet env W W'"
  "add_to_whitelist env a r W = Inr (u, W') \<Longrightarrow> quiet env W W'"
  "remove_from_whitelist env a r W = Inr (u, W') \<Longrightarrow> quiet env W W'"
  "set_creation_fee env f a W = Inr (u, W') \<Longrightarrow> quiet env W W'"
  by (auto simp: set_withdrawal_cooldown_def set_whitelist_enabled_def add_to_whitelist_def
      remove_from_whitelist_def set_creation_fee_def quiet_eval bindE_eq_Inr split: if_splits)

lemma quiet_pausing:
  "emergency_pause env W = Inr (u, W') \<Longrightarrow> quiet env W W'"
  "emergency_resume env W = Inr (u, W') \<Longrightarrow> quiet env W W'"
  "pause env a W = Inr (u, W') \<Longrightarrow> quiet env W W'"
  "unpause env a W = Inr (u, W') \<Longrightarrow> quiet env W W'"
  "migrate env v v' W = Inr (u, W') \<Longrightarrow> quiet env W W'"
  using append_audit_entry_fees append_audit_entry_frame(1)
  by (fastforce simp: emergency_pause_def emergency_resume_def pause_def unpause_def migrate_def
      quiet_eval bindE_eq_Inr split: if_splits)+

lemma quiet_is_paused: "is_paused env W = (p, W') \<Longrightarrow> quiet env W W'"
  by (auto simp: is_paused_def is_paused_or_auto_unpause_def quiet_def fee_state_def Let_def
      split: if_splits)

lemma fee_changes_books:
  assumes "books_ok T tok (balance_of env tok W) (st W)" "T \<le> T'"
    and "set_protocol_fee env n W = Inr (u, W') \<or>
         propose_fee_change env a n W = Inr (u, W') \<or> execute_fee_change env W = Inr (u, W')"
  shows "books_ok T' tok (balance_of env tok W') (st W')"
proof -
  have "fees_ok (st W)" using assms(1) by (simp add: books_ok_def)
  with assms(3) have "p_streams (st W') = p_streams (st W) \<and> fees_ok (st W') \<and> ext W' = ext W"
    by (auto simp: set_protocol_fee_def propose_fee_change_def execute_fee_change_def Let_def
        handler bindE_eq_Inr ok_or_eq_Inr fees_ok_def split: if_splits option.splits)
  then show ?thesis by (intro admin_books [OF assms(1,2)]) (simp_all add: balance_of_def)
qed

lemma decoded_reply:
  "(case r of VUnit \<Rightarrow> Inr x | _ \<Rightarrow> Inl e) = Inr y \<longleftrightarrow> r = VUnit \<and> x = y"
  "(case r of VI128 n \<Rightarrow> Inr (f n) | _ \<Rightarrow> Inl e) = Inr y \<longleftrightarrow> (\<exists>n. r = VI128 n \<and> f n = y)"
  by (cases r; auto)+

lemma treasury_calls_books:
  assumes "books_ok T tok (balance_of env tok W) (st W)" "T \<le> T'" "honest_token env tok"
    and "withdraw_treasury env tk n a W = Inr (u, W') \<or>
         withdraw_all_from_treasury env tk a W = Inr (v, W') \<or> upgrade env h W = Inr (w, W')"
  shows "books_ok T' tok (balance_of env tok W') (st W')"
proof -
  have "st W' = st W \<and> balance_of env tok W \<le> balance_of env tok W'"
    using assms(4) invoke_balance [OF assms(3)] assms(3)
    by (auto simp: withdraw_treasury_def withdraw_all_from_treasury_def upgrade_def bindE_eq_Inr
        decoded_reply balance_of_def honest_token_def isolated_def split: option.splits)
  then show ?thesis by (intro kept_books [OF assms(1,2)]) simp_all
qed

section \<open>Every invocation keeps the books\<close>

lemma exec_books:
  assumes "exec env c W = Inr (r, W')" "call_ok c"
    and "books_ok T tok (balance_of env tok W) (st W)" "T \<le> ledger_timestamp env"
    and "env_ok env" "honest_token env tok"
  shows "books_ok (ledger_timestamp env) tok (balance_of env tok W') (st W')"
proof -
  note quiet = quiet_books [OF assms(3,4)] and fees = fee_changes_books [OF assms(3,4)]
    and calls = treasury_calls_books [OF assms(3,4,6)]
  note rules = create_stream_books [OF _ assms(3-6)] withdraw_books [OF _ assms(3-6)]
    cancel_stream_books [OF _ assms(3-6)] recipient_terminate_books [OF _ assms(3-6)]
    partial_cancel_stream_books [OF _ assms(3-6)] archive_stream_books [OF _ assms(3,4)]
    transfer_recipient_books [OF _ assms(3-6)] top_up_books [OF _ assms(3-6)]
    pause_stream_books [OF _ assms(3-5)] resume_stream_books [OF _ assms(3-5)]
    update_metadata_books [OF _ assms(3,4)] cancel_auto_renew_books [OF _ assms(3,4)]
    delegate_books [OF _ assms(3,4)] revoke_delegate_books [OF _ assms(3,4)]
    batch_create_stream_books [OF _ assms(3-6)] batch_withdraw_books [OF _ assms(3-6)]
    batch_cancel_stream_books [OF _ assms(3,4,6)]
    quiet_settings [THEN quiet] quiet_admin_settings [THEN quiet] quiet_pausing [THEN quiet]
    quiet_is_paused [THEN quiet] fees [OF disjI1] fees [OF disjI2 [OF disjI1]]
    fees [OF disjI2 [OF disjI2]] calls [OF disjI1] calls [OF disjI2 [OF disjI1]]
    calls [OF disjI2 [OF disjI2]]
  note hints = exec_simps reply_with_Inr call_ok_def call.case stream_call.case batch_call.case
    Let_def sum.inject prod.inject
  show ?thesis
  proof (cases c)
    case (On_setup d)
    with assms(1) show ?thesis
      by (cases d) (auto simp only: hints split: prod.splits intro: rules)
  next
    case (On_stream d)
    with assms(1,2) show ?thesis
      by (cases d) (auto simp only: hints split: prod.splits intro: rules)
  next
    case (On_batch d)
    with assms(1,2) show ?thesis
      by (cases d) (auto simp only: hints split: prod.splits intro: rules)
  next
    case (On_settings d)
    with assms(1) show ?thesis
      by (cases d) (auto simp only: hints split: prod.splits intro: rules)
  qed
qed

end
