(* ===== verification/Machine.thy ===== *)
theory Machine
  imports Interface
begin

text \<open>
  The contract as a machine whose steps are invocations, aborted invocations and activity
  outside the contract, and what holds after every run from deployment.
\<close>

section \<open>The contract as a machine\<close>

text \<open>
  A state is the last ledger time and the world. A step is an invocation by parties other than
  the contract itself, at a ledger time that is not earlier; or an invocation that aborts, whose
  effects the host discards; or activity outside the contract, which does not take tokens of an
  honest token from the contract.
\<close>

definition at :: "'w env \<Rightarrow> nat \<Rightarrow> (address \<Rightarrow> bool) \<Rightarrow> 'w env" where
  "at base now auth = base\<lparr>ledger_timestamp := now, authorizes := auth\<rparr>"

inductive step :: "'w env \<Rightarrow> nat \<times> 'w world \<Rightarrow> nat \<times> 'w world \<Rightarrow> bool" for base where
  invoked:
    "T \<le> now \<Longrightarrow> now \<le> u64_max \<Longrightarrow> \<not> auth (current_contract base) \<Longrightarrow> call_ok c \<Longrightarrow>
     exec (at base now auth) c W = Inr (r, W') \<Longrightarrow> step base (T, W) (now, W')"
| aborted:
    "T \<le> now \<Longrightarrow> now \<le> u64_max \<Longrightarrow> exec (at base now auth) c W = Inl e \<Longrightarrow>
     step base (T, W) (now, W)"
| outside:
    "T \<le> now \<Longrightarrow> now \<le> u64_max \<Longrightarrow>
     (\<And>tok. honest_token base tok \<Longrightarrow>
        balance_of base tok W \<le> balance_of base tok (W\<lparr>ext := w\<rparr>)) \<Longrightarrow>
     step base (T, W) (now, W\<lparr>ext := w\<rparr>)"

inductive_simps step_iff: "step base s t"
inductive_cases stepE: "step base (T, W) (T', W')"

lemma at_simps [simp]:
  "ledger_timestamp (at base now auth) = now"
  "authorizes (at base now auth) = auth"
  "current_contract (at base now auth) = current_contract base"
  "token_balance (at base now auth) = token_balance base"
  "token_transfer (at base now auth) = token_transfer base"
  "invoke_contract (at base now auth) = invoke_contract base"
  "update_wasm (at base now auth) = update_wasm base"
  "sac (at base now auth) tok = sac base tok"
  "honest_token (at base now auth) tok = honest_token base tok"
  "balance_of (at base now auth) tok W = balance_of base tok W"
  by (simp_all add: at_def honest_token_def sac_def isolated_def balance_of_def)

definition solvent :: "'w env \<Rightarrow> address \<Rightarrow> nat \<times> 'w world \<Rightarrow> bool" where
  "solvent base tok s \<longleftrightarrow>
     honest_token base tok \<and>
     books_ok (fst s) tok (balance_of base tok (snd s)) (st (snd s))"

interpretation contract: machine_invariant "step base" "solvent base tok" for base tok
proof unfold_locales
  fix s t
  assume inv: "solvent base tok s" and step: "step base s t"
  obtain T W where s: "s = (T, W)" by (cases s)
  from inv have honest: "honest_token base tok" and books: "books_ok T tok (balance_of base tok W) (st W)"
    by (simp_all add: solvent_def s)
  from step show "solvent base tok t"
    unfolding s
  proof cases
    case (invoked now auth c r W')
    then have "env_ok (at base now auth)" by (simp add: env_ok_def)
    from exec_books [OF invoked(6,5), of T tok] books honest invoked(2) this
    show ?thesis by (simp add: solvent_def invoked(1))
  next
    case (aborted now auth c e)
    with books_later [OF books] honest show ?thesis by (simp add: solvent_def)
  next
    case (outside now w)
    from kept_books [OF books outside(2) _ _ outside(4) [OF honest]] honest outside(1)
    show ?thesis by (simp add: solvent_def)
  qed
qed

lemma genesis_solvent:
  assumes "honest_token base tok" "0 \<le> token_balance base tok (current_contract base) w"
  shows "solvent base tok (0, genesis w)"
  using assms by (simp add: solvent_def books_ok_def table_ok_def fees_ok_def balance_of_def
      empty_storage_def)

lemmas eval_simps =
  Let_def handler empty_storage_def genesis_def when_not_paused_def is_paused_def
  is_paused_or_auto_unpause_def require_auth_def rust_int u32_max_def u64_max_def in_i128_def
  i128_max_def i128_min_def div_i128_def rem_i128_def signed_divide_int_def
  signed_modulo_int_def at_def
  transfer_def ledger_transfer_def pay_if_positive_def register_stream_def
  index_by_sender_def index_by_recipient_def index_global_stream_def in_store_def publish_def
  get_sender_stream_count_def get_recipient_stream_count_def find_stream_def reply_with_def
  collect_creation_fee_def

section \<open>A concrete run\<close>

text \<open>
  One stream of 7200 units over an hour, cliff after a minute, on the reference ledger: the
  state the witnesses start from.
\<close>

definition demo_base :: "ledger env" where
  "demo_base = ledger_env 0 (Addr 0) []"

definition demo_ledger :: ledger where
  "demo_ledger = (\<lambda>_ a. if a = Addr 1 then 9000 else 0)"

definition demo_stream :: stream where
  "demo_stream =
     \<lparr>s_id = 72620543991349248, s_sender = Addr 1, s_recipient = Addr 2, s_token = Addr 9,
      s_deposit = 7200, s_flow_rate = 2, s_start_time = 100, s_cliff_time = 160,
      s_lock_until = 0, s_end_time = 3700, s_last_withdraw_time = 100, s_status = Active,
      s_auto_renew = False, s_allow_recipient_termination = True, s_last_pause_time = 0,
      s_total_withdrawn = 0, s_metadata = []\<rparr>"

lemma demo_base_honest: "honest_token demo_base tok"
  by (simp add: demo_base_def ledger_honest)

lemma demo_base_liquid: "liquid demo_base tok"
  by (simp add: demo_base_def ledger_liquid)

lemma demo_ledger_nonneg: "0 \<le> token_balance demo_base tok a demo_ledger"
  by (simp add: demo_base_def demo_ledger_def)

lemma demo_id:
  "derive_stream_id (ledger_env 0 self sg\<lparr>ledger_timestamp := now, authorizes := auth\<rparr>)
     (Addr (Suc 0)) (Addr 2) 100 5 = 72620543991349248"
proof -
  have "[0..<8] = [0, 1, 2, 3, 4, 5, 6, 7::nat]" by (simp add: upt_rec)
  then show ?thesis
    by (simp add: derive_stream_id_def to_be_bytes_def from_be_bytes_def ledger_env_def)
qed

lemma demo_run:
  obtains W where "runs (step demo_base) (0, genesis demo_ledger) (100, W)"
    and "p_streams (st W) = [72620543991349248 \<mapsto> demo_stream]"
    and "ext W = (\<lambda>t a. if t = Addr 9 \<and> a = Addr 0 then 7200
                    else if t = Addr 9 \<and> a = Addr 1 then 1800
                    else if a = Addr 1 then 9000 else 0)"
    and "get_sender_stream_count (st W) (Addr 1) = 1"
    and "get_recipient_stream_count (st W) (Addr 2) = 1"
    and "get_global_stream_count (st W) = 1" "i_paused (st W) = None" "i_fee_bps (st W) = None"
    and "p_fe (st W) = Map.empty" "i_wd_cd (st W) = None"
    and "\<forall>a. a \<noteq> Addr 2 \<longrightarrow> get_recipient_stream_count (st W) a = 0"
proof -
  let ?call = "On_stream (Create_stream (Addr 1) (Addr 2) (Addr 9) 7200 3600 60 5 False 0 True [])"
  have "\<exists>r W. exec (at demo_base 100 (\<lambda>a. a = Addr 1)) ?call (genesis demo_ledger) = Inr (r, W)
      \<and> p_streams (st W) = [72620543991349248 \<mapsto> demo_stream]
      \<and> ext W = (\<lambda>t a. if t = Addr 9 \<and> a = Addr 0 then 7200
                    else if t = Addr 9 \<and> a = Addr 1 then 1800
                    else if a = Addr 1 then 9000 else 0)
      \<and> get_sender_stream_count (st W) (Addr 1) = 1
      \<and> get_recipient_stream_count (st W) (Addr 2) = 1
      \<and> get_global_stream_count (st W) = 1 \<and> i_paused (st W) = None
      \<and> i_fee_bps (st W) = None \<and> p_fe (st W) = Map.empty \<and> i_wd_cd (st W) = None
      \<and> (\<forall>a. a \<noteq> Addr 2 \<longrightarrow> get_recipient_stream_count (st W) a = 0)"
    by (simp add: create_stream_def eval_simps demo_id demo_base_def demo_ledger_def
        demo_stream_def) (auto simp: fun_eq_iff)
  then obtain r W where W: "exec (at demo_base 100 (\<lambda>a. a = Addr 1)) ?call (genesis demo_ledger)
      = Inr (r, W)"
    and x: "p_streams (st W) = [72620543991349248 \<mapsto> demo_stream]"
    and e: "ext W = (\<lambda>t a. if t = Addr 9 \<and> a = Addr 0 then 7200
                    else if t = Addr 9 \<and> a = Addr 1 then 1800
                    else if a = Addr 1 then 9000 else 0)"
    and d: "get_sender_stream_count (st W) (Addr 1) = 1"
      "get_recipient_stream_count (st W) (Addr 2) = 1" "get_global_stream_count (st W) = 1"
      "i_paused (st W) = None" "i_fee_bps (st W) = None"
      "p_fe (st W) = Map.empty" "i_wd_cd (st W) = None"
      "\<forall>a. a \<noteq> Addr 2 \<longrightarrow> get_recipient_stream_count (st W) a = 0"
    by blast
  have "step demo_base (0, genesis demo_ledger) (100, W)"
    by (rule invoked [OF _ _ _ _ W]) (simp_all add: u64_max_def call_ok_def in_i128_def
        i128_max_def i128_min_def demo_base_def)
  then have "runs (step demo_base) (0, genesis demo_ledger) (100, W)"
    by (rule runs_step [OF runs_refl])
  then show thesis using x e d by (rule that)
qed

text \<open>The same stream, with a protocol fee of 2.5% and a treasury.\<close>

lemma demo_step:
  assumes "runs (step demo_base) s (T, W)" "T \<le> now" "now \<le> u64_max"
    and "exec (at demo_base now auth) c W = Inr (r, W')" "call_ok c" "\<not> auth (Addr 0)"
  shows "runs (step demo_base) s (now, W')"
  using assms by (intro runs_step [OF assms(1) invoked [OF _ _ _ _ assms(4)]])
    (simp_all add: demo_base_def)

lemma demo_run_fee:
  obtains W where "runs (step demo_base) (0, genesis demo_ledger) (200, W)"
    and "p_streams (st W) = [72620543991349248 \<mapsto> demo_stream]"
    and "ext W = (\<lambda>t a. if t = Addr 9 \<and> a = Addr 0 then 7200
                    else if t = Addr 9 \<and> a = Addr 1 then 1800
                    else if a = Addr 1 then 9000 else 0)"
    and "get_treasury (st W) = Some (Addr 7)" "get_protocol_fee (st W) = 250"
    and "i_paused (st W) = None" "p_fe (st W) = Map.empty" "i_wd_cd (st W) = None"
    and "\<forall>a. a \<noteq> Addr 2 \<longrightarrow> get_recipient_stream_count (st W) a = 0"
proof -
  obtain W where run: "runs (step demo_base) (0, genesis demo_ledger) (100, W)"
    and x: "p_streams (st W) = [72620543991349248 \<mapsto> demo_stream]"
    and e: "ext W = (\<lambda>t a. if t = Addr 9 \<and> a = Addr 0 then 7200
                    else if t = Addr 9 \<and> a = Addr 1 then 1800
                    else if a = Addr 1 then 9000 else 0)"
    and p: "i_paused (st W) = None" "p_fe (st W) = Map.empty" "i_wd_cd (st W) = None"
    and i: "\<forall>a. a \<noteq> Addr 2 \<longrightarrow> get_recipient_stream_count (st W) a = 0"
    by (rule demo_run)
  let ?W1 = "in_store (set_treasury (Addr 7)) W"
  let ?W2 = "in_store (storage_set_protocol_fee 250) ?W1"
  have "runs (step demo_base) (0, genesis demo_ledger) (150, ?W1)"
    by (rule demo_step [OF run, where c = "On_batch (Set_treasury_address (Addr 7))" and r = RUnit
          and auth = "\<lambda>_. False"])
      (simp_all add: set_treasury_address_def reply_with_def call_ok_def u64_max_def)
  then have "runs (step demo_base) (0, genesis demo_ledger) (200, ?W2)"
    by (rule demo_step [where c = "On_batch (Set_protocol_fee 250)" and r = RUnit and auth = "\<lambda>_. False"])
      (simp_all add: set_protocol_fee_def reply_with_def call_ok_def u64_max_def)
  then show thesis
    using x e p i by (intro that [of ?W2]) (simp_all add: handler get_recipient_stream_count_def)
qed

section \<open>Solvency\<close>

text \<open>
  C1: solvency. From deployment on, after any sequence of invocations by any callers, aborted
  invocations and outside activity, the contract's balance of an honest token covers the
  undistributed deposits of all live streams in that token together.
\<close>

theorem solvency:
  assumes "runs (step base) (0, genesis w) (T, W)"
    and "honest_token base tok" "0 \<le> token_balance base tok (current_contract base) w"
  shows "msum (owed tok) (p_streams (st W)) \<le> token_balance base tok (current_contract base) (ext W)"
  using contract.runs_inv [OF assms(1) genesis_solvent [OF assms(2,3)]]
  by (simp add: solvent_def books_ok_def balance_of_def)

theorem solvency_witness:
  "\<exists>W. runs (step demo_base) (0, genesis demo_ledger) (100, W) \<and> p_streams (st W) \<noteq> Map.empty \<and>
       msum (owed (Addr 9)) (p_streams (st W)) \<le> token_balance demo_base (Addr 9) (Addr 0) (ext W)"
proof -
  obtain W where run: "runs (step demo_base) (0, genesis demo_ledger) (100, W)"
    and x: "p_streams (st W) = [72620543991349248 \<mapsto> demo_stream]"
    by (rule demo_run)
  from solvency [OF run demo_base_honest demo_ledger_nonneg] run x
  show ?thesis by (intro exI [of _ W]) (auto simp: demo_base_def)
qed

end
