(* ===== verification/Settlement.thy ===== *)
theory Settlement
  imports Machine
begin

text \<open>
  What ending a stream pays, to the token, in any state the contract can reach: cancellation
  pays exactly what the stream is owed and is always possible; termination by the recipient pays
  the same way; a partial cancellation splits it.
\<close>

section \<open>Exact payments\<close>

lemma pay_exact:
  assumes "sac env tok" "0 \<le> a" "pay_if_positive env tok t a W = Inr W'"
  shows "token_balance env tok y (ext W') = token_balance env tok y (ext W)
      - (if y = current_contract env then a else 0) + (if y = t then a else 0)"
  using assms sacD(3) [OF assms(1)] by (auto simp: pay_if_positive_Inr split: if_splits)

lemma transfer_exact:
  assumes "sac env tok" "transfer env tok f t a W = Inr W'"
  shows "token_balance env tok y (ext W') = token_balance env tok y (ext W)
      - (if y = f then a else 0) + (if y = t then a else 0)"
  using assms sacD(3) [OF assms(1)] by (auto simp: transfer_Inr)

lemma pay_possible:
  assumes "liquid env tok" "a \<le> balance_of env tok W"
  shows "\<exists>W'. pay_if_positive env tok t a W = Inr W'"
  using assms by (cases "0 < a") (auto simp: pay_if_positive_Inr liquid_def balance_of_def
      simp del: option.exhaust_sel dest: spec)

text \<open>
  Settling a stream: after both payments recipient and sender have received exactly the claim
  and the rest of the deposit.
\<close>

lemma settle_exact:
  assumes ok: "stream_ok T x" "live x"
    and c: "c = 0 \<or> c = s_flow_rate x * int (min n (s_end_time x) - s_last_withdraw_time x)"
    and sac: "sac env (s_token x)"
    and pay: "pay_if_positive env (s_token x) (s_recipient x) c W = Inr W1"
      "pay_if_positive env (s_token x) (s_sender x) (refund_of x c) W1 = Inr W2"
    and parties: "distinct [s_sender x, s_recipient x, current_contract env]"
  shows "0 \<le> c" "0 \<le> refund_of x c" "c + refund_of x c = s_deposit x - s_total_withdrawn x"
    "token_balance env (s_token x) (s_recipient x) (ext W2)
       = token_balance env (s_token x) (s_recipient x) (ext W) + c"
    "token_balance env (s_token x) (s_sender x) (ext W2)
       = token_balance env (s_token x) (s_sender x) (ext W) + refund_of x c"
    "token_balance env (s_token x) (current_contract env) (ext W2)
       = token_balance env (s_token x) (current_contract env) (ext W) - (c + refund_of x c)"
    "st W2 = st W"
proof -
  note s = settlement [OF ok c]
  show "0 \<le> c" "0 \<le> refund_of x c" "c + refund_of x c = s_deposit x - s_total_withdrawn x"
    using s by simp_all
  have moved: "token_balance env (s_token x) y (ext W2) = token_balance env (s_token x) y (ext W)
      - (if y = current_contract env then c + refund_of x c else 0)
      + (if y = s_recipient x then c else 0) + (if y = s_sender x then refund_of x c else 0)" for y
    using pay_exact [OF sac s(2) pay(1), of y] pay_exact [OF sac s(3) pay(2), of y] by simp
  show "token_balance env (s_token x) (s_recipient x) (ext W2)
       = token_balance env (s_token x) (s_recipient x) (ext W) + c"
    using moved [of "s_recipient x"] parties by auto
  show "token_balance env (s_token x) (s_sender x) (ext W2)
       = token_balance env (s_token x) (s_sender x) (ext W) + refund_of x c"
    using moved [of "s_sender x"] parties by auto
  show "token_balance env (s_token x) (current_contract env) (ext W2)
       = token_balance env (s_token x) (current_contract env) (ext W) - (c + refund_of x c)"
    using moved [of "current_contract env"] parties by auto
  show "st W2 = st W" using pay_if_positive_st [OF pay(1)] pay_if_positive_st [OF pay(2)] by simp
qed

section \<open>What holds of the streams after every run\<close>

lemma reachable_books:
  assumes "runs (step base) (0, genesis w) (T, W)"
    and "honest_token base tok" "0 \<le> token_balance base tok (current_contract base) w"
  shows "books_ok T tok (balance_of base tok W) (st W)"
  using contract.runs_inv [OF assms(1) genesis_solvent [OF assms(2,3)]] by (simp add: solvent_def)

text \<open>
  C5: after any run every stored stream is filed under its own id with all fields in the range
  of their types, and a live one is well formed: its times are in order, its rate times its
  duration is covered by its deposit, and no more was withdrawn than had streamed.
\<close>

theorem streams_well_formed:
  assumes "runs (step base) (0, genesis w) (T, W)" "honest_token base tok"
    and "0 \<le> token_balance base tok (current_contract base) w"
    and "p_streams (st W) k = Some x"
  shows "s_id x = k \<and> typed x \<and> (live x \<longrightarrow> funded T x \<and> s_total_withdrawn x \<le> s_deposit x)"
  using books_stream [OF reachable_books [OF assms(1-3)] assms(4)] funded_owed_nonneg
  by (auto simp: stream_ok_def)

theorem streams_well_formed_witness:
  "\<exists>W. runs (step demo_base) (0, genesis demo_ledger) (100, W) \<and>
       p_streams (st W) 72620543991349248 = Some demo_stream \<and>
       s_id demo_stream = 72620543991349248 \<and> typed demo_stream \<and>
       (live demo_stream \<longrightarrow> funded 100 demo_stream \<and>
          s_total_withdrawn demo_stream \<le> s_deposit demo_stream)"
proof -
  obtain W where run: "runs (step demo_base) (0, genesis demo_ledger) (100, W)"
    and x: "p_streams (st W) = [72620543991349248 \<mapsto> demo_stream]"
    by (rule demo_run)
  have "p_streams (st W) 72620543991349248 = Some demo_stream" by (simp add: x)
  from streams_well_formed [OF run demo_base_honest [of "Addr 9"] demo_ledger_nonneg this] this run
  show ?thesis by blast
qed

section \<open>Cancellation\<close>

text \<open>
  C2: cancelling. A cancellation that succeeds pays the recipient exactly what was earned up to
  now (or up to the pause) and the sender exactly the rest: the deposit less everything withdrawn
  and less what was earned. So the contract pays out exactly what the stream was owed, and it
  removes the stream: no record of a cancelled stream stays behind. (The specification document
  and a property test expect a stored record with the status \<open>Cancelled\<close>, and the document a
  refund without the withdrawn total; \<open>lib.rs\<close> does what is stated here.)
\<close>

theorem cancel_pays_exactly:
  assumes run: "runs (step base) (0, genesis w) (T, W)"
    and tok: "honest_token base (s_token x)"
      "0 \<le> token_balance base (s_token x) (current_contract base) w"
    and x: "p_streams (st W) k = Some x"
    and op: "cancel_stream (at base now auth) k caller W = Inr ((), W')"
    and parties: "distinct [s_sender x, s_recipient x, current_contract base]"
  shows "\<exists>earned refund.
     earned = s_flow_rate x * int (min (stream_now (at base now auth) x) (s_end_time x)
                - s_last_withdraw_time x) \<and>
     0 \<le> earned \<and> 0 \<le> refund \<and> earned + refund = s_deposit x - s_total_withdrawn x \<and>
     token_balance base (s_token x) (s_recipient x) (ext W')
       = token_balance base (s_token x) (s_recipient x) (ext W) + earned \<and>
     token_balance base (s_token x) (s_sender x) (ext W')
       = token_balance base (s_token x) (s_sender x) (ext W) + refund \<and>
     balance_of base (s_token x) W' = balance_of base (s_token x) W - (earned + refund) \<and>
     p_streams (st W') = (p_streams (st W))(k := None)"
proof -
  let ?env = "at base now auth"
  from op x obtain c W1 W2 where live: "live x"
    and c: "compute_earned (s_flow_rate x) (stream_now ?env x) (s_end_time x)
        (s_last_withdraw_time x) = Some c"
    and pay: "pay_if_positive ?env (s_token x) (s_recipient x) c W = Inr W1"
      "pay_if_positive ?env (s_token x) (s_sender x) (refund_of x c) W1 = Inr W2"
    and W': "st W' = close_stream k x (st W2)" "ext W' = ext W2"
    by (auto simp: cancel_stream_def Let_def bindE_eq_Inr ok_or_eq_Inr find_stream_Inr
        if_Inl_eq_Inr)
  have sac: "sac ?env (s_token x)"
    using tok(1) by (simp add: honest_token_def)
  have ok: "stream_ok T x"
    using books_stream [OF reachable_books [OF run tok] x] by simp
  note c_eq = earned_amount [OF c]
  note out = settle_exact [OF ok live disjI2 [OF c_eq] sac pay, unfolded at_simps, OF parties]
  have gone: "p_streams (st W') = (p_streams (st W))(k := None)" by (simp add: W'(1) out(7))
  show ?thesis
    unfolding balance_of_def W'(2)
    by (rule exI, rule exI, intro conjI) (rule c_eq out gone)+
qed

theorem cancel_pays_exactly_witness:
  "\<exists>W W'. cancel_stream (at demo_base 1100 (\<lambda>a. a = Addr 1)) 72620543991349248 (Addr 1) W
       = Inr ((), W') \<and>
     token_balance demo_base (Addr 9) (Addr 2) (ext W')
       = token_balance demo_base (Addr 9) (Addr 2) (ext W) + 2000 \<and>
     token_balance demo_base (Addr 9) (Addr 1) (ext W')
       = token_balance demo_base (Addr 9) (Addr 1) (ext W) + 5200"
proof -
  obtain W where run: "runs (step demo_base) (0, genesis demo_ledger) (100, W)"
    and x: "p_streams (st W) = [72620543991349248 \<mapsto> demo_stream]"
    and e: "ext W = (\<lambda>t a. if t = Addr 9 \<and> a = Addr 0 then 7200
                    else if t = Addr 9 \<and> a = Addr 1 then 1800
                    else if a = Addr 1 then 9000 else 0)"
    by (rule demo_run)
  have x': "p_streams (st W) 72620543991349248 = Some demo_stream" by (simp add: x)
  obtain W' where op: "cancel_stream (at demo_base 1100 (\<lambda>a. a = Addr 1)) 72620543991349248
      (Addr 1) W = Inr ((), W')"
    by (simp add: cancel_stream_def eval_simps x e demo_stream_def demo_base_def may_manage_def
        live_def stream_now_def compute_earned_def refund_of_def clamp_i128_def)
  have "distinct [s_sender demo_stream, s_recipient demo_stream, current_contract demo_base]"
    by (simp add: demo_stream_def demo_base_def)
  from cancel_pays_exactly [OF run demo_base_honest demo_ledger_nonneg x' op this] op
  show ?thesis
    by (intro exI [of _ W] exI [of _ W'])
      (auto simp: demo_stream_def stream_now_def)
qed

text \<open>
  C4: termination by the recipient. It needs the stream's permission; it then pays the recipient
  exactly what can be claimed now, which is nothing before the cliff and otherwise what was
  earned since the last withdrawal, pays the sender exactly the rest, and removes the stream.
\<close>

theorem recipient_terminate_pays:
  assumes run: "runs (step base) (0, genesis w) (T, W)"
    and tok: "honest_token base (s_token x)"
      "0 \<le> token_balance base (s_token x) (current_contract base) w"
    and x: "p_streams (st W) k = Some x"
    and op: "recipient_terminate (at base now auth) k caller W = Inr ((), W')"
    and parties: "distinct [s_sender x, s_recipient x, current_contract base]"
  shows "\<exists>claim refund.
     claim = (if stream_now (at base now auth) x < s_cliff_time x then 0
              else s_flow_rate x * int (min (stream_now (at base now auth) x) (s_end_time x)
                - s_last_withdraw_time x)) \<and>
     0 \<le> claim \<and> 0 \<le> refund \<and> claim + refund = s_deposit x - s_total_withdrawn x \<and>
     caller = s_recipient x \<and> auth caller \<and> s_allow_recipient_termination x \<and>
     token_balance base (s_token x) (s_recipient x) (ext W')
       = token_balance base (s_token x) (s_recipient x) (ext W) + claim \<and>
     token_balance base (s_token x) (s_sender x) (ext W')
       = token_balance base (s_token x) (s_sender x) (ext W) + refund \<and>
     balance_of base (s_token x) W' = balance_of base (s_token x) W - (claim + refund) \<and>
     p_streams (st W') = (p_streams (st W))(k := None)"
proof -
  let ?env = "at base now auth"
  from op obtain Wp x' c W1 W2 where Wp: "when_not_paused ?env W = Inr Wp"
    and x': "p_streams (st Wp) k = Some x'" and guards: "live x'" "s_recipient x' = caller"
      "auth caller" "s_allow_recipient_termination x'"
    and c: "compute_claimable (s_flow_rate x') (stream_now ?env x') (s_cliff_time x')
        (s_end_time x') (s_last_withdraw_time x') = Some c"
    and pay: "pay_if_positive ?env (s_token x') caller c Wp = Inr W1"
      "pay_if_positive ?env (s_token x') (s_sender x') (refund_of x' c) W1 = Inr W2"
    and W': "st W' = close_stream k x' (st W2)" "ext W' = ext W2"
    by (auto simp: recipient_terminate_def Let_def bindE_eq_Inr ok_or_eq_Inr find_stream_Inr
        if_Inl_eq_Inr require_auth_Inr)
  note frame = unpause_frame [OF Wp]
  have xx: "x' = x" using x x' frame(1) by simp
  have sac: "sac ?env (s_token x)"
    using tok(1) by (simp add: honest_token_def)
  have ok: "stream_ok T x"
    using books_stream [OF reachable_books [OF run tok] x] by simp
  have c_eq: "c = (if stream_now ?env x < s_cliff_time x then 0
      else s_flow_rate x * int (min (stream_now ?env x) (s_end_time x) - s_last_withdraw_time x))"
    using c by (auto simp: xx compute_claimable_eq compute_earned_eq checked_mul_Some
        split: if_splits)
  note out = settle_exact [OF ok guards(1) [unfolded xx] compute_claimable_cases [OF c [unfolded xx]]
      sac pay [unfolded xx, folded guards(2) [unfolded xx]], unfolded at_simps, OF parties]
  have gone: "p_streams (st W') = (p_streams (st W))(k := None)"
    by (simp add: W'(1) out(7) frame)
  show ?thesis
    unfolding balance_of_def W'(2)
    by (rule exI [of _ c], rule exI [of _ "refund_of x c"], intro conjI)
      (rule c_eq out [unfolded frame] gone guards(2) [symmetric, unfolded xx] guards(3)
        guards(4) [unfolded xx])+
qed

theorem recipient_terminate_pays_witness:
  "\<exists>W W'. recipient_terminate (at demo_base 1100 (\<lambda>a. a = Addr 2)) 72620543991349248 (Addr 2) W
       = Inr ((), W') \<and>
     token_balance demo_base (Addr 9) (Addr 2) (ext W')
       = token_balance demo_base (Addr 9) (Addr 2) (ext W) + 2000 \<and>
     token_balance demo_base (Addr 9) (Addr 1) (ext W')
       = token_balance demo_base (Addr 9) (Addr 1) (ext W) + 5200"
proof -
  obtain W where run: "runs (step demo_base) (0, genesis demo_ledger) (100, W)"
    and x: "p_streams (st W) = [72620543991349248 \<mapsto> demo_stream]"
    and e: "ext W = (\<lambda>t a. if t = Addr 9 \<and> a = Addr 0 then 7200
                    else if t = Addr 9 \<and> a = Addr 1 then 1800
                    else if a = Addr 1 then 9000 else 0)"
    and p: "i_paused (st W) = None"
    by (rule demo_run)
  have x': "p_streams (st W) 72620543991349248 = Some demo_stream" by (simp add: x)
  obtain W' where op: "recipient_terminate (at demo_base 1100 (\<lambda>a. a = Addr 2))
      72620543991349248 (Addr 2) W = Inr ((), W')"
    using p by (simp add: recipient_terminate_def eval_simps x e demo_stream_def demo_base_def
        live_def stream_now_def compute_claimable_def refund_of_def clamp_i128_def)
  have "distinct [s_sender demo_stream, s_recipient demo_stream, current_contract demo_base]"
    by (simp add: demo_stream_def demo_base_def)
  from recipient_terminate_pays [OF run demo_base_honest demo_ledger_nonneg x' op this] op
  show ?thesis
    by (intro exI [of _ W] exI [of _ W']) (auto simp: demo_stream_def stream_now_def)
qed

text \<open>
  C3: cancellation is always possible. In any state the contract can reach, the contract paused
  or not, the sender or the delegate of a live stream (active or paused, before or after its end)
  in an honest and liquid token can cancel it: the call succeeds and removes the stream, so no
  deposit of a live stream can be locked in the contract. (The specification document would have
  a paused stream refuse and the record kept with the status \<open>Cancelled\<close>; the code does neither.)
\<close>

theorem cancel_succeeds:
  assumes run: "runs (step base) (0, genesis w) (T, W)"
    and tok: "honest_token base (s_token x)" "liquid base (s_token x)"
      "0 \<le> token_balance base (s_token x) (current_contract base) w"
    and x: "p_streams (st W) k = Some x" "live x"
    and caller: "auth caller" "caller = s_sender x \<or> get_delegate (st W) k = Some caller"
  shows "\<exists>W'. cancel_stream (at base now auth) k caller W = Inr ((), W') \<and>
              p_streams (st W') k = None"
proof -
  let ?env = "at base now auth" and ?c = "s_flow_rate x *
    int (min (stream_now (at base now auth) x) (s_end_time x) - s_last_withdraw_time x)"
  have books: "books_ok T (s_token x) (balance_of base (s_token x) W) (st W)"
    by (rule reachable_books [OF run tok(1,3)])
  have ok: "stream_ok T x" using books_stream [OF books x(1)] by simp
  note s = settlement [OF ok x(2) disjI2 [OF refl], of "stream_now ?env x"]
  have cover: "s_deposit x - s_total_withdrawn x \<le> balance_of base (s_token x) W"
    using books_cover [OF books x(1)] x(2) by (simp add: owed_def)
  have sac: "sac ?env (s_token x)"
    using tok(1) by (simp add: honest_token_def)
  have liquid: "liquid ?env (s_token x)" using tok(2) by (simp add: liquid_def)
  have "s_deposit x \<le> i128_max" "s_total_withdrawn x \<ge> 0" "in_i128 (s_deposit x)"
    using ok x(2) by (auto simp: stream_ok_def typed_def funded_def in_i128_def)
  then have "in_i128 ?c" using s by (intro in_i128_below [of ?c "s_deposit x"]) simp_all
  then have earned: "compute_earned (s_flow_rate x) (stream_now ?env x) (s_end_time x)
      (s_last_withdraw_time x) = Some ?c"
    by (simp add: compute_earned_eq checked_mul_i128_def)
  obtain W1 where W1: "pay_if_positive ?env (s_token x) (s_recipient x) ?c W = Inr W1"
    using pay_possible [OF liquid] s cover by fastforce
  have "refund_of x ?c \<le> balance_of ?env (s_token x) W1"
    using pay_exact [OF sac s(2) W1, of "current_contract base"] s cover
    by (simp add: balance_of_def split: if_splits)
  then obtain W2 where W2: "pay_if_positive ?env (s_token x) (s_sender x) (refund_of x ?c) W1
      = Inr W2"
    using pay_possible [OF liquid] by blast
  have "may_manage W k x caller" using caller(2) by (auto simp: may_manage_def)
  then show ?thesis
    using x caller(1) earned W1 W2
    by (simp add: cancel_stream_def require_auth_def find_stream_def load_stream_def Let_def)
qed

theorem cancel_succeeds_witness:
  "\<exists>W W'. runs (step demo_base) (0, genesis demo_ledger) (100, W) \<and>
     cancel_stream (at demo_base 50000 (\<lambda>a. a = Addr 1)) 72620543991349248 (Addr 1) W
       = Inr ((), W') \<and> p_streams (st W') 72620543991349248 = None"
proof -
  obtain W where run: "runs (step demo_base) (0, genesis demo_ledger) (100, W)"
    and x: "p_streams (st W) = [72620543991349248 \<mapsto> demo_stream]"
    by (rule demo_run)
  have x': "p_streams (st W) 72620543991349248 = Some demo_stream" by (simp add: x)
  have live: "live demo_stream" by (simp add: demo_stream_def live_def)
  have "Addr 1 = s_sender demo_stream \<or>
      get_delegate (st W) 72620543991349248 = Some (Addr 1)" by (simp add: demo_stream_def)
  from cancel_succeeds [OF run demo_base_honest demo_base_liquid demo_ledger_nonneg x' live _ this,
      where auth = "\<lambda>a. a = Addr 1" and now = 50000] run
  show ?thesis by blast
qed

section \<open>Partial cancellation\<close>

text \<open>
  A partial cancellation in a reachable state: what is computed, the new stream, and how the
  token moves.
\<close>

lemma reachable_partial_cancel:
  assumes run: "runs (step base) (0, genesis w) (T, W)" and now: "T \<le> now"
    and tok: "honest_token base (s_token x)"
      "0 \<le> token_balance base (s_token x) (current_contract base) w"
    and x: "p_streams (st W) k = Some x"
    and op: "partial_cancel_stream (at base now auth) k caller a W = Inr (k', W')"
  obtains n d where "n = stream_now (at base now auth) x" "live x" "0 < a" "0 < d"
    "0 \<le> s_flow_rate x * int (n - s_last_withdraw_time x)" "0 < s_flow_rate x"
    "s_flow_rate x * int (n - s_last_withdraw_time x) + a + d
       = s_deposit x - s_flow_rate x * int (s_last_withdraw_time x - s_start_time x)"
    "k' = derive_stream_id (at base now auth) (s_sender x) (s_recipient x) n k"
    "p_streams (st W') = (p_streams (st W))(k \<mapsto> x\<lparr>s_status := Cancelled\<rparr>,
       k' \<mapsto> continued x k' n d (d div s_flow_rate x))"
    "0 \<le> d div s_flow_rate x"
    "\<forall>z. token_balance base (s_token x) z (ext W') = token_balance base (s_token x) z (ext W)
      - (if z = current_contract base
         then s_flow_rate x * int (n - s_last_withdraw_time x) + a else 0)
      + (if z = s_recipient x then s_flow_rate x * int (n - s_last_withdraw_time x) else 0)
      + (if z = s_sender x then a else 0)"
proof -
  let ?env = "at base now auth"
  have books: "books_ok T (s_token x) (balance_of base (s_token x) W) (st W)"
    by (rule reachable_books [OF run tok])
  obtain x' n f e d W1 W2 where x': "p_streams (st W) k = Some x'" and live: "live x'"
    and n: "n = stream_now ?env x'" and f: "f = s_flow_rate x'"
    and e: "e = f * int (n - s_last_withdraw_time x')" and pos: "0 < f" "0 < a" "0 < d" "0 \<le> e"
    and sum: "e + a + d = s_deposit x' - f * int (s_last_withdraw_time x' - s_start_time x')"
    and m: "0 \<le> d div f"
    and W1: "pay_if_positive ?env (s_token x') (s_recipient x') e W = Inr W1"
    and W2: "transfer ?env (s_token x') (current_contract ?env) (s_sender x') a W1
      = (Inr W2 :: (stream_error, _) outcome)"
    and s: "register_stream (continued x' k' n d (d div f))
        (save_stream (x'\<lparr>s_status := Cancelled\<rparr>) (st W)) = Inr (st W')"
    and ext: "ext W' = ext W2"
    and k': "k' = derive_stream_id ?env (s_sender x') (s_recipient x') n k"
    by (rule partial_cancel_at [OF op books]) (use now in simp_all)
  have xx: "x' = x" using x x' by simp
  note pos = pos [unfolded f]
  have sac: "sac ?env (s_token x)" using tok(1) by (simp add: honest_token_def)
  have moved: "\<forall>z. token_balance base (s_token x) z (ext W')
      = token_balance base (s_token x) z (ext W)
      - (if z = current_contract base then e + a else 0)
      + (if z = s_recipient x then e else 0) + (if z = s_sender x then a else 0)"
    using pay_exact [OF sac pos(4) W1 [unfolded xx]] transfer_exact [OF sac W2 [unfolded xx]] ext
    by simp
  have tab: "p_streams (st W') = (p_streams (st W))(k \<mapsto> x\<lparr>s_status := Cancelled\<rparr>,
      k' \<mapsto> continued x k' n d (d div f))"
    using register_stream_streams [OF s] books_stream [OF books x] by (simp add: xx)
  show thesis
    by (rule that [OF n [unfolded xx] live [unfolded xx] pos(2,3) pos(4) [unfolded e f xx]
          pos(1) [unfolded xx] sum [unfolded e f xx] k' [unfolded xx] tab [unfolded f xx]
          m [unfolded f xx] moved [unfolded e f xx]])
qed

text \<open>
  C9: a partial cancellation that succeeds pays the recipient everything earned since the last
  withdrawal and the sender exactly the amount asked for, and continues the rest in a new stream
  at the same rate, whose duration is the new deposit over the rate. The three parts together
  are what had not streamed before the last withdrawal.
\<close>

theorem partial_cancel_splits:
  assumes run: "runs (step base) (0, genesis w) (T, W)" and now: "T \<le> now"
    and tok: "honest_token base (s_token x)"
      "0 \<le> token_balance base (s_token x) (current_contract base) w"
    and x: "p_streams (st W) k = Some x"
    and op: "partial_cancel_stream (at base now auth) k caller a W = Inr (k', W')"
    and parties: "distinct [s_sender x, s_recipient x, current_contract base]"
  shows "\<exists>earned y.
     earned = s_flow_rate x * int (stream_now (at base now auth) x - s_last_withdraw_time x) \<and>
     0 \<le> earned \<and> 0 < a \<and> p_streams (st W') k' = Some y \<and> live y \<and> 0 < s_deposit y \<and>
     s_flow_rate y = s_flow_rate x \<and> s_start_time y = stream_now (at base now auth) x \<and>
     int (s_end_time y - s_start_time y) = s_deposit y div s_flow_rate x \<and>
     earned + a + s_deposit y = s_deposit x - s_flow_rate x *
        int (s_last_withdraw_time x - s_start_time x) \<and>
     token_balance base (s_token x) (s_recipient x) (ext W')
       = token_balance base (s_token x) (s_recipient x) (ext W) + earned \<and>
     token_balance base (s_token x) (s_sender x) (ext W')
       = token_balance base (s_token x) (s_sender x) (ext W) + a \<and>
     balance_of base (s_token x) W' = balance_of base (s_token x) W - (earned + a)"
proof -
  obtain n d where n: "n = stream_now (at base now auth) x" and live: "live x"
    and pos: "0 < a" "0 < d" "0 \<le> s_flow_rate x * int (n - s_last_withdraw_time x)"
      "0 < s_flow_rate x"
    and sum: "s_flow_rate x * int (n - s_last_withdraw_time x) + a + d
       = s_deposit x - s_flow_rate x * int (s_last_withdraw_time x - s_start_time x)"
    and "k' = derive_stream_id (at base now auth) (s_sender x) (s_recipient x) n k"
    and tab: "p_streams (st W') = (p_streams (st W))(k \<mapsto> x\<lparr>s_status := Cancelled\<rparr>,
       k' \<mapsto> continued x k' n d (d div s_flow_rate x))"
    and m: "0 \<le> d div s_flow_rate x"
    and moved: "\<forall>z. token_balance base (s_token x) z (ext W')
      = token_balance base (s_token x) z (ext W)
      - (if z = current_contract base
         then s_flow_rate x * int (n - s_last_withdraw_time x) + a else 0)
      + (if z = s_recipient x then s_flow_rate x * int (n - s_last_withdraw_time x) else 0)
      + (if z = s_sender x then a else 0)"
    by (rule reachable_partial_cancel [OF run now tok x op])
  note moved = moved [rule_format]
  let ?e = "s_flow_rate x * int (n - s_last_withdraw_time x)"
  let ?y = "continued x k' n d (d div s_flow_rate x)"
  have bal: "token_balance base (s_token x) (s_recipient x) (ext W')
       = token_balance base (s_token x) (s_recipient x) (ext W) + ?e"
    "token_balance base (s_token x) (s_sender x) (ext W')
       = token_balance base (s_token x) (s_sender x) (ext W) + a"
    "balance_of base (s_token x) W' = balance_of base (s_token x) W - (?e + a)"
    using moved [of "s_recipient x"] moved [of "s_sender x"] moved [of "current_contract base"]
      parties by (auto simp: balance_of_def)
  have dur: "int (s_end_time ?y - s_start_time ?y) = s_deposit ?y div s_flow_rate x"
    using m by simp
  show ?thesis
    unfolding n [symmetric]
    by (rule exI [of _ ?e], rule exI [of _ ?y])
      (use live pos sum bal dur in \<open>simp add: tab live_def\<close>)
qed

theorem partial_cancel_splits_witness:
  "\<exists>W k' W' y. partial_cancel_stream (at demo_base 1100 (\<lambda>a. a = Addr 1)) 72620543991349248
       (Addr 1) 3000 W = Inr (k', W') \<and>
     p_streams (st W') k' = Some y \<and> s_deposit y = 2200 \<and> s_end_time y = 2200 \<and>
     token_balance demo_base (Addr 9) (Addr 2) (ext W')
       = token_balance demo_base (Addr 9) (Addr 2) (ext W) + 2000"
proof -
  obtain W where run: "runs (step demo_base) (0, genesis demo_ledger) (100, W)"
    and x: "p_streams (st W) = [72620543991349248 \<mapsto> demo_stream]"
    and e: "ext W = (\<lambda>t a. if t = Addr 9 \<and> a = Addr 0 then 7200
                    else if t = Addr 9 \<and> a = Addr 1 then 1800
                    else if a = Addr 1 then 9000 else 0)"
    and cnt: "get_sender_stream_count (st W) (Addr 1) = 1"
      "get_recipient_stream_count (st W) (Addr 2) = 1" "get_global_stream_count (st W) = 1"
    by (rule demo_run)
  have x': "p_streams (st W) 72620543991349248 = Some demo_stream" by (simp add: x)
  obtain k' W' where op: "partial_cancel_stream (at demo_base 1100 (\<lambda>a. a = Addr 1))
      72620543991349248 (Addr 1) 3000 W = Inr (k', W')"
    using cnt
    by (simp add: partial_cancel_stream_def eval_simps x e demo_stream_def demo_base_def
        may_manage_def live_def stream_now_def checked_flow_amount_def clamp_i128_def)
  have "distinct [s_sender demo_stream, s_recipient demo_stream, current_contract demo_base]"
    by (simp add: demo_stream_def demo_base_def)
  from partial_cancel_splits [OF run _ demo_base_honest demo_ledger_nonneg x' op this] op
  obtain y where "p_streams (st W') k' = Some y" "s_deposit y = 2200"
    "int (s_end_time y - s_start_time y) = s_deposit y div 2" "s_start_time y = 1100"
    "token_balance demo_base (Addr 9) (Addr 2) (ext W')
       = token_balance demo_base (Addr 9) (Addr 2) (ext W) + 2000"
    by (auto simp: demo_stream_def stream_now_def)
  with op show ?thesis by (intro exI [of _ W] exI [of _ k'] exI [of _ W'] exI [of _ y]) auto
qed

end
