(* ===== verification/Claims.thy ===== *)
theory Claims
  imports Settlement
begin

text \<open>
  What withdrawing pays: the exact split of a claim between recipient and treasury, the final
  withdrawal of a stream with and without renewal, and two behaviours around the cliff that the
  code allows.
\<close>

section \<open>Exact claims\<close>

lemma fee_of_claim:
  assumes "fees_ok s" "0 < c" "fee_on_claim s r c = Inr fee"
  shows "fee = (if storage_is_fee_exempt s r then 0 else c * int (get_protocol_fee s) div 10000)"
    "0 \<le> fee" "fee \<le> c"
  using fee_on_claim_bounds [OF assms] by simp_all

lemma pay_claim_inv:
  assumes "pay_claim env k x r c W = Inr (ra, W')"
  obtains fee W1 where "fee_on_claim (st W) (s_recipient x) c = Inr fee" "ra = c - fee"
    "pay_if_positive env (s_token x) r (c - fee) W = Inr W1"
    "(if 0 < fee then
        (case get_treasury (st W1) of
           Some tr \<Rightarrow> bindE (transfer env (s_token x) (current_contract env) tr fee W1)
             (\<lambda>W2. Inr (ra, publish (ev_fee_collected k fee tr) W2))
         | None \<Rightarrow> Inr (ra, W1))
      else Inr (ra, W1)) = (Inr (ra, W') :: (stream_error, _) outcome)"
  using assms by (auto simp: pay_claim_def outcome split: if_splits option.splits)

text \<open>With a treasury set, payee and treasury together receive exactly the claim.\<close>

lemma pay_claim_exact:
  assumes sac: "sac env (s_token x)" and fees: "fees_ok (st W)" and c: "0 < c"
    and op: "pay_claim env k x r c W = Inr (ra, W')"
    and treasury: "get_treasury (st W) = Some tr"
    and parties: "distinct [r, tr, current_contract env]"
  defines "fee \<equiv> (if storage_is_fee_exempt (st W) (s_recipient x) then 0
                  else c * int (get_protocol_fee (st W)) div 10000)"
  shows "ra = c - fee" "0 \<le> fee" "fee \<le> c" "st W' = st W"
    "token_balance env (s_token x) r (ext W') = token_balance env (s_token x) r (ext W) + (c - fee)"
    "token_balance env (s_token x) tr (ext W') = token_balance env (s_token x) tr (ext W) + fee"
    "balance_of env (s_token x) W' = balance_of env (s_token x) W - c"
proof -
  obtain fee' W1 where fee': "fee_on_claim (st W) (s_recipient x) c = Inr fee'"
    and ra: "ra = c - fee'"
    and W1: "pay_if_positive env (s_token x) r (c - fee') W = Inr W1"
    and rest: "(if 0 < fee' then
        (case get_treasury (st W1) of
           Some tr \<Rightarrow> bindE (transfer env (s_token x) (current_contract env) tr fee' W1)
             (\<lambda>W2. Inr (ra, publish (ev_fee_collected k fee' tr) W2))
         | None \<Rightarrow> Inr (ra, W1))
      else Inr (ra, W1)) = (Inr (ra, W') :: (stream_error, _) outcome)"
    by (rule pay_claim_inv [OF op])
  note f = fee_of_claim [OF fees c fee']
  have fee: "fee' = fee" using f(1) by (simp add: fee_def)
  note f = f [unfolded fee] and W1 = W1 [unfolded fee] and rest = rest [unfolded fee]
  show "ra = c - fee" "0 \<le> fee" "fee \<le> c" using ra fee f by simp_all
  have st1: "st W1 = st W" by (rule pay_if_positive_st [OF W1])
  have one: "token_balance env (s_token x) y (ext W1) = token_balance env (s_token x) y (ext W)
      - (if y = current_contract env then c - fee else 0) + (if y = r then c - fee else 0)" for y
    by (rule pay_exact [OF sac _ W1]) (use f in simp)
  have two: "token_balance env (s_token x) y (ext W') = token_balance env (s_token x) y (ext W1)
      - (if y = current_contract env then fee else 0) + (if y = tr then fee else 0)" for y
  proof (cases "0 < fee")
    case True
    with rest treasury st1 obtain W2 where
      t: "transfer env (s_token x) (current_contract env) tr fee W1
          = (Inr W2 :: (stream_error, _) outcome)" and e: "ext W' = ext W2"
      by (auto simp: bindE_eq_Inr)
    show ?thesis using transfer_exact [OF sac t, of y] e by simp
  next
    case False
    with rest f(2) show ?thesis by simp
  qed
  show "st W' = st W"
    using rest st1 by (auto simp: bindE_eq_Inr transfer_Inr split: if_splits option.splits)
  show "token_balance env (s_token x) r (ext W') = token_balance env (s_token x) r (ext W) + (c - fee)"
    "token_balance env (s_token x) tr (ext W') = token_balance env (s_token x) tr (ext W) + fee"
    "balance_of env (s_token x) W' = balance_of env (s_token x) W - c"
    using one [of r] two [of r] one [of tr] two [of tr] one [of "current_contract env"]
      two [of "current_contract env"] parties by (auto simp: balance_of_def)
qed

section \<open>Inversion of a withdrawal\<close>

lemma withdraw_inv:
  assumes "withdraw env k r W0 = Inr (u, W')"
  obtains W x c y W1 W2 where "when_not_paused env W0 = Inr W" "p_streams (st W) k = Some x"
    "s_status x = Active" "s_recipient x = r" "s_lock_until x \<le> ledger_timestamp env"
    "compute_claimable (s_flow_rate x) (ledger_timestamp env) (s_cliff_time x) (s_end_time x)
        (s_last_withdraw_time x) = Some c"
    "(if 0 < c then withdraw_payout env k r x c W else Inr (x, W)) = Inr (y, W1)"
    "(if s_end_time y \<le> ledger_timestamp env
      then withdraw_finish env k (y\<lparr>s_last_withdraw_time
             := min (ledger_timestamp env) (s_end_time x)\<rparr>) W1
      else Inr (in_store (save_stream (y\<lparr>s_last_withdraw_time
             := min (ledger_timestamp env) (s_end_time x)\<rparr>)) W1)) = Inr W2"
    "W' = publish (ev_stream_withdrawn k r c (ledger_timestamp env)) W2"
  using assms
  by (auto simp: withdraw_def Let_def bindE_eq_Inr ok_or_eq_Inr find_stream_Inr if_Inl_eq_Inr)

lemma withdraw_payout_inv:
  assumes "withdraw_payout env k r x c W = Inr (y, W')"
  obtains ra W1 where "pay_claim env k x r c W = Inr (ra, W1)"
    "y = x\<lparr>s_total_withdrawn := s_total_withdrawn x + c\<rparr>"
    "W' = try_invoke env r ''on_stream_withdraw'' [VU64 k, VI128 ra] W1"
  using assms by (auto simp: withdraw_payout_def Let_def bindE_eq_Inr ok_or_eq_Inr
      checked_add_Some split: if_splits)

text \<open>The payout of a positive claim, up to the recipient's callback.\<close>

lemma payout_exact:
  assumes sac: "sac env (s_token x)" and fees: "fees_ok (st W)" and c: "0 < c"
    and op: "withdraw_payout env k r x c W = Inr (y, W1)" and r: "s_recipient x = r"
    and treasury: "get_treasury (st W) = Some tr"
    and parties: "distinct [r, tr, current_contract env]"
  obtains fee W3 where
    "fee = (if storage_is_fee_exempt (st W) r then 0
            else c * int (get_protocol_fee (st W)) div 10000)" "0 \<le> fee" "fee \<le> c"
    "token_balance env (s_token x) r (ext W3)
       = token_balance env (s_token x) r (ext W) + (c - fee)"
    "token_balance env (s_token x) tr (ext W3) = token_balance env (s_token x) tr (ext W) + fee"
    "balance_of env (s_token x) W3 = balance_of env (s_token x) W - c" "st W3 = st W"
    "y = x\<lparr>s_total_withdrawn := s_total_withdrawn x + c\<rparr>"
    "W1 = try_invoke env r ''on_stream_withdraw'' [VU64 k, VI128 (c - fee)] W3"
proof -
  obtain ra W3 where claim: "pay_claim env k x r c W = Inr (ra, W3)"
    and y: "y = x\<lparr>s_total_withdrawn := s_total_withdrawn x + c\<rparr>"
    and W1: "W1 = try_invoke env r ''on_stream_withdraw'' [VU64 k, VI128 ra] W3"
    by (rule withdraw_payout_inv [OF op])
  define fee where "fee = (if storage_is_fee_exempt (st W) r then 0
      else c * int (get_protocol_fee (st W)) div 10000)"
  note pc = pay_claim_exact [OF sac fees c claim treasury parties, unfolded r, folded fee_def]
  show thesis
    by (rule that [OF fee_def pc(2,3,5-7,4) y W1 [unfolded pc(1)]])
qed

text \<open>A withdrawal from a stored stream in a reachable state, with what is known of the stream.\<close>

lemma reachable_withdraw:
  assumes run: "runs (step base) (0, genesis w) (T, W0)"
    and tok: "honest_token base (s_token x)"
      "0 \<le> token_balance base (s_token x) (current_contract base) w"
    and x: "p_streams (st W0) k = Some x"
    and op: "withdraw (at base now auth) k r W0 = Inr ((), W')"
  obtains W c y W1 W2 where
    "ext W = ext W0" "p_streams (st W) = p_streams (st W0)" "fees_ok (st W)"
    "get_treasury (st W) = get_treasury (st W0)"
    "storage_is_fee_exempt (st W) = storage_is_fee_exempt (st W0)"
    "get_protocol_fee (st W) = get_protocol_fee (st W0)"
    "stream_ok T x" "live x" "funded T x" "s_id x = k" "s_recipient x = r"
    "compute_claimable (s_flow_rate x) now (s_cliff_time x) (s_end_time x)
        (s_last_withdraw_time x) = Some c"
    "(if 0 < c then withdraw_payout (at base now auth) k r x c W else Inr (x, W)) = Inr (y, W1)"
    "(if s_end_time y \<le> now
      then withdraw_finish (at base now auth) k (y\<lparr>s_last_withdraw_time
             := min now (s_end_time x)\<rparr>) W1
      else Inr (in_store (save_stream (y\<lparr>s_last_withdraw_time
             := min now (s_end_time x)\<rparr>)) W1)) = Inr W2"
    "W' = publish (ev_stream_withdrawn k r c now) W2"
proof -
  let ?env = "at base now auth"
  obtain W x' c y W1 W2 where W: "when_not_paused ?env W0 = Inr W"
    and x': "p_streams (st W) k = Some x'"
    and rest: "s_status x' = Active" "s_recipient x' = r"
    "compute_claimable (s_flow_rate x') (ledger_timestamp ?env) (s_cliff_time x')
        (s_end_time x') (s_last_withdraw_time x') = Some c"
    "(if 0 < c then withdraw_payout ?env k r x' c W else Inr (x', W)) = Inr (y, W1)"
    "(if s_end_time y \<le> ledger_timestamp ?env
      then withdraw_finish ?env k (y\<lparr>s_last_withdraw_time
             := min (ledger_timestamp ?env) (s_end_time x')\<rparr>) W1
      else Inr (in_store (save_stream (y\<lparr>s_last_withdraw_time
             := min (ledger_timestamp ?env) (s_end_time x')\<rparr>)) W1)) = Inr W2"
    "W' = publish (ev_stream_withdrawn k r c (ledger_timestamp ?env)) W2"
    using op by (elim withdraw_inv) blast
  note frame = unpause_frame [OF W]
  have xx: "x' = x" using x x' frame(1) by simp
  have "books_ok T (s_token x) (balance_of ?env (s_token x) W0) (st W0)"
    using reachable_books [OF run tok] by simp
  note books = unpaused_books [OF W this]
  have ok: "stream_ok T x" "s_id x = k"
    using books_stream [OF books(1) x'] by (simp_all add: xx)
  moreover have live: "live x" using rest(1) by (simp add: xx live_def)
  ultimately have "funded T x" by (simp add: stream_ok_def)
  moreover have "get_treasury (st W) = get_treasury (st W0)"
    "storage_is_fee_exempt (st W) = storage_is_fee_exempt (st W0)"
    "get_protocol_fee (st W) = get_protocol_fee (st W0)"
    using when_not_paused_frame(3) [OF W] by (auto simp: fun_eq_iff handler)
  ultimately show thesis
    using frame(1,3) books(2) ok live
    by (intro that [OF _ _ _ _ _ _ _ _ _ _ rest(2-) [unfolded xx at_simps]]) simp_all
qed

text \<open>
  The payout of a positive claim in a reachable state, with the worlds before and after the
  recipient's callback and what remains to be done.
\<close>

lemma reachable_payout:
  assumes run: "runs (step base) (0, genesis w) (T, W0)"
    and tok: "honest_token base (s_token x)"
      "0 \<le> token_balance base (s_token x) (current_contract base) w"
    and x: "p_streams (st W0) k = Some x"
    and op: "withdraw (at base now auth) k r W0 = Inr ((), W')"
    and due: "s_cliff_time x \<le> now" "s_last_withdraw_time x < min now (s_end_time x)"
    and treasury: "get_treasury (st W0) = Some tr"
    and parties: "distinct [r, tr, current_contract base]"
  obtains c fee W1 W2 W3 where
    "c = s_flow_rate x * int (min now (s_end_time x) - s_last_withdraw_time x)" "0 < c"
    "fee = (if storage_is_fee_exempt (st W0) r then 0
            else c * int (get_protocol_fee (st W0)) div 10000)" "0 \<le> fee" "fee \<le> c"
    "token_balance base (s_token x) r (ext W1)
       = token_balance base (s_token x) r (ext W0) + (c - fee)"
    "token_balance base (s_token x) tr (ext W1)
       = token_balance base (s_token x) tr (ext W0) + fee"
    "balance_of base (s_token x) W1 = balance_of base (s_token x) W0 - c"
    "W2 = try_invoke (at base now auth) r ''on_stream_withdraw'' [VU64 k, VI128 (c - fee)] W1"
    "(if s_end_time x \<le> now
      then withdraw_finish (at base now auth) k (claimed x c now) W2
      else Inr (in_store (save_stream (claimed x c now)) W2)) = Inr W3"
    "p_streams (st W2) = p_streams (st W0)" "s_id x = k" "stream_ok T x" "live x" "funded T x"
    "W' = publish (ev_stream_withdrawn k r c now) W3"
proof -
  let ?env = "at base now auth"
  obtain W c y W1 W2 where frame: "ext W = ext W0" "p_streams (st W) = p_streams (st W0)"
    and fees: "fees_ok (st W)" and unp: "get_treasury (st W) = get_treasury (st W0)"
      "storage_is_fee_exempt (st W) = storage_is_fee_exempt (st W0)"
      "get_protocol_fee (st W) = get_protocol_fee (st W0)"
    and ok: "stream_ok T x" "live x" and fu: "funded T x"
    and ids: "s_id x = k" "s_recipient x = r"
    and c: "compute_claimable (s_flow_rate x) now (s_cliff_time x) (s_end_time x)
        (s_last_withdraw_time x) = Some c"
    and pay: "(if 0 < c then withdraw_payout ?env k r x c W else Inr (x, W)) = Inr (y, W1)"
    and fin: "(if s_end_time y \<le> now
      then withdraw_finish ?env k (y\<lparr>s_last_withdraw_time := min now (s_end_time x)\<rparr>) W1
      else Inr (in_store (save_stream (y\<lparr>s_last_withdraw_time := min now (s_end_time x)\<rparr>)) W1))
        = Inr W2"
    and W': "W' = publish (ev_stream_withdrawn k r c now) W2"
    by (rule reachable_withdraw [OF run tok x op])
  have c_eq: "c = s_flow_rate x * int (min now (s_end_time x) - s_last_withdraw_time x)"
    using c due by (simp add: compute_claimable_eq compute_earned_eq checked_mul_Some)
  have c0: "0 < c" using c_eq fu due(2) by (simp add: funded_def)
  have sac: "sac ?env (s_token x)" using tok(1) by (simp add: honest_token_def)
  have "withdraw_payout ?env k r x c W = Inr (y, W1)" using pay c0 by simp
  moreover have "distinct [r, tr, current_contract ?env]" using parties by simp
  ultimately obtain fee W3 where fee: "fee = (if storage_is_fee_exempt (st W) r then 0
            else c * int (get_protocol_fee (st W)) div 10000)" "0 \<le> fee" "fee \<le> c"
    and moved: "token_balance ?env (s_token x) r (ext W3)
       = token_balance ?env (s_token x) r (ext W) + (c - fee)"
    "token_balance ?env (s_token x) tr (ext W3) = token_balance ?env (s_token x) tr (ext W) + fee"
    "balance_of ?env (s_token x) W3 = balance_of ?env (s_token x) W - c" and st: "st W3 = st W"
    and y: "y = x\<lparr>s_total_withdrawn := s_total_withdrawn x + c\<rparr>"
    and W1: "W1 = try_invoke ?env r ''on_stream_withdraw'' [VU64 k, VI128 (c - fee)] W3"
    by (rule payout_exact [OF sac fees c0 _ ids(2) treasury [folded unp(1)]])
  have bal: "token_balance base (s_token x) r (ext W3)
      = token_balance base (s_token x) r (ext W0) + (c - fee)"
    "token_balance base (s_token x) tr (ext W3)
      = token_balance base (s_token x) tr (ext W0) + fee"
    "balance_of base (s_token x) W3 = balance_of base (s_token x) W0 - c"
    using moved frame(1) by (simp_all add: balance_of_def)
  have "y\<lparr>s_last_withdraw_time := min now (s_end_time x)\<rparr> = claimed x c now"
    "s_end_time y = s_end_time x"
    by (simp_all add: y claimed_def)
  then have fin': "(if s_end_time x \<le> now then withdraw_finish ?env k (claimed x c now) W1
      else Inr (in_store (save_stream (claimed x c now)) W1)) = Inr W2"
    using fin by (simp only:)
  have st1: "p_streams (st W1) = p_streams (st W0)" by (simp add: W1 st frame(2))
  show thesis
    by (rule that [OF c_eq c0 fee(1) [unfolded unp] fee(2,3) bal W1 fin' st1 ids(1) ok fu W'])
qed

text \<open>A claim in the middle of a stream, with the world before the recipient's callback.\<close>

lemma reachable_claim:
  assumes run: "runs (step base) (0, genesis w) (T, W0)"
    and tok: "honest_token base (s_token x)"
      "0 \<le> token_balance base (s_token x) (current_contract base) w"
    and x: "p_streams (st W0) k = Some x"
    and op: "withdraw (at base now auth) k r W0 = Inr ((), W')"
    and mid: "s_cliff_time x \<le> now" "s_last_withdraw_time x < now" "now < s_end_time x"
    and treasury: "get_treasury (st W0) = Some tr"
    and parties: "distinct [r, tr, current_contract base]"
  obtains c fee W1 W2 where
    "c = s_flow_rate x * int (now - s_last_withdraw_time x)" "0 < c"
    "fee = (if storage_is_fee_exempt (st W0) r then 0
            else c * int (get_protocol_fee (st W0)) div 10000)" "0 \<le> fee" "fee \<le> c"
    "token_balance base (s_token x) r (ext W1)
       = token_balance base (s_token x) r (ext W0) + (c - fee)"
    "token_balance base (s_token x) tr (ext W1)
       = token_balance base (s_token x) tr (ext W0) + fee"
    "balance_of base (s_token x) W1 = balance_of base (s_token x) W0 - c"
    "p_streams (st W1) = p_streams (st W0)"
    "W2 = try_invoke (at base now auth) r ''on_stream_withdraw'' [VU64 k, VI128 (c - fee)] W1"
    "ext W' = ext W2" "p_streams (st W') = (p_streams (st W0))(k \<mapsto> claimed x c now)"
proof -
  let ?env = "at base now auth"
  obtain c fee W1 W2 W3 where
    c: "c = s_flow_rate x * int (min now (s_end_time x) - s_last_withdraw_time x)" "0 < c"
    and fee: "fee = (if storage_is_fee_exempt (st W0) r then 0
            else c * int (get_protocol_fee (st W0)) div 10000)" "0 \<le> fee" "fee \<le> c"
    and bal: "token_balance base (s_token x) r (ext W1)
       = token_balance base (s_token x) r (ext W0) + (c - fee)"
    "token_balance base (s_token x) tr (ext W1)
       = token_balance base (s_token x) tr (ext W0) + fee"
    "balance_of base (s_token x) W1 = balance_of base (s_token x) W0 - c"
    and W2: "W2 = try_invoke ?env r ''on_stream_withdraw'' [VU64 k, VI128 (c - fee)] W1"
    and fin: "(if s_end_time x \<le> now then withdraw_finish ?env k (claimed x c now) W2
      else Inr (in_store (save_stream (claimed x c now)) W2)) = Inr W3"
    and st: "p_streams (st W2) = p_streams (st W0)" and id: "s_id x = k"
    and ok: "stream_ok T x" "live x" and fu: "funded T x"
    and W': "W' = publish (ev_stream_withdrawn k r c now) W3"
    by (rule reachable_payout [OF run tok x op mid(1) _ treasury parties]) (use mid in simp)
  have W3: "W3 = in_store (save_stream (claimed x c now)) W2" using fin mid(3) by simp
  have c_eq: "c = s_flow_rate x * int (now - s_last_withdraw_time x)" using c(1) mid(3) by simp
  have "p_streams (st W') = (p_streams (st W0))(k \<mapsto> claimed x c now)"
    by (simp add: W' W3 st id)
  moreover have "ext W' = ext W2" by (simp add: W' W3)
  moreover have "p_streams (st W1) = p_streams (st W0)" using st by (simp add: W2)
  ultimately show thesis using W2 by (intro that [OF c_eq c(2) fee bal])
qed



section \<open>The final withdrawal\<close>

lemma withdraw_finish_dust:
  assumes "withdraw_finish env k y W = Inr W'" "\<not> s_auto_renew y"
  obtains W1 where "pay_if_positive env (s_token y) (s_sender y)
      (dust_of y (s_end_time y - s_start_time y)) W = Inr W1"
    and "W' = in_store (close_stream k y) (publish (ev_stream_completed k) W1)"
  using assms by (auto simp: withdraw_finish_def Let_def bindE_eq_Inr plain_eq_Inr)

text \<open>
  A withdrawal at or after the end in a reachable state: the exact claim, up to the recipient's
  callback, and the finishing step that remains.
\<close>

lemma reachable_final_claim:
  assumes run: "runs (step base) (0, genesis w) (T, W0)"
    and tok: "honest_token base (s_token x)"
      "0 \<le> token_balance base (s_token x) (current_contract base) w"
    and x: "p_streams (st W0) k = Some x"
    and op: "withdraw (at base now auth) k r W0 = Inr ((), W')"
    and ended: "s_end_time x \<le> now" "s_cliff_time x \<le> now"
      "s_last_withdraw_time x < s_end_time x"
    and treasury: "get_treasury (st W0) = Some tr"
    and parties: "distinct [r, tr, current_contract base]"
  obtains c fee W1 W2 W3 where
    "c = s_flow_rate x * int (s_end_time x - s_last_withdraw_time x)" "0 < c"
    "fee = (if storage_is_fee_exempt (st W0) r then 0
            else c * int (get_protocol_fee (st W0)) div 10000)" "0 \<le> fee" "fee \<le> c"
    "0 \<le> dust_of x (s_end_time x - s_start_time x)"
    "c + dust_of x (s_end_time x - s_start_time x)
       = s_deposit x - s_flow_rate x * int (s_last_withdraw_time x - s_start_time x)"
    "token_balance base (s_token x) r (ext W1)
       = token_balance base (s_token x) r (ext W0) + (c - fee)"
    "token_balance base (s_token x) tr (ext W1)
       = token_balance base (s_token x) tr (ext W0) + fee"
    "balance_of base (s_token x) W1 = balance_of base (s_token x) W0 - c"
    "W2 = try_invoke (at base now auth) r ''on_stream_withdraw'' [VU64 k, VI128 (c - fee)] W1"
    "withdraw_finish (at base now auth) k (claimed x c now) W2 = Inr W3"
    "p_streams (st W2) = p_streams (st W0)" "s_id x = k" "funded T x"
    "W' = publish (ev_stream_withdrawn k r c now) W3"
proof -
  let ?env = "at base now auth"
  obtain c fee W1 W2 W3 where
    c: "c = s_flow_rate x * int (min now (s_end_time x) - s_last_withdraw_time x)" "0 < c"
    and fee: "fee = (if storage_is_fee_exempt (st W0) r then 0
            else c * int (get_protocol_fee (st W0)) div 10000)" "0 \<le> fee" "fee \<le> c"
    and bal: "token_balance base (s_token x) r (ext W1)
       = token_balance base (s_token x) r (ext W0) + (c - fee)"
    "token_balance base (s_token x) tr (ext W1)
       = token_balance base (s_token x) tr (ext W0) + fee"
    "balance_of base (s_token x) W1 = balance_of base (s_token x) W0 - c"
    and W2: "W2 = try_invoke ?env r ''on_stream_withdraw'' [VU64 k, VI128 (c - fee)] W1"
    and fin: "(if s_end_time x \<le> now then withdraw_finish ?env k (claimed x c now) W2
      else Inr (in_store (save_stream (claimed x c now)) W2)) = Inr W3"
    and st: "p_streams (st W2) = p_streams (st W0)" and id: "s_id x = k"
    and ok: "stream_ok T x" "live x" and fu: "funded T x"
    and W': "W' = publish (ev_stream_withdrawn k r c now) W3"
    by (rule reachable_payout [OF run tok x op ended(2) _ treasury parties]) (use ended in simp)
  have c_eq: "c = s_flow_rate x * int (s_end_time x - s_last_withdraw_time x)"
    using c(1) ended(1) by (simp add: min_absorb2)
  have fin': "withdraw_finish ?env k (claimed x c now) W2 = Inr W3" using fin ended(1) by simp
  note du = dust_le_owed(1,2) [OF ok]
  have "s_flow_rate x * int (s_last_withdraw_time x - s_start_time x) + c
      = s_flow_rate x * int (s_end_time x - s_start_time x)"
    unfolding c_eq by (rule flow_split) (use fu in \<open>auto simp: funded_def\<close>)
  then have sum: "c + dust_of x (s_end_time x - s_start_time x)
      = s_deposit x - s_flow_rate x * int (s_last_withdraw_time x - s_start_time x)"
    using du(1) by linarith
  show thesis by (rule that [OF c_eq c(2) fee du(2) sum bal W2 fin' st id fu W'])
qed

text \<open>
  C7: the last withdrawal of a stream that does not renew. At or after the end the recipient and
  the treasury share what streamed since the last withdrawal time, the callback runs, and then
  the sender receives the dust of the rate's rounding. Together these two amounts are the deposit
  less what streamed before the last withdrawal time. That is at most the deposit less all that
  was withdrawn, and the whole of it exactly when every unit streamed before the last withdrawal
  time was also withdrawn; a withdrawal before the cliff (which moves that time and pays nothing)
  makes it less, and the difference stays in the contract. The stream is gone.
\<close>

theorem withdraw_final:
  assumes run: "runs (step base) (0, genesis w) (T, W0)"
    and tok: "honest_token base (s_token x)"
      "0 \<le> token_balance base (s_token x) (current_contract base) w"
    and x: "p_streams (st W0) k = Some x"
    and op: "withdraw (at base now auth) k r W0 = Inr ((), W')"
    and ended: "s_end_time x \<le> now" "s_cliff_time x \<le> now"
      "s_last_withdraw_time x < s_end_time x" "\<not> s_auto_renew x"
    and treasury: "get_treasury (st W0) = Some tr"
    and parties: "distinct [r, tr, current_contract base]"
  shows "\<exists>c fee dust W1 W2.
     c = s_flow_rate x * int (s_end_time x - s_last_withdraw_time x) \<and> 0 < c \<and>
     fee = (if storage_is_fee_exempt (st W0) r then 0
            else c * int (get_protocol_fee (st W0)) div 10000) \<and> 0 \<le> fee \<and> fee \<le> c \<and>
     0 \<le> dust \<and> c + dust = s_deposit x - s_flow_rate x *
        int (s_last_withdraw_time x - s_start_time x) \<and>
     c + dust \<le> s_deposit x - s_total_withdrawn x \<and>
     (c + dust = s_deposit x - s_total_withdrawn x \<longleftrightarrow>
        s_total_withdrawn x = s_flow_rate x * int (s_last_withdraw_time x - s_start_time x)) \<and>
     token_balance base (s_token x) r (ext W1)
       = token_balance base (s_token x) r (ext W0) + (c - fee) \<and>
     token_balance base (s_token x) tr (ext W1)
       = token_balance base (s_token x) tr (ext W0) + fee \<and>
     balance_of base (s_token x) W1 = balance_of base (s_token x) W0 - c \<and>
     W2 = try_invoke (at base now auth) r ''on_stream_withdraw'' [VU64 k, VI128 (c - fee)] W1 \<and>
     (\<forall>z. token_balance base (s_token x) z (ext W')
        = token_balance base (s_token x) z (ext W2)
          - (if z = current_contract base then dust else 0)
          + (if z = s_sender x then dust else 0)) \<and>
     p_streams (st W') = (p_streams (st W0))(k := None)"
proof -
  let ?env = "at base now auth" and ?d = "s_end_time x - s_start_time x"
  obtain c fee W1 W2 W3 where c: "c = s_flow_rate x * int (s_end_time x - s_last_withdraw_time x)"
      "0 < c"
    and fee: "fee = (if storage_is_fee_exempt (st W0) r then 0
            else c * int (get_protocol_fee (st W0)) div 10000)" "0 \<le> fee" "fee \<le> c"
    and du: "0 \<le> dust_of x ?d" "c + dust_of x ?d
       = s_deposit x - s_flow_rate x * int (s_last_withdraw_time x - s_start_time x)"
    and bal: "token_balance base (s_token x) r (ext W1)
       = token_balance base (s_token x) r (ext W0) + (c - fee)"
    "token_balance base (s_token x) tr (ext W1)
       = token_balance base (s_token x) tr (ext W0) + fee"
    "balance_of base (s_token x) W1 = balance_of base (s_token x) W0 - c"
    and W2: "W2 = try_invoke ?env r ''on_stream_withdraw'' [VU64 k, VI128 (c - fee)] W1"
    and fin: "withdraw_finish ?env k (claimed x c now) W2 = Inr W3"
    and st: "p_streams (st W2) = p_streams (st W0)" and id: "s_id x = k" and fu: "funded T x"
    and W': "W' = publish (ev_stream_withdrawn k r c now) W3"
    by (rule reachable_final_claim [OF run tok x op ended(1-3) treasury parties])
  obtain W4 where dust: "pay_if_positive ?env (s_token x) (s_sender x)
      (dust_of x ?d) W2 = Inr W4"
    and W3: "W3 = in_store (close_stream k (claimed x c now))
      (publish (ev_stream_completed k) W4)"
    by (rule withdraw_finish_dust [OF fin])
      (use ended(4) in \<open>simp_all add: dust_of_def claimed_def\<close>)
  have sac: "sac ?env (s_token x)" using tok(1) by (simp add: honest_token_def)
  have last: "\<forall>z. token_balance base (s_token x) z (ext W')
        = token_balance base (s_token x) z (ext W2)
          - (if z = current_contract base then dust_of x ?d else 0)
          + (if z = s_sender x then dust_of x ?d else 0)"
    using pay_exact [OF sac du(1) dust] by (simp add: W' W3)
  have gone: "p_streams (st W') = (p_streams (st W0))(k := None)"
    using pay_if_positive_st [OF dust] by (simp add: W' W3 st)
  have drawn: "c + dust_of x ?d \<le> s_deposit x - s_total_withdrawn x"
    "c + dust_of x ?d = s_deposit x - s_total_withdrawn x \<longleftrightarrow>
      s_total_withdrawn x = s_flow_rate x * int (s_last_withdraw_time x - s_start_time x)"
    using du(2) fu unfolding funded_def by linarith+
  from c fee du drawn bal W2 last gone show ?thesis by blast
qed

theorem withdraw_final_witness:
  "\<exists>W0 W' (W1 :: ledger world). withdraw (at demo_base 4000 (\<lambda>a. a = Addr 2)) 72620543991349248 (Addr 2) W0
       = Inr ((), W') \<and>
     token_balance demo_base (Addr 9) (Addr 2) (ext W1)
       = token_balance demo_base (Addr 9) (Addr 2) (ext W0) + 7020 \<and>
     token_balance demo_base (Addr 9) (Addr 7) (ext W1)
       = token_balance demo_base (Addr 9) (Addr 7) (ext W0) + 180 \<and>
     p_streams (st W') 72620543991349248 = None"
proof -
  obtain W0 where run: "runs (step demo_base) (0, genesis demo_ledger) (200, W0)"
    and x: "p_streams (st W0) = [72620543991349248 \<mapsto> demo_stream]"
    and e: "ext W0 = (\<lambda>t a. if t = Addr 9 \<and> a = Addr 0 then 7200
                    else if t = Addr 9 \<and> a = Addr 1 then 1800
                    else if a = Addr 1 then 9000 else 0)"
    and t: "get_treasury (st W0) = Some (Addr 7)" "get_protocol_fee (st W0) = 250"
    and p: "i_paused (st W0) = None" "p_fe (st W0) = Map.empty" "i_wd_cd (st W0) = None"
    by (rule demo_run_fee)
  have x': "p_streams (st W0) 72620543991349248 = Some demo_stream" by (simp add: x)
  obtain W' where op: "withdraw (at demo_base 4000 (\<lambda>a. a = Addr 2)) 72620543991349248
      (Addr 2) W0 = Inr ((), W')"
    using t p
    by (simp add: withdraw_def eval_simps x e demo_stream_def demo_base_def compute_claimable_eq
        compute_earned_eq withdraw_payout_def pay_claim_def fee_on_claim_def try_invoke_def
        withdraw_finish_def dust_of_def clamp_i128_def)
  have tr: "distinct [Addr 2, Addr 7, current_contract demo_base]" by (simp add: demo_base_def)
  have "\<exists>c fee (W1 :: ledger world). c = 7200 \<and> fee = 180 \<and>
     token_balance demo_base (Addr 9) (Addr 2) (ext W1)
       = token_balance demo_base (Addr 9) (Addr 2) (ext W0) + (c - fee) \<and>
     token_balance demo_base (Addr 9) (Addr 7) (ext W1)
       = token_balance demo_base (Addr 9) (Addr 7) (ext W0) + fee \<and>
     p_streams (st W') 72620543991349248 = None"
    using withdraw_final [OF run demo_base_honest demo_ledger_nonneg x' op _ _ _ _ t(1) tr]
      t(2) p(2) by (fastforce simp: demo_stream_def storage_is_fee_exempt_def)
  with op show ?thesis by fastforce
qed

section \<open>Renewal\<close>

text \<open>The finishing step of a stream that renews, with and without the sender's deposit.\<close>

lemma withdraw_finish_renews:
  assumes sac: "sac env (s_token y)" and fin: "withdraw_finish env k y W = Inr W'"
    and auto: "s_auto_renew y"
    and funds: "s_deposit y \<le> token_balance env (s_token y) (s_sender y) (ext W)"
  shows "authorizes env (s_sender y)"
    "token_balance env (s_token y) z (ext W') = token_balance env (s_token y) z (ext W)
       - (if z = s_sender y then s_deposit y else 0)
       + (if z = current_contract env then s_deposit y else 0)"
    "p_streams (st W') = (p_streams (st W))(s_id y \<mapsto> y\<lparr>s_start_time := s_end_time y,
       s_end_time := s_end_time y + (s_end_time y - s_start_time y),
       s_last_withdraw_time := s_end_time y, s_total_withdrawn := 0\<rparr>)"
proof -
  obtain W1 where "authorizes env (s_sender y)"
    and pull: "transfer env (s_token y) (s_sender y) (current_contract env) (s_deposit y) W
      = (Inr W1 :: (stream_error, _) outcome)"
    and "W' = in_store (save_stream (y\<lparr>s_start_time := s_end_time y,
           s_end_time := s_end_time y + (s_end_time y - s_start_time y),
           s_last_withdraw_time := s_end_time y, s_total_withdrawn := 0\<rparr>)) W1"
    using fin auto funds
    by (auto simp: withdraw_finish_def renew_stream_def Let_def bindE_eq_Inr ok_or_eq_Inr
        checked_add_u64_def sub_u64_def require_auth_def split: if_splits)
  with transfer_exact [OF sac pull] transfer_st [OF pull]
  show "authorizes env (s_sender y)"
    "token_balance env (s_token y) z (ext W') = token_balance env (s_token y) z (ext W)
       - (if z = s_sender y then s_deposit y else 0)
       + (if z = current_contract env then s_deposit y else 0)"
    "p_streams (st W') = (p_streams (st W))(s_id y \<mapsto> y\<lparr>s_start_time := s_end_time y,
       s_end_time := s_end_time y + (s_end_time y - s_start_time y),
       s_last_withdraw_time := s_end_time y, s_total_withdrawn := 0\<rparr>)"
    by simp_all
qed

lemma withdraw_finish_completes:
  assumes sac: "sac env (s_token y)" and fin: "withdraw_finish env k y W = Inr W'"
    and auto: "s_auto_renew y" and dust: "0 \<le> dust_of y (s_end_time y - s_start_time y)"
    and funds: "token_balance env (s_token y) (s_sender y) (ext W) < s_deposit y"
  shows "token_balance env (s_token y) z (ext W') = token_balance env (s_token y) z (ext W)
       - (if z = current_contract env then dust_of y (s_end_time y - s_start_time y) else 0)
       + (if z = s_sender y then dust_of y (s_end_time y - s_start_time y) else 0)"
    "p_streams (st W') = (p_streams (st W))(s_id y \<mapsto> y\<lparr>s_status := Completed\<rparr>)"
proof -
  let ?W = "publish (ev_auto_renew_failed k (s_sender y) (s_deposit y)) W"
  obtain W1 where pay: "pay_if_positive env (s_token y) (s_sender y)
      (dust_of y (s_end_time y - s_start_time y)) ?W = Inr W1"
    and "W' = in_store (save_stream (y\<lparr>s_status := Completed\<rparr>))
           (publish (ev_stream_completed k) W1)"
    using fin auto funds by (auto simp: withdraw_finish_def Let_def bindE_eq_Inr plain_eq_Inr)
  with pay_exact [OF sac dust pay] pay_if_positive_st [OF pay]
  show "token_balance env (s_token y) z (ext W') = token_balance env (s_token y) z (ext W)
       - (if z = current_contract env then dust_of y (s_end_time y - s_start_time y) else 0)
       + (if z = s_sender y then dust_of y (s_end_time y - s_start_time y) else 0)"
    "p_streams (st W') = (p_streams (st W))(s_id y \<mapsto> y\<lparr>s_status := Completed\<rparr>)"
    by simp_all
qed

text \<open>A stream of half the sender's tokens that renews, and a treasury.\<close>

definition demo_renewing :: stream where
  "demo_renewing = demo_stream\<lparr>s_deposit := 3600, s_flow_rate := 1, s_auto_renew := True\<rparr>"

lemma demo_run_renewing:
  obtains W where "runs (step demo_base) (0, genesis demo_ledger) (150, W)"
    and "p_streams (st W) = [72620543991349248 \<mapsto> demo_renewing]"
    and "ext W = (\<lambda>t a. if t = Addr 9 \<and> a = Addr 0 then 3600
                    else if t = Addr 9 \<and> a = Addr 1 then 5400
                    else if a = Addr 1 then 9000 else 0)"
    and "get_treasury (st W) = Some (Addr 7)" "get_protocol_fee (st W) = 0"
    and "i_paused (st W) = None" "p_fe (st W) = Map.empty" "i_wd_cd (st W) = None"
proof -
  let ?call = "On_stream (Create_stream (Addr 1) (Addr 2) (Addr 9) 3600 3600 60 5 True 0 True [])"
  have "\<exists>r W. exec (at demo_base 100 (\<lambda>a. a = Addr 1)) ?call (genesis demo_ledger) = Inr (r, W)
      \<and> p_streams (st W) = [72620543991349248 \<mapsto> demo_renewing]
      \<and> ext W = (\<lambda>t a. if t = Addr 9 \<and> a = Addr 0 then 3600
                    else if t = Addr 9 \<and> a = Addr 1 then 5400
                    else if a = Addr 1 then 9000 else 0)
      \<and> i_paused (st W) = None \<and> i_fee_bps (st W) = None \<and> p_fe (st W) = Map.empty
      \<and> i_wd_cd (st W) = None"
    by (simp add: create_stream_def eval_simps demo_id demo_base_def demo_ledger_def
        demo_stream_def demo_renewing_def) (auto simp: fun_eq_iff)
  then obtain r W where W: "exec (at demo_base 100 (\<lambda>a. a = Addr 1)) ?call (genesis demo_ledger)
      = Inr (r, W)" and x: "p_streams (st W) = [72620543991349248 \<mapsto> demo_renewing]"
    and e: "ext W = (\<lambda>t a. if t = Addr 9 \<and> a = Addr 0 then 3600
                    else if t = Addr 9 \<and> a = Addr 1 then 5400
                    else if a = Addr 1 then 9000 else 0)"
    and p: "i_paused (st W) = None" "i_fee_bps (st W) = None" "p_fe (st W) = Map.empty"
      "i_wd_cd (st W) = None"
    by blast
  have "step demo_base (0, genesis demo_ledger) (100, W)"
    by (rule invoked [OF _ _ _ _ W]) (simp_all add: u64_max_def call_ok_def in_i128_def
        i128_max_def i128_min_def demo_base_def)
  then have run: "runs (step demo_base) (0, genesis demo_ledger) (100, W)"
    by (rule runs_step [OF runs_refl])
  let ?W1 = "in_store (set_treasury (Addr 7)) W"
  have "runs (step demo_base) (0, genesis demo_ledger) (150, ?W1)"
    by (rule demo_step [OF run, where c = "On_batch (Set_treasury_address (Addr 7))" and r = RUnit
          and auth = "\<lambda>_. False"])
      (simp_all add: set_treasury_address_def reply_with_def call_ok_def u64_max_def)
  then show thesis
    using x e p by (intro that [of ?W1]) (simp_all add: handler)
qed

text \<open>
  C8: the last withdrawal of a stream that renews. The claim is paid as in any final withdrawal.
  Then, if the sender still has the deposit, the sender must have signed the recipient's
  invocation; the deposit is drawn again and the stream runs once more for the same time, with
  nothing withdrawn, while the dust of the finished cycle is paid to nobody. Otherwise the
  stream stays stored as completed and the sender receives the dust.
\<close>

theorem withdraw_renews:
  assumes run: "runs (step base) (0, genesis w) (T, W0)"
    and tok: "honest_token base (s_token x)"
      "0 \<le> token_balance base (s_token x) (current_contract base) w"
    and x: "p_streams (st W0) k = Some x"
    and op: "withdraw (at base now auth) k r W0 = Inr ((), W')"
    and ended: "s_end_time x \<le> now" "s_cliff_time x \<le> now"
      "s_last_withdraw_time x < s_end_time x" "s_auto_renew x"
    and treasury: "get_treasury (st W0) = Some tr"
    and parties: "distinct [r, tr, current_contract base]"
  shows "\<exists>c fee dust W1 W2.
     c = s_flow_rate x * int (s_end_time x - s_last_withdraw_time x) \<and> 0 < c \<and>
     fee = (if storage_is_fee_exempt (st W0) r then 0
            else c * int (get_protocol_fee (st W0)) div 10000) \<and> 0 \<le> fee \<and> fee \<le> c \<and>
     0 \<le> dust \<and> c + dust = s_deposit x - s_flow_rate x *
        int (s_last_withdraw_time x - s_start_time x) \<and>
     token_balance base (s_token x) r (ext W1)
       = token_balance base (s_token x) r (ext W0) + (c - fee) \<and>
     token_balance base (s_token x) tr (ext W1)
       = token_balance base (s_token x) tr (ext W0) + fee \<and>
     balance_of base (s_token x) W1 = balance_of base (s_token x) W0 - c \<and>
     W2 = try_invoke (at base now auth) r ''on_stream_withdraw'' [VU64 k, VI128 (c - fee)] W1 \<and>
     (if s_deposit x \<le> token_balance base (s_token x) (s_sender x) (ext W2)
      then auth (s_sender x) \<and>
        (\<forall>z. token_balance base (s_token x) z (ext W')
          = token_balance base (s_token x) z (ext W2)
            - (if z = s_sender x then s_deposit x else 0)
            + (if z = current_contract base then s_deposit x else 0)) \<and>
        p_streams (st W') = (p_streams (st W0))(k \<mapsto> x\<lparr>s_start_time := s_end_time x,
          s_end_time := s_end_time x + (s_end_time x - s_start_time x),
          s_last_withdraw_time := s_end_time x, s_total_withdrawn := 0\<rparr>)
      else
        (\<forall>z. token_balance base (s_token x) z (ext W')
          = token_balance base (s_token x) z (ext W2)
            - (if z = current_contract base then dust else 0)
            + (if z = s_sender x then dust else 0)) \<and>
        p_streams (st W') = (p_streams (st W0))(k \<mapsto> x\<lparr>s_total_withdrawn := s_total_withdrawn x + c,
          s_last_withdraw_time := s_end_time x, s_status := Completed\<rparr>))"
proof -
  let ?env = "at base now auth" and ?d = "s_end_time x - s_start_time x"
  obtain c fee W1 W2 W3 where c: "c = s_flow_rate x * int (s_end_time x - s_last_withdraw_time x)"
      "0 < c"
    and fee: "fee = (if storage_is_fee_exempt (st W0) r then 0
            else c * int (get_protocol_fee (st W0)) div 10000)" "0 \<le> fee" "fee \<le> c"
    and du: "0 \<le> dust_of x ?d" "c + dust_of x ?d
       = s_deposit x - s_flow_rate x * int (s_last_withdraw_time x - s_start_time x)"
    and bal: "token_balance base (s_token x) r (ext W1)
       = token_balance base (s_token x) r (ext W0) + (c - fee)"
    "token_balance base (s_token x) tr (ext W1)
       = token_balance base (s_token x) tr (ext W0) + fee"
    "balance_of base (s_token x) W1 = balance_of base (s_token x) W0 - c"
    and W2: "W2 = try_invoke ?env r ''on_stream_withdraw'' [VU64 k, VI128 (c - fee)] W1"
    and fin: "withdraw_finish ?env k (claimed x c now) W2 = Inr W3"
    and st: "p_streams (st W2) = p_streams (st W0)" and id: "s_id x = k" and "funded T x"
    and W': "W' = publish (ev_stream_withdrawn k r c now) W3"
    by (rule reachable_final_claim [OF run tok x op ended(1-3) treasury parties])
  have sac: "sac ?env (s_token x)" using tok(1) by (simp add: honest_token_def)
  have same: "dust_of (claimed x c now) ?d = dust_of x ?d" by (simp add: dust_of_def claimed_def)
  have sac': "sac ?env (s_token (claimed x c now))" using sac by (simp add: claimed_def)
  let ?renewed = "auth (s_sender x) \<and>
        (\<forall>z. token_balance base (s_token x) z (ext W')
          = token_balance base (s_token x) z (ext W2)
            - (if z = s_sender x then s_deposit x else 0)
            + (if z = current_contract base then s_deposit x else 0)) \<and>
        p_streams (st W') = (p_streams (st W0))(k \<mapsto> x\<lparr>s_start_time := s_end_time x,
          s_end_time := s_end_time x + (s_end_time x - s_start_time x),
          s_last_withdraw_time := s_end_time x, s_total_withdrawn := 0\<rparr>)"
    and ?completed = "(\<forall>z. token_balance base (s_token x) z (ext W')
          = token_balance base (s_token x) z (ext W2)
            - (if z = current_contract base then dust_of x ?d else 0)
            + (if z = s_sender x then dust_of x ?d else 0)) \<and>
        p_streams (st W') = (p_streams (st W0))(k \<mapsto> x\<lparr>s_total_withdrawn := s_total_withdrawn x + c,
          s_last_withdraw_time := s_end_time x, s_status := Completed\<rparr>)"
  have last: "if s_deposit x \<le> token_balance base (s_token x) (s_sender x) (ext W2)
      then ?renewed else ?completed"
    using withdraw_finish_renews [OF sac' fin] withdraw_finish_completes [OF sac' fin]
      ended(1,4) du(1) same by (simp add: W' st id claimed_def min_absorb2)
  show ?thesis
    by (rule exI [of _ c], rule exI [of _ fee], rule exI [of _ "dust_of x ?d"], rule exI [of _ W1],
        rule exI [of _ W2], intro conjI) (rule c fee du bal W2 last)+
qed

theorem withdraw_renews_witness:
  "\<exists>W0 W' (W1 :: ledger world). withdraw (at demo_base 4000 (\<lambda>a. a = Addr 1 \<or> a = Addr 2)) 72620543991349248 (Addr 2)
       W0 = Inr ((), W') \<and>
     token_balance demo_base (Addr 9) (Addr 2) (ext W1)
       = token_balance demo_base (Addr 9) (Addr 2) (ext W0) + 3600 \<and>
     p_streams (st W') 72620543991349248 = Some (demo_renewing\<lparr>s_start_time := 3700,
       s_end_time := 7300, s_last_withdraw_time := 3700\<rparr>)"
proof -
  let ?env = "at demo_base 4000 (\<lambda>a. a = Addr 1 \<or> a = Addr 2)"
  obtain W0 where run: "runs (step demo_base) (0, genesis demo_ledger) (150, W0)"
    and x: "p_streams (st W0) = [72620543991349248 \<mapsto> demo_renewing]"
    and e: "ext W0 = (\<lambda>t a. if t = Addr 9 \<and> a = Addr 0 then 3600
                    else if t = Addr 9 \<and> a = Addr 1 then 5400
                    else if a = Addr 1 then 9000 else 0)"
    and t: "get_treasury (st W0) = Some (Addr 7)" "get_protocol_fee (st W0) = 0"
    and p: "i_paused (st W0) = None" "p_fe (st W0) = Map.empty" "i_wd_cd (st W0) = None"
    by (rule demo_run_renewing)
  have x': "p_streams (st W0) 72620543991349248 = Some demo_renewing" by (simp add: x)
  have d: "s_token demo_renewing = Addr 9" "s_sender demo_renewing = Addr 1"
    "s_deposit demo_renewing = 3600" "s_start_time demo_renewing = 100"
    "s_end_time demo_renewing = 3700" "s_cliff_time demo_renewing = 160"
    "s_last_withdraw_time demo_renewing = 100" "s_auto_renew demo_renewing"
    "s_total_withdrawn demo_renewing = 0" "s_flow_rate demo_renewing = 1"
    by (simp_all add: demo_renewing_def demo_stream_def)
  obtain W' where op: "withdraw ?env 72620543991349248 (Addr 2) W0 = Inr ((), W')"
    and new: "p_streams (st W') 72620543991349248 = Some (demo_renewing\<lparr>s_start_time := 3700,
       s_end_time := 7300, s_last_withdraw_time := 3700\<rparr>)"
    using t p
    by (simp add: withdraw_def eval_simps x e demo_stream_def demo_renewing_def demo_base_def
        compute_claimable_eq compute_earned_eq withdraw_payout_def pay_claim_def fee_on_claim_def
        try_invoke_def withdraw_finish_def renew_stream_def dust_of_def clamp_i128_def)
  have tr: "distinct [Addr 2, Addr 7, current_contract demo_base]" by (simp add: demo_base_def)
  have "\<exists>c fee (W1 :: ledger world). c = 3600 \<and> fee = 0 \<and>
     token_balance demo_base (Addr 9) (Addr 2) (ext W1)
       = token_balance demo_base (Addr 9) (Addr 2) (ext W0) + (c - fee)"
    using withdraw_renews [OF run demo_base_honest demo_ledger_nonneg x' op _ _ _ _ t(1) tr]
      t(2) p(2) by (fastforce simp: d storage_is_fee_exempt_def)
  with op new show ?thesis by fastforce
qed

text \<open>
  C38: before the cliff a withdrawal that succeeds pays nothing, yet moves the last withdrawal to
  now: at every later time the recipient can claim less than before the call, by exactly what
  had streamed until then. Nothing else of the stream changes.
\<close>

theorem withdraw_before_cliff_forfeits:
  assumes run: "runs (step base) (0, genesis w) (T, W0)" and now: "T \<le> now"
    and tok: "honest_token base (s_token x)"
      "0 \<le> token_balance base (s_token x) (current_contract base) w"
    and x: "p_streams (st W0) k = Some x"
    and op: "withdraw (at base now auth) k r W0 = Inr ((), W')"
    and early: "now < s_cliff_time x" "s_cliff_time x \<le> s_end_time x"
    and later: "s_cliff_time x \<le> n"
  shows "ext W' = ext W0 \<and>
     p_streams (st W') = (p_streams (st W0))(k \<mapsto> x\<lparr>s_last_withdraw_time := now\<rparr>) \<and>
     (\<exists>c c'. compute_claimable (s_flow_rate x) n (s_cliff_time x) (s_end_time x)
               (s_last_withdraw_time x) = Some c \<and>
             compute_claimable (s_flow_rate x) n (s_cliff_time x) (s_end_time x) now = Some c' \<and>
             c' = c - s_flow_rate x * int (now - s_last_withdraw_time x))"
proof -
  let ?env = "at base now auth"
  obtain W c y W1 W2 where frame: "ext W = ext W0" "p_streams (st W) = p_streams (st W0)"
    and ok: "stream_ok T x" and "live x" and fu: "funded T x" and ids: "s_id x = k"
    and c: "compute_claimable (s_flow_rate x) now (s_cliff_time x) (s_end_time x)
        (s_last_withdraw_time x) = Some c"
    and pay: "(if 0 < c then withdraw_payout ?env k r x c W else Inr (x, W)) = Inr (y, W1)"
    and fin: "(if s_end_time y \<le> now
      then withdraw_finish ?env k (y\<lparr>s_last_withdraw_time := min now (s_end_time x)\<rparr>) W1
      else Inr (in_store (save_stream (y\<lparr>s_last_withdraw_time := min now (s_end_time x)\<rparr>)) W1))
        = Inr W2"
    and W': "W' = publish (ev_stream_withdrawn k r c now) W2"
    by (rule reachable_withdraw [OF run tok x op])
  have c0: "c = 0" using c early by (simp add: compute_claimable_eq)
  have y: "y = x" "W1 = W" using pay c0 by simp_all
  have W2: "W2 = in_store (save_stream (x\<lparr>s_last_withdraw_time := now\<rparr>)) W"
    using fin early by (simp add: y min_def)
  have st: "ext W' = ext W0"
    "p_streams (st W') = (p_streams (st W0))(k \<mapsto> x\<lparr>s_last_withdraw_time := now\<rparr>)"
    using frame ids by (simp_all add: W' W2)
  let ?f = "s_flow_rate x" and ?l = "s_last_withdraw_time x" and ?m = "min n (s_end_time x)"
  have t: "s_start_time x \<le> ?l" "?l \<le> now" "now \<le> ?m" "0 \<le> ?f"
    using fu now early later unfolding funded_def by auto
  have D: "?f * int (s_end_time x - s_start_time x) \<le> s_deposit x"
    using fu unfolding funded_def by blast
  have in1: "in_i128 (?f * int (?m - l'))" if "s_start_time x \<le> l'" for l'
  proof (rule in_i128_below [of _ "s_deposit x"])
    have "?f * int (?m - l') \<le> ?f * int (s_end_time x - s_start_time x)"
      using t(4) that by (intro flow_mono) auto
    with D show "?f * int (?m - l') \<le> s_deposit x" by linarith
  qed (use t ok in \<open>simp_all add: stream_ok_def typed_def\<close>)
  have "?f * int (now - ?l) + ?f * int (?m - now) = ?f * int (?m - ?l)"
    by (rule flow_split [OF t(2,3)])
  with in1 [OF t(1)] in1 [of now] t st later show ?thesis
    by (simp add: compute_claimable_eq compute_earned_eq checked_mul_i128_def del: of_nat_diff)
qed

theorem withdraw_before_cliff_forfeits_witness:
  "\<exists>W0 W'. withdraw (at demo_base 150 (\<lambda>a. a = Addr 2)) 72620543991349248 (Addr 2) W0
       = Inr ((), W') \<and> ext W' = ext W0 \<and>
     p_streams (st W') 72620543991349248 = Some (demo_stream\<lparr>s_last_withdraw_time := 150\<rparr>) \<and>
     (\<exists>c c'. compute_claimable 2 3700 160 3700 100 = Some c \<and>
             compute_claimable 2 3700 160 3700 150 = Some c' \<and> c' = c - 100)"
proof -
  obtain W0 where run: "runs (step demo_base) (0, genesis demo_ledger) (100, W0)"
    and x: "p_streams (st W0) = [72620543991349248 \<mapsto> demo_stream]"
    and p: "i_paused (st W0) = None" "i_wd_cd (st W0) = None"
    by (rule demo_run)
  have x': "p_streams (st W0) 72620543991349248 = Some demo_stream" by (simp add: x)
  obtain W' where op: "withdraw (at demo_base 150 (\<lambda>a. a = Addr 2)) 72620543991349248
      (Addr 2) W0 = Inr ((), W')"
    using p by (simp add: withdraw_def eval_simps x demo_stream_def demo_base_def
        compute_claimable_eq)
  from withdraw_before_cliff_forfeits [OF run _ demo_base_honest demo_ledger_nonneg x' op,
      where n = 3700] op
  show ?thesis by (intro exI [of _ W0] exI [of _ W']) (simp add: demo_stream_def)
qed

text \<open>
  C39: the batch path ignores the cliff. Where \<open>get_claimable\<close> reports nothing because the cliff
  is not reached, \<open>batch_withdraw\<close> of the same stream still claims everything that has streamed.
\<close>

theorem batch_withdraw_ignores_cliff:
  assumes op: "batch_withdraw env [k] r W0 = Inr (out, W')"
    and x: "p_streams (st W0) k = Some x"
    and early: "ledger_timestamp env < s_cliff_time x"
  shows "get_claimable env W0 k = Inr 0 \<and>
         out = [s_flow_rate x * int (min (ledger_timestamp env) (s_end_time x)
                  - s_last_withdraw_time x)]"
proof -
  from op obtain W c where W: "when_not_paused env W0 = Inr W"
    and one: "batch_withdraw_one env k r W = Inr (c, W')" and out: "out = [c]"
    by (auto simp: batch_withdraw_def bindE_eq_Inr)
  have xW: "p_streams (st W) k = Some x" using unpause_frame(1) [OF W] x by simp
  with one have active: "s_status x = Active"
    and c: "compute_earned (s_flow_rate x) (ledger_timestamp env) (s_end_time x)
        (s_last_withdraw_time x) = Some c"
    by (auto simp: batch_withdraw_one_def Let_def bindE_eq_Inr ok_or_eq_Inr find_stream_Inr
        if_Inl_eq_Inr)
  show ?thesis
    using x active early earned_amount [OF c] out
    by (simp add: get_claimable_def find_stream_def load_stream_def live_def stream_now_def Let_def)
qed

theorem batch_withdraw_ignores_cliff_witness:
  "\<exists>W W'. batch_withdraw (at demo_base 150 (\<lambda>a. a = Addr 2)) [72620543991349248] (Addr 2) W
       = Inr ([100], W') \<and>
     get_claimable (at demo_base 150 (\<lambda>a. a = Addr 2)) W 72620543991349248 = Inr 0"
proof -
  obtain W :: "ledger world" where
    x: "p_streams (st W) = [72620543991349248 \<mapsto> demo_stream]"
    and e: "ext W = (\<lambda>t a. if t = Addr 9 \<and> a = Addr 0 then 7200
                    else if t = Addr 9 \<and> a = Addr 1 then 1800
                    else if a = Addr 1 then 9000 else 0)"
    and p: "i_paused (st W) = None" "i_fee_bps (st W) = None"
    by (rule demo_run)
  have x': "p_streams (st W) 72620543991349248 = Some demo_stream" by (simp add: x)
  obtain out W' where op: "batch_withdraw (at demo_base 150 (\<lambda>a. a = Addr 2))
      [72620543991349248] (Addr 2) W = Inr (out, W')"
    using p by (simp add: batch_withdraw_def batch_withdraw_one_def eval_simps x e
        demo_stream_def demo_base_def compute_earned_eq pay_claim_batch_def fee_on_claim_def)
  from batch_withdraw_ignores_cliff [OF op x'] op show ?thesis
    by (intro exI [of _ W] exI [of _ W']) (simp add: demo_stream_def)
qed

end
