(* ===== verification/Lifecycle.thy ===== *)
theory Lifecycle
  imports Claims
begin

text \<open>
  What the instructions along a stream's life do to it: the inversion of a creation (its effect
  is stated with the replays, once the runs after it are at hand), topping up, pausing and
  resuming, changing the recipient, and archiving.
\<close>

section \<open>Creation\<close>

lemma register_stream_index:
  assumes "register_stream x s = Inr s'"
  shows "get_sender_stream_count s' (s_sender x) = get_sender_stream_count s (s_sender x) + 1"
    "p_n s' = p_n s"
  using assms by (auto simp: register_stream_def outcome save_stream_def
      get_sender_stream_count_def)

lemma create_stream_inv:
  assumes "create_stream env sender recipient token amount d cliff nonce ar lock art md W0
      = Inr (k, W')"
  obtains W f W2 W3 s where "authorizes env sender" "when_not_paused env W0 = Inr W"
    "p_n (st W) sender nonce = None" "0 < amount" "cliff < d"
    "div_i128 amount (int d) = (Inr f :: (stream_error, int) outcome)" "f \<noteq> 0"
    "get_sender_stream_count (st W) sender < effective_sender_limit (st W) sender"
    "k = derive_stream_id env sender recipient (ledger_timestamp env) nonce"
    "p_streams (st W) k = None"
    "collect_creation_fee env sender (in_store (mark_nonce_used sender nonce) W) = Inr W2"
    "transfer env token sender (current_contract env) amount W2
        = (Inr W3 :: (stream_error, _) outcome)"
    "register_stream \<lparr>s_id = k, s_sender = sender, s_recipient = recipient,
       s_token = token, s_deposit = amount, s_flow_rate = f,
       s_start_time = ledger_timestamp env, s_cliff_time = ledger_timestamp env + cliff,
       s_lock_until = lock, s_end_time = ledger_timestamp env + d,
       s_last_withdraw_time = ledger_timestamp env, s_status = Active, s_auto_renew = ar,
       s_allow_recipient_termination = art, s_last_pause_time = 0,
       s_total_withdrawn = 0, s_metadata = md\<rparr> (st W3) = Inr s"
    "st W' = s" "ext W' = ext W3"
  using assms
  by (auto simp: create_stream_def Let_def bindE_eq_Inr ok_or_eq_Inr checked_add_u64_Some
      require_auth_Inr not_less not_le stream_exists_def nonce_used_def mark_nonce_used_def
      if_Inl_eq_Inr)

lemma collect_creation_fee_st:
  "collect_creation_fee env sender W = Inr W' \<Longrightarrow> st W' = st W"
  by (auto simp: collect_creation_fee_def Let_def bindE_eq_Inr dest: transfer_st split: if_splits)

section \<open>Topping up\<close>

text \<open>
  C18: topping up a stream buys whole seconds. The caller pays the largest multiple of the rate
  that the amount covers; the end moves by exactly that many seconds and the deposit grows by
  exactly the payment, so the rate times the duration grows with the deposit and the dust of the
  stream stays what it was. Nothing else of the stream changes.
\<close>

theorem top_up_extends:
  assumes op: "top_up env k caller token amount W0 = Inr ((), W')"
    and x: "p_streams (st W0) k = Some x" "s_id x = k" "0 < s_flow_rate x"
    and times: "s_start_time x \<le> s_end_time x"
    and sac: "sac env token" and other: "caller \<noteq> current_contract env"
  shows "\<exists>secs paid y.
     0 < secs \<and> paid = s_flow_rate x * int secs \<and> paid \<le> amount \<and> amount < paid + s_flow_rate x \<and>
     y = x\<lparr>s_end_time := s_end_time x + secs, s_deposit := s_deposit x + paid\<rparr> \<and>
     p_streams (st W') = (p_streams (st W0))(k \<mapsto> y) \<and>
     s_deposit y - s_flow_rate y * int (s_end_time y - s_start_time y)
       = s_deposit x - s_flow_rate x * int (s_end_time x - s_start_time x) \<and>
     balance_of env token W' = balance_of env token W0 + paid \<and>
     token_balance env token caller (ext W') = token_balance env token caller (ext W0) - paid"
proof -
  from op obtain W x' r m W1 where W: "when_not_paused env W0 = Inr W"
    and x': "p_streams (st W) k = Some x'" and tk: "s_token x' = token" and amount: "0 < amount"
    and r: "rem_i128 amount (s_flow_rate x') = (Inr r :: (stream_error, int) outcome)"
    and e: "0 < amount - r"
    and W1: "transfer env (s_token x') caller (current_contract env) (amount - r) W
        = (Inr W1 :: (stream_error, _) outcome)"
    and m: "div_i128 (amount - r) (s_flow_rate x') = (Inr m :: (stream_error, int) outcome)"
    and W': "st W' = save_stream (x'\<lparr>s_end_time := s_end_time x' + nat m,
          s_deposit := s_deposit x' + (amount - r)\<rparr>) (st W1)" "ext W' = ext W1"
    by (auto simp: top_up_def Let_def bindE_eq_Inr find_stream_Inr if_Inl_eq_Inr ok_or_eq_Inr
        plain_eq_Inr checked_add_u64_Some checked_add_Some u64_try_from_Some not_le not_less)
  note frame = unpause_frame [OF W]
  have xx: "x' = x" using x(1) x' frame(1) by simp
  note a = top_up_amounts [OF x(3) amount r [unfolded xx]]
  have m_eq: "m = amount div s_flow_rate x" using m a(5) e x(3) by (simp add: xx div_i128_nonneg)
  have paid: "amount - r = s_flow_rate x * m" using a(5) m_eq by simp
  have m0: "0 < m" using e x(3) paid by (metis zero_less_mult_pos)
  let ?y = "x\<lparr>s_end_time := s_end_time x + nat m, s_deposit := s_deposit x + (amount - r)\<rparr>"
  have "int (s_end_time x + nat m - s_start_time x) = int (s_end_time x - s_start_time x) + m"
    using times m0 by simp
  then have "s_flow_rate x * int (s_end_time x + nat m - s_start_time x)
      = s_flow_rate x * int (s_end_time x - s_start_time x) + (amount - r)"
    by (simp only: paid distrib_left)
  then have dust: "s_deposit ?y - s_flow_rate ?y * int (s_end_time ?y - s_start_time ?y)
       = s_deposit x - s_flow_rate x * int (s_end_time x - s_start_time x)"
    by (simp del: of_nat_diff)
  have bal: "balance_of env token W' = balance_of env token W0 + (amount - r)"
    "token_balance env token caller (ext W') = token_balance env token caller (ext W0) - (amount - r)"
    using transfer_exact [OF sac W1 [unfolded tk], of "current_contract env"]
      transfer_exact [OF sac W1 [unfolded tk], of caller] W'(2) frame(3) other
    by (simp_all add: balance_of_def)
  have tab: "p_streams (st W') = (p_streams (st W0))(k \<mapsto> ?y)"
    using W'(1) transfer_st [OF W1] frame(1) x(2) by (simp add: xx)
  show ?thesis
    using m0 a(1-3) paid dust bal tab
    by (intro exI [of _ "nat m"] exI [of _ "amount - r"] exI [of _ ?y]) simp
qed

theorem top_up_extends_witness:
  "\<exists>W W' y. top_up (at demo_base 200 (\<lambda>a. a = Addr 1)) 72620543991349248 (Addr 1) (Addr 9) 101 W
       = Inr ((), W') \<and> p_streams (st W') 72620543991349248 = Some y \<and>
     s_end_time y = 3750 \<and> s_deposit y = 7300"
proof -
  obtain W :: "ledger world" where
    x: "p_streams (st W) = [72620543991349248 \<mapsto> demo_stream]"
    and e: "ext W = (\<lambda>t a. if t = Addr 9 \<and> a = Addr 0 then 7200
                    else if t = Addr 9 \<and> a = Addr 1 then 1800
                    else if a = Addr 1 then 9000 else (0::int))"
    and p: "i_paused (st W) = None"
    by (rule demo_run)
  let ?e = "at demo_base 200 (\<lambda>a. a = Addr 1)"
  have x': "p_streams (st W) 72620543991349248 = Some demo_stream" by (simp add: x)
  obtain W' where op: "top_up ?e 72620543991349248 (Addr 1) (Addr 9) 101 W = Inr ((), W')"
    using p by (simp add: top_up_def eval_simps x e demo_stream_def demo_base_def may_manage_def
        live_def)
  have "sac ?e (Addr 9)" using demo_base_honest by (simp add: honest_token_def)
  moreover have "Addr 1 \<noteq> current_contract ?e" by (simp add: demo_base_def)
  ultimately show ?thesis
    using top_up_extends [OF op x'] op
    by (intro exI [of _ W] exI [of _ W']) (force simp: demo_stream_def)
qed

section \<open>Pausing and resuming\<close>

text \<open>
  C16: a pause costs the recipient nothing and the sender nothing. When a stream is paused at one
  time and resumed at a later one, and no time overflows, every time of the stream is shifted by
  the length of the pause; so at any later time exactly that is claimable which would have been
  claimable, without the pause, that much earlier. While the stream is paused the reported
  claim does not move.
\<close>

theorem pause_resume_shifts:
  assumes pause: "pause_stream env k a W0 = Inr ((), W1)"
    and resume: "resume_stream env' k a' W2 = Inr ((), W3)"
    and between: "st W2 = st W1" "ledger_timestamp env \<le> ledger_timestamp env'"
    and x: "p_streams (st W0) k = Some x" "s_id x = k"
    and small: "\<forall>t \<in> {s_start_time x, s_cliff_time x, s_lock_until x, s_end_time x,
        s_last_withdraw_time x}. t + (ledger_timestamp env' - ledger_timestamp env) \<le> u64_max"
  defines "pause_length \<equiv> ledger_timestamp env' - ledger_timestamp env"
  shows "\<exists>y. p_streams (st W3) k = Some y \<and>
     y = x\<lparr>s_start_time := s_start_time x + pause_length,
           s_cliff_time := s_cliff_time x + pause_length,
           s_lock_until := s_lock_until x + pause_length,
           s_end_time := s_end_time x + pause_length,
           s_last_withdraw_time := s_last_withdraw_time x + pause_length,
           s_status := Active, s_last_pause_time := 0\<rparr> \<and>
     compute_claimable (s_flow_rate y) (n + pause_length) (s_cliff_time y) (s_end_time y)
         (s_last_withdraw_time y)
       = compute_claimable (s_flow_rate x) n (s_cliff_time x) (s_end_time x)
           (s_last_withdraw_time x) \<and>
     get_claimable env'' W2 k = get_claimable env W0 k"
proof -
  from pause obtain W x' where W: "when_not_paused env W0 = Inr W" and active': "s_status x' = Active"
    and x': "p_streams (st W) k = Some x'"
    and W1': "st W1 = save_stream (x'\<lparr>s_status := Paused,
        s_last_pause_time := ledger_timestamp env\<rparr>) (st W)"
    by (auto simp: pause_stream_def Let_def bindE_eq_Inr find_stream_Inr if_Inl_eq_Inr)
  have xx: "x' = x" using x(1) x' unpause_frame(1) [OF W] by simp
  note active = active' [unfolded xx] and W1 = W1' [unfolded xx]
  let ?p = "x\<lparr>s_status := Paused, s_last_pause_time := ledger_timestamp env\<rparr>"
  from resume obtain W2' z where W2': "when_not_paused env' W2 = Inr W2'"
    and z: "p_streams (st W2') k = Some z"
    and W3: "let sh = \<lambda>t. unwrap_or u64_max (checked_add_u64 t
          (ledger_timestamp env' - s_last_pause_time z))
      in st W3 = save_stream (z\<lparr>s_end_time := sh (s_end_time z),
           s_cliff_time := sh (s_cliff_time z), s_start_time := sh (s_start_time z),
           s_last_withdraw_time := sh (s_last_withdraw_time z),
           s_lock_until := sh (s_lock_until z), s_status := Active,
           s_last_pause_time := 0\<rparr>) (st W2')"
    by (auto simp: resume_stream_def Let_def bindE_eq_Inr find_stream_Inr if_Inl_eq_Inr)
  have p: "p_streams (st W1) k = Some ?p" using W1 x(2) by simp
  have zz: "z = ?p" using z p unpause_frame(1) [OF W2'] between(1) by simp
  have sh: "unwrap_or u64_max (checked_add_u64 t pause_length) = t + pause_length"
    if "t \<in> {s_start_time x, s_cliff_time x, s_lock_until x, s_end_time x,
        s_last_withdraw_time x}" for t
    using small that by (auto simp: checked_add_u64_def pause_length_def)
  have y: "p_streams (st W3) k = Some (x\<lparr>s_start_time := s_start_time x + pause_length,
           s_cliff_time := s_cliff_time x + pause_length,
           s_lock_until := s_lock_until x + pause_length,
           s_end_time := s_end_time x + pause_length,
           s_last_withdraw_time := s_last_withdraw_time x + pause_length,
           s_status := Active, s_last_pause_time := 0\<rparr>)"
    using W3 x(2) sh by (simp add: zz Let_def pause_length_def [symmetric])
  have "min (n + pause_length) (s_end_time x + pause_length)
      - (s_last_withdraw_time x + pause_length) = min n (s_end_time x) - s_last_withdraw_time x"
    by linarith
  then have claim: "compute_claimable (s_flow_rate x) (n + pause_length)
      (s_cliff_time x + pause_length) (s_end_time x + pause_length)
      (s_last_withdraw_time x + pause_length)
    = compute_claimable (s_flow_rate x) n (s_cliff_time x) (s_end_time x) (s_last_withdraw_time x)"
    by (simp add: compute_claimable_eq compute_earned_eq)
  have "get_claimable env'' W2 k = get_claimable env W0 k"
    using p x active between(1)
    by (simp add: get_claimable_def find_stream_def load_stream_def live_def stream_now_def Let_def)
  with y claim show ?thesis by simp
qed

theorem pause_resume_shifts_witness:
  "\<exists>W W1 W3. pause_stream (at demo_base 1000 (\<lambda>a. a = Addr 1)) 72620543991349248 (Addr 1) W
       = Inr ((), W1) \<and>
     resume_stream (at demo_base 1600 (\<lambda>a. a = Addr 1)) 72620543991349248 (Addr 1) W1
       = Inr ((), W3) \<and>
     (\<exists>y. p_streams (st W3) 72620543991349248 = Some y \<and> s_end_time y = 4300 \<and>
          s_cliff_time y = 760)"
proof -
  obtain W :: "ledger world" where x: "p_streams (st W) = [72620543991349248 \<mapsto> demo_stream]"
    and p: "i_paused (st W) = None"
    by (rule demo_run)
  let ?e = "at demo_base 1000 (\<lambda>a. a = Addr 1)" and ?e' = "at demo_base 1600 (\<lambda>a. a = Addr 1)"
  have x': "p_streams (st W) 72620543991349248 = Some demo_stream" by (simp add: x)
  have "\<exists>W1 W3. pause_stream ?e 72620543991349248 (Addr 1) W = Inr ((), W1) \<and>
      resume_stream ?e' 72620543991349248 (Addr 1) W1 = Inr ((), W3)"
    using p by (simp add: pause_stream_def resume_stream_def eval_simps x demo_stream_def
        demo_base_def)
  then obtain W1 W3 where op: "pause_stream ?e 72620543991349248 (Addr 1) W = Inr ((), W1)"
    "resume_stream ?e' 72620543991349248 (Addr 1) W1 = Inr ((), W3)" by blast
  from pause_resume_shifts [OF op refl _ x', of 0 ?e] op show ?thesis
    by (intro exI [of _ W] exI [of _ W1] exI [of _ W3])
      (auto simp: demo_stream_def u64_max_def)
qed

section \<open>Changing the recipient\<close>

text \<open>The stream that settling leaves, when \<open>c\<close> was claimed at the time \<open>n\<close>.\<close>

definition settled :: "stream \<Rightarrow> int \<Rightarrow> nat \<Rightarrow> stream" where
  "settled x c n = (if 0 < c then claimed x c n else x)"

text \<open>
  What settling pays and records: nothing before the cliff or the lock, after both exactly what
  has streamed since the last withdrawal, less the fee.
\<close>

lemma settle_before_transfer_exact:
  assumes claim: "settle_before_transfer env k r x n W = Inr (y, W1)"
    and sac: "sac env (s_token x)" and fees: "fees_ok (st W)" and r: "s_recipient x = r"
    and x: "0 < s_flow_rate x"
    and treasury: "get_treasury (st W) = Some tr"
    and parties: "distinct [r, tr, current_contract env]"
  defines "c \<equiv> if s_lock_until x \<le> n \<and> s_cliff_time x \<le> n
      then s_flow_rate x * int (min n (s_end_time x) - s_last_withdraw_time x) else 0"
  defines "fee \<equiv> if storage_is_fee_exempt (st W) r then 0
      else c * int (get_protocol_fee (st W)) div 10000"
  shows "0 \<le> c" "0 \<le> fee" "fee \<le> c" "y = settled x c n" "st W1 = st W"
    "token_balance env (s_token x) r (ext W1) = token_balance env (s_token x) r (ext W) + (c - fee)"
    "token_balance env (s_token x) tr (ext W1) = token_balance env (s_token x) tr (ext W) + fee"
    "balance_of env (s_token x) W1 = balance_of env (s_token x) W - c"
proof -
  show c0: "0 \<le> c" using x by (simp add: c_def)
  have earned: "compute_earned (s_flow_rate x) n (s_end_time x) (s_last_withdraw_time x) = Some c"
    if late: "s_lock_until x \<le> n" "s_cliff_time x \<le> n"
  proof -
    obtain c1 where c1: "compute_earned (s_flow_rate x) n (s_end_time x)
        (s_last_withdraw_time x) = Some c1"
      using claim late by (auto simp: settle_before_transfer_def compute_claimable_eq Let_def
          bindE_eq_Inr ok_or_eq_Inr)
    with earned_amount [OF c1] late show ?thesis by (simp add: c_def)
  qed
  have "0 \<le> fee \<and> fee \<le> c \<and> y = settled x c n \<and> st W1 = st W \<and>
    token_balance env (s_token x) r (ext W1) = token_balance env (s_token x) r (ext W) + (c - fee) \<and>
    token_balance env (s_token x) tr (ext W1) = token_balance env (s_token x) tr (ext W) + fee \<and>
    balance_of env (s_token x) W1 = balance_of env (s_token x) W - c"
  proof (cases "0 < c")
    case False
    with c0 have none: "c = 0" by simp
    have "y = x \<and> W1 = W"
      using claim earned [unfolded none]
      by (auto simp: settle_before_transfer_def compute_claimable_eq Let_def split: if_splits)
    then show ?thesis by (simp add: none fee_def settled_def)
  next
    case True
    then have late: "s_lock_until x \<le> n" "s_cliff_time x \<le> n" by (auto simp: c_def split: if_splits)
    from claim late earned [OF late] True obtain ra W2 where
      pay: "pay_claim env k x r c W = Inr (ra, W2)" and y: "claimed x c n = y"
      and W1: "W1 = publish (ev_stream_withdrawn k r c n) W2"
      by (auto simp: settle_before_transfer_def compute_claimable_eq Let_def
          bindE_eq_Inr ok_or_eq_Inr checked_add_Some claimed_def)
    note out = pay_claim_exact [OF sac fees True pay treasury parties, unfolded r, folded fee_def]
    show ?thesis using out(2-) True y by (simp add: W1 settled_def balance_of_def)
  qed
  then show "0 \<le> fee" "fee \<le> c" "y = settled x c n" "st W1 = st W"
    "token_balance env (s_token x) r (ext W1) = token_balance env (s_token x) r (ext W) + (c - fee)"
    "token_balance env (s_token x) tr (ext W1) = token_balance env (s_token x) tr (ext W) + fee"
    "balance_of env (s_token x) W1 = balance_of env (s_token x) W - c"
    by blast+
qed

lemma transfer_recipient_inv:
  assumes "transfer_recipient env k a b W0 = Inr ((), W')"
  obtains W x y W1 s where "when_not_paused env W0 = Inr W" "authorizes env a"
    "p_streams (st W) k = Some x" "live x" "s_recipient x = a"
    "settle_before_transfer env k a x (stream_now env x) W = Inr (y, W1)"
    "index_by_recipient b k (unindex_by_recipient (s_recipient y) k
        (save_stream (y\<lparr>s_recipient := b\<rparr>) (st W1))) = (Inr s :: (stream_error, _) outcome)"
    "st W' = s" "ext W' = ext W1"
  using assms by (auto simp: transfer_recipient_def Let_def bindE_eq_Inr find_stream_Inr
      if_Inl_eq_Inr require_auth_Inr)

text \<open>A settled stream has nothing left to claim at the same time.\<close>

lemma settled_claimable:
  assumes y: "p_streams (st W) k = Some ((settled x c n)\<lparr>s_recipient := b\<rparr>)"
    and n: "n = stream_now env x" and x: "live x" "0 < s_flow_rate x"
    and c: "c = s_flow_rate x * int (min n (s_end_time x) - s_last_withdraw_time x)"
  shows "get_claimable env W k = Inr 0"
proof -
  let ?y = "(settled x c n)\<lparr>s_recipient := b\<rparr>"
  have "live ?y" "stream_now env ?y = n" "s_flow_rate ?y = s_flow_rate x"
    "s_end_time ?y = s_end_time x"
    using x n by (simp_all add: settled_def claimed_def live_def stream_now_def)
  moreover have "min n (s_end_time x) - s_last_withdraw_time ?y = 0"
  proof (cases "0 < c")
    case False
    then have "min n (s_end_time x) - s_last_withdraw_time x = 0"
      using x(2) unfolding c by (simp add: not_less mult_le_0_iff)
    with False show ?thesis by (simp add: settled_def)
  qed (simp add: settled_def claimed_def)
  ultimately show ?thesis
    using y by (simp add: get_claimable_def find_stream_def load_stream_def Let_def
        compute_claimable_eq compute_earned_eq checked_mul_i128_def
        del: diff_is_0_eq diff_is_0_eq')
qed

text \<open>A hand-over in a reachable state, with what is known of the stream and the settling.\<close>

lemma reachable_transfer:
  assumes run: "runs (step base) (0, genesis w) (T, W0)"
    and tok: "honest_token base (s_token x)"
      "0 \<le> token_balance base (s_token x) (current_contract base) w"
    and x: "p_streams (st W0) k = Some x"
    and op: "transfer_recipient (at base now auth) k a b W0 = Inr ((), W')"
  obtains W y W1 where
    "settle_before_transfer (at base now auth) k a x (stream_now (at base now auth) x) W
       = Inr (y, W1)" "fees_ok (st W)" "ext W = ext W0"
    "get_treasury (st W) = get_treasury (st W0)"
    "storage_is_fee_exempt (st W) = storage_is_fee_exempt (st W0)"
    "get_protocol_fee (st W) = get_protocol_fee (st W0)"
    "auth a" "s_recipient x = a" "live x" "0 < s_flow_rate x"
    "st W1 = st W \<and> s_id y = s_id x \<longrightarrow>
       p_streams (st W') = (p_streams (st W0))(k \<mapsto> y\<lparr>s_recipient := b\<rparr>)"
    "ext W' = ext W1"
proof -
  let ?env = "at base now auth"
  obtain W x' y W1 s where W: "when_not_paused ?env W0 = Inr W" and auth: "authorizes ?env a"
    and x': "p_streams (st W) k = Some x'" "live x'" "s_recipient x' = a"
    and claim: "settle_before_transfer ?env k a x' (stream_now ?env x') W = Inr (y, W1)"
    and s: "index_by_recipient b k (unindex_by_recipient (s_recipient y) k
        (save_stream (y\<lparr>s_recipient := b\<rparr>) (st W1))) = (Inr s :: (stream_error, _) outcome)"
    and W': "st W' = s" "ext W' = ext W1"
    by (rule transfer_recipient_inv [OF op])
  note frame = unpause_frame [OF W]
  have xx: "x' = x" using x x'(1) frame(1) by simp
  note x' = x' [unfolded xx]
  have "books_ok T (s_token x) (balance_of ?env (s_token x) W0) (st W0)"
    using reachable_books [OF run tok] by simp
  note books = unpaused_books [OF W this]
  have ok: "stream_ok T x" "s_id x = k" using books_stream [OF books(1) x'(1)] by simp_all
  then have rate: "0 < s_flow_rate x" using x'(2) by (simp add: stream_ok_def funded_def)
  have unp: "get_treasury (st W) = get_treasury (st W0)"
    "storage_is_fee_exempt (st W) = storage_is_fee_exempt (st W0)"
    "get_protocol_fee (st W) = get_protocol_fee (st W0)"
    using when_not_paused_frame(3) [OF W] by (auto simp: fun_eq_iff handler)
  have tab: "st W1 = st W \<and> s_id y = s_id x \<longrightarrow>
      p_streams (st W') = (p_streams (st W0))(k \<mapsto> y\<lparr>s_recipient := b\<rparr>)"
    using index_by_recipient_frame(1) [OF s] frame(1) ok(2) by (simp add: W')
  from auth have "auth a" by simp
  from that [OF claim [unfolded xx] books(2) frame(3) unp this x'(3,2) rate tab W'(2)]
  show thesis .
qed

text \<open>
  C17: handing a stream over. Only the recipient can, and by its signature. When the cliff and
  the lock are over, the old recipient is paid first exactly what streamed since the last
  withdrawal (up to now, or to the pause) less the protocol fee, which the treasury receives;
  before the cliff or the lock nothing is paid, and what has streamed goes to the new recipient
  with the stream. The claim and its time are recorded, the recipient is replaced, nothing else
  of the stream table changes, and after a settlement nothing is claimable at that moment.
\<close>

theorem transfer_recipient_settles:
  assumes run: "runs (step base) (0, genesis w) (T, W0)"
    and tok: "honest_token base (s_token x)"
      "0 \<le> token_balance base (s_token x) (current_contract base) w"
    and x: "p_streams (st W0) k = Some x"
    and op: "transfer_recipient (at base now auth) k a b W0 = Inr ((), W')"
    and treasury: "get_treasury (st W0) = Some tr"
    and parties: "distinct [a, tr, current_contract base]"
  defines "n \<equiv> stream_now (at base now auth) x"
  defines "open_now \<equiv> s_lock_until x \<le> n \<and> s_cliff_time x \<le> n"
  shows "\<exists>c fee. s_recipient x = a \<and> auth a \<and> live x \<and>
     c = (if open_now then s_flow_rate x * int (min n (s_end_time x) - s_last_withdraw_time x)
          else 0) \<and>
     fee = (if storage_is_fee_exempt (st W0) a then 0
            else c * int (get_protocol_fee (st W0)) div 10000) \<and> 0 \<le> fee \<and> fee \<le> c \<and>
     token_balance base (s_token x) a (ext W')
       = token_balance base (s_token x) a (ext W0) + (c - fee) \<and>
     token_balance base (s_token x) tr (ext W')
       = token_balance base (s_token x) tr (ext W0) + fee \<and>
     balance_of base (s_token x) W' = balance_of base (s_token x) W0 - c \<and>
     p_streams (st W') = (p_streams (st W0))(k \<mapsto> x\<lparr>s_recipient := b,
       s_total_withdrawn := s_total_withdrawn x + c,
       s_last_withdraw_time := if 0 < c then min n (s_end_time x)
                               else s_last_withdraw_time x\<rparr>) \<and>
     (open_now \<longrightarrow> get_claimable (at base now auth) W' k = Inr 0)"
proof -
  let ?env = "at base now auth"
  obtain W y W1 where claim: "settle_before_transfer ?env k a x n W = Inr (y, W1)"
    and fees: "fees_ok (st W)" and ext: "ext W = ext W0"
    and unp: "get_treasury (st W) = get_treasury (st W0)"
      "storage_is_fee_exempt (st W) = storage_is_fee_exempt (st W0)"
      "get_protocol_fee (st W) = get_protocol_fee (st W0)"
    and x': "auth a" "s_recipient x = a" "live x" "0 < s_flow_rate x"
    and tab: "st W1 = st W \<and> s_id y = s_id x \<longrightarrow>
      p_streams (st W') = (p_streams (st W0))(k \<mapsto> y\<lparr>s_recipient := b\<rparr>)"
    and W': "ext W' = ext W1"
    unfolding n_def by (rule reachable_transfer [OF run tok x op])
  have sac: "sac ?env (s_token x)" using tok(1) by (simp add: honest_token_def)
  have "distinct [a, tr, current_contract ?env]" using parties by simp
  note out = settle_before_transfer_exact [OF claim sac fees x'(2,4) treasury [folded unp(1)] this,
      folded open_now_def, unfolded unp]
  define c where "c = (if open_now
      then s_flow_rate x * int (min n (s_end_time x) - s_last_withdraw_time x) else 0)"
  note out = out [folded c_def]
  have tab: "p_streams (st W') = (p_streams (st W0))(k \<mapsto> (settled x c n)\<lparr>s_recipient := b\<rparr>)"
    using tab out(4,5) by (simp add: settled_def)
  have rec: "(settled x c n)\<lparr>s_recipient := b\<rparr> = x\<lparr>s_recipient := b,
       s_total_withdrawn := s_total_withdrawn x + c,
       s_last_withdraw_time := if 0 < c then min n (s_end_time x) else s_last_withdraw_time x\<rparr>"
    using out(1) by (simp add: settled_def claimed_def)
  have zero: "get_claimable ?env W' k = Inr 0" if open_now
    by (rule settled_claimable [where x = x and n = n and c = c])
      (use that x'(3,4) tab in \<open>simp_all add: n_def c_def\<close>)
  have bal: "token_balance base (s_token x) a (ext W')
       = token_balance base (s_token x) a (ext W0) + (c - (if storage_is_fee_exempt (st W0) a then 0
            else c * int (get_protocol_fee (st W0)) div 10000))"
    "token_balance base (s_token x) tr (ext W')
       = token_balance base (s_token x) tr (ext W0) + (if storage_is_fee_exempt (st W0) a then 0
            else c * int (get_protocol_fee (st W0)) div 10000)"
    "balance_of base (s_token x) W' = balance_of base (s_token x) W0 - c"
    using out(6-8) ext by (simp_all add: W' balance_of_def)
  show ?thesis
    by (rule exI [of _ c], rule exI, intro conjI impI)
      (rule x' c_def refl out(2,3) bal tab [unfolded rec] zero | assumption)+
qed

text \<open>The example stream handed over, whatever settling leaves of it.\<close>

lemma demo_hand_over:
  fixes W0 :: "ledger world"
  assumes x: "p_streams (st W0) = [72620543991349248 \<mapsto> demo_stream]"
    and p: "i_paused (st W0) = None"
    and i: "\<forall>a. a \<noteq> Addr 2 \<longrightarrow> get_recipient_stream_count (st W0) a = 0"
    and W1: "settle_before_transfer (at demo_base now (\<lambda>a. a = Addr 2)) 72620543991349248 (Addr 2)
      demo_stream now W0 = Inr (y, W1)" "st W1 = st W0"
    and y: "s_id y = 72620543991349248" "s_recipient y = Addr 2"
  obtains W where "transfer_recipient (at demo_base now (\<lambda>a. a = Addr 2)) 72620543991349248
      (Addr 2) (Addr 5) W0 = Inr ((), W)"
    and "p_streams (st W) = [72620543991349248 \<mapsto> y\<lparr>s_recipient := Addr 5\<rparr>]"
proof -
  let ?y = "y\<lparr>s_recipient := Addr 5\<rparr>"
  let ?s = "unindex_by_recipient (Addr 2) 72620543991349248 (save_stream ?y (st W0))"
  have "get_recipient_stream_count (unindex_by_recipient (Addr 2) k s) (Addr 5)
      = get_recipient_stream_count s (Addr 5)" for k s
    by (auto simp: unindex_by_recipient_def get_recipient_stream_count_def Let_def
        split: option.splits)
  then have "get_recipient_stream_count ?s (Addr 5) = 0"
    using i by (simp add: get_recipient_stream_count_def save_stream_def)
  then obtain s where s: "index_by_recipient (Addr 5) 72620543991349248 ?s
      = (Inr s :: (stream_error, _) outcome)"
    by (simp add: index_by_recipient_Inr u32_max_def)
  have "s_recipient demo_stream = Addr 2" "live demo_stream" "s_status demo_stream = Active"
    by (simp_all add: demo_stream_def live_def)
  with s W1 y p x index_by_recipient_frame(1) [OF s] have "\<exists>W. transfer_recipient (at demo_base now
      (\<lambda>a. a = Addr 2)) 72620543991349248 (Addr 2) (Addr 5) W0 = Inr ((), W) \<and>
    p_streams (st W) = [72620543991349248 \<mapsto> ?y]"
    by (simp add: transfer_recipient_def when_not_paused_def is_paused_def Let_def
        is_paused_or_auto_unpause_def require_auth_def find_stream_def load_stream_def
        stream_now_def)
  then show thesis using that by blast
qed

theorem transfer_recipient_settles_witness:
  "\<exists>W0 W'. transfer_recipient (at demo_base 1100 (\<lambda>a. a = Addr 2)) 72620543991349248 (Addr 2)
       (Addr 5) W0 = Inr ((), W') \<and>
     token_balance demo_base (Addr 9) (Addr 2) (ext W')
       = token_balance demo_base (Addr 9) (Addr 2) (ext W0) + 1950 \<and>
     token_balance demo_base (Addr 9) (Addr 7) (ext W')
       = token_balance demo_base (Addr 9) (Addr 7) (ext W0) + 50 \<and>
     p_streams (st W') 72620543991349248 = Some (demo_stream\<lparr>s_recipient := Addr 5,
       s_total_withdrawn := 2000, s_last_withdraw_time := 1100\<rparr>)"
proof -
  let ?e = "at demo_base 1100 (\<lambda>a. a = Addr 2)"
  obtain W0 where run: "runs (step demo_base) (0, genesis demo_ledger) (200, W0)"
    and x: "p_streams (st W0) = [72620543991349248 \<mapsto> demo_stream]"
    and e: "ext W0 = (\<lambda>t a. if t = Addr 9 \<and> a = Addr 0 then 7200
                    else if t = Addr 9 \<and> a = Addr 1 then 1800
                    else if a = Addr 1 then 9000 else 0)"
    and t: "get_treasury (st W0) = Some (Addr 7)" "get_protocol_fee (st W0) = 250"
    and p: "i_paused (st W0) = None" "p_fe (st W0) = Map.empty"
    and i: "\<forall>a. a \<noteq> Addr 2 \<longrightarrow> get_recipient_stream_count (st W0) a = 0"
    by (rule demo_run_fee)
  have x': "p_streams (st W0) 72620543991349248 = Some demo_stream" by (simp add: x)
  obtain W1 where "settle_before_transfer ?e 72620543991349248 (Addr 2) demo_stream 1100 W0
      = Inr (demo_stream\<lparr>s_total_withdrawn := 2000, s_last_withdraw_time := 1100\<rparr>, W1)"
    and "st W1 = st W0"
    using t p by (simp add: settle_before_transfer_def eval_simps e demo_stream_def demo_base_def
        compute_claimable_eq compute_earned_eq pay_claim_def fee_on_claim_def)
  then obtain W' where op: "transfer_recipient ?e 72620543991349248 (Addr 2) (Addr 5) W0
      = Inr ((), W')"
    by (rule demo_hand_over [OF x p(1) i]) (simp_all add: demo_stream_def)
  have par: "distinct [Addr 2, Addr 7, current_contract demo_base]" by (simp add: demo_base_def)
  from transfer_recipient_settles [OF run demo_base_honest demo_ledger_nonneg x' op t(1) par] op
  show ?thesis
    using t(2) p(2) by (intro exI [of _ W0] exI [of _ W'])
      (auto simp: demo_stream_def stream_now_def storage_is_fee_exempt_def)
qed

section \<open>Archiving\<close>

text \<open>The example stream at its end, after a change of the recipient settled it completely.\<close>

definition demo_transferred :: stream where
  "demo_transferred = demo_stream\<lparr>s_total_withdrawn := 7200, s_last_withdraw_time := 3700,
     s_recipient := Addr 5\<rparr>"

lemma demo_run_transferred:
  obtains W where "runs (step demo_base) (0, genesis demo_ledger) (3700, W)"
    and "p_streams (st W) = [72620543991349248 \<mapsto> demo_transferred]"
proof -
  obtain W0 where run: "runs (step demo_base) (0, genesis demo_ledger) (100, W0)"
    and x: "p_streams (st W0) = [72620543991349248 \<mapsto> demo_stream]"
    and e: "ext W0 = (\<lambda>t a. if t = Addr 9 \<and> a = Addr 0 then 7200
                    else if t = Addr 9 \<and> a = Addr 1 then 1800
                    else if a = Addr 1 then 9000 else 0)"
    and p: "i_paused (st W0) = None" "i_fee_bps (st W0) = None"
    and i: "\<forall>a. a \<noteq> Addr 2 \<longrightarrow> get_recipient_stream_count (st W0) a = 0"
    by (rule demo_run)
  obtain W1 where W1: "settle_before_transfer (at demo_base 3700 (\<lambda>a. a = Addr 2))
      72620543991349248 (Addr 2) demo_stream 3700 W0
      = Inr (demo_stream\<lparr>s_total_withdrawn := 7200, s_last_withdraw_time := 3700\<rparr>, W1)"
    "st W1 = st W0"
    using p by (simp add: settle_before_transfer_def eval_simps e demo_stream_def demo_base_def
        compute_claimable_eq compute_earned_eq pay_claim_def fee_on_claim_def)
  obtain W where op: "transfer_recipient (at demo_base 3700 (\<lambda>a. a = Addr 2))
      72620543991349248 (Addr 2) (Addr 5) W0 = Inr ((), W)"
    and y: "p_streams (st W) = [72620543991349248 \<mapsto> demo_transferred]"
    by (rule demo_hand_over [OF x p(1) i W1]) (simp_all add: demo_stream_def demo_transferred_def)
  have run': "runs (step demo_base) (0, genesis demo_ledger) (3700, W)"
    by (rule demo_step [OF run, where
          c = "On_stream (Transfer_recipient 72620543991349248 (Addr 2) (Addr 5))" and r = RUnit and auth = "\<lambda>a. a = Addr 2"])
      (simp_all add: op reply_with_def call_ok_def u64_max_def)
  from run' y show thesis by (rule that)
qed

text \<open>
  C19: only a fully streamed stream can be archived while it is live: everything its rate ever
  streams has been withdrawn, so what is left of its deposit is exactly the creation-time dust.
  Archiving deletes it with its delegate and moves no token, so the dust stays in the contract
  and is owed to no stream. (The comments ask for a withdrawn total equal to the deposit, which
  the code does not: a stream with dust is archived with the dust undistributed.)
\<close>

theorem archive_only_settled:
  assumes run: "runs (step base) (0, genesis w) (T, W)"
    and tok: "honest_token base (s_token x)"
      "0 \<le> token_balance base (s_token x) (current_contract base) w"
    and x: "p_streams (st W) k = Some x" "live x"
    and op: "archive_stream (at base now auth) k caller W = Inr ((), W')"
  shows "(caller = s_sender x \<or> caller = s_recipient x) \<and> auth caller \<and>
     s_total_withdrawn x = s_flow_rate x * int (s_end_time x - s_start_time x) \<and>
     owed (s_token x) x = s_deposit x - s_flow_rate x * int (s_end_time x - s_start_time x) \<and>
     p_streams (st W') = (p_streams (st W))(k := None) \<and> get_delegate (st W') k = None \<and>
     ext W' = ext W"
proof -
  let ?d = "s_end_time x - s_start_time x"
  have ok: "stream_ok T x" using books_stream [OF reachable_books [OF run tok] x(1)] by simp
  then have f: "funded T x" "typed x" using x(2) by (simp_all add: stream_ok_def)
  note dust = dust_le_owed(1,2) [OF ok x(2)]
  let ?W1 = "in_store (close_stream k x) W"
  from op x(1) have who: "auth caller" "\<not> (s_sender x \<noteq> caller \<and> s_recipient x \<noteq> caller)"
    and settled: "\<not> saturating_add_i128 (s_total_withdrawn x) (dust_of x ?d) < s_deposit x"
    and W': "W' = publish (ev_stream_archived k (s_sender x) (s_recipient x) (s_deposit x))
        (if get_delegate (st ?W1) k \<noteq> None then in_store (remove_delegate k) ?W1 else ?W1)"
    by (simp_all add: archive_stream_def find_stream_def load_stream_def Let_def if_Inl_eq_Inr
        bindE_eq_Inr require_auth_Inr)
  have gone: "p_streams (st W') = (p_streams (st W))(k := None)" "get_delegate (st W') k = None"
    "ext W' = ext W"
    using W' by (auto simp: remove_delegate_def get_delegate_def)
  have tw: "s_total_withdrawn x \<le> s_flow_rate x * int (s_last_withdraw_time x - s_start_time x)"
    "0 \<le> s_total_withdrawn x"
    using f(1) unfolding funded_def by blast+
  have "s_flow_rate x * int (s_last_withdraw_time x - s_start_time x) \<le> s_flow_rate x * int ?d"
    using f(1) by (intro flow_mono) (auto simp: funded_def)
  with tw have le: "s_total_withdrawn x \<le> s_flow_rate x * int ?d" by linarith
  have "0 \<le> s_total_withdrawn x + dust_of x ?d" "s_total_withdrawn x + dust_of x ?d \<le> s_deposit x"
    using dust tw(2) le by linarith+
  moreover have "in_i128 (s_deposit x)" using f(2) unfolding typed_def by blast
  ultimately have "in_i128 (s_total_withdrawn x + dust_of x ?d)" by (rule in_i128_below)
  then have "saturating_add_i128 (s_total_withdrawn x) (dust_of x ?d)
      = s_total_withdrawn x + dust_of x ?d" by (simp only: saturating_add_i128_def clamp_i128_id)
  with settled have "s_deposit x \<le> s_total_withdrawn x + dust_of x ?d" by linarith
  with le dust(1) have eq: "s_total_withdrawn x = s_flow_rate x * int ?d" by linarith
  have left: "owed (s_token x) x = s_deposit x - s_flow_rate x * int ?d"
    using eq x(2) by (simp add: owed_def)
  have by_party: "caller = s_sender x \<or> caller = s_recipient x" using who(2) by blast
  show ?thesis by (intro conjI) (rule by_party who(1) eq left gone)+
qed

theorem archive_only_settled_witness:
  "\<exists>W x W'. p_streams (st W) 72620543991349248 = Some x \<and> live x \<and>
     archive_stream (at demo_base 4000 (\<lambda>a. a = Addr 1)) 72620543991349248 (Addr 1) W
       = Inr ((), W') \<and>
     s_total_withdrawn x = 7200 \<and> p_streams (st W') 72620543991349248 = None"
proof -
  obtain W where run: "runs (step demo_base) (0, genesis demo_ledger) (3700, W)"
    and y: "p_streams (st W) = [72620543991349248 \<mapsto> demo_transferred]"
    by (rule demo_run_transferred)
  have y': "p_streams (st W) 72620543991349248 = Some demo_transferred"
    and live: "live demo_transferred"
    by (simp_all add: y demo_transferred_def demo_stream_def live_def)
  obtain W' where op': "archive_stream (at demo_base 4000 (\<lambda>a. a = Addr 1)) 72620543991349248
      (Addr 1) W = Inr ((), W')"
    by (simp add: archive_stream_def require_auth_def find_stream_def load_stream_def y' Let_def
        dust_of_def demo_transferred_def demo_stream_def saturating_sub_i128_def saturating_add_i128_def
        saturating_mul_i128_def clamp_i128_def i128_max_def i128_min_def)
  have "s_total_withdrawn demo_transferred = 7200" by (simp add: demo_transferred_def)
  with archive_only_settled [OF run demo_base_honest demo_ledger_nonneg y' live op'] op' y' live
  show ?thesis by (intro exI [of _ W] exI [of _ demo_transferred] exI [of _ W']) simp
qed

end
