(* ===== verification/Registry.thy ===== *)
theory Registry
  imports Lifecycle
begin

text \<open>
  How an invocation may change the stream table, its indexes and the administrative settings.
  Every entry point is shown to refine a small machine of changes (save a stream, open one,
  close one, give one to a new recipient, change settings, change neither), each with the
  authorisation it needs; index consistency, the protection of streams against strangers and of
  the settings against everybody but the admin are invariants of that machine, proved once by
  rule induction.
\<close>

section \<open>The changes\<close>

text \<open>The part of the storage that holds streams and indexes.\<close>

definition tables where
  "tables s = ((p_streams s, i_str_cnt s, p_gi s), p_sc s, p_s s, p_rc s, p_r s)"

text \<open>
  The settings only the admin may change: roles, version and migrations, limits, cooldown,
  whitelist, fee exemptions, creation fee, and the audit log.
\<close>

definition settings where
  "settings s = ((i_admin s, i_guardian s, i_governance s, i_version s, i_migrations s),
     (i_max_str s, p_sl s, i_wd_cd s, i_wl_en s, p_wl s, p_fe s, i_cf_xlm s, i_xlm_tok s),
     i_al_head s, i_al_len s, i_al s)"

text \<open>Nonces only move forward: used ones stay used, the batch counters do not decrease.\<close>

definition nonces_le :: "storage \<Rightarrow> storage \<Rightarrow> bool" where
  "nonces_le s s' \<longleftrightarrow> (\<forall>a n. nonce_used s a n \<longrightarrow> nonce_used s' a n) \<and>
     (\<forall>a. get_batch_nonce s a \<le> get_batch_nonce s' a)"

definition nonces where
  "nonces s = (p_n s, p_bn s)"

lemma nonces_le_eq: "nonces s' = nonces s \<Longrightarrow> nonces_le s s'"
  by (simp add: nonces_def nonces_le_def nonce_used_def get_batch_nonce_def)

text \<open>The audit log, and the changes that leave it alone or append one entry to it.\<close>

definition audit_of where
  "audit_of s = (i_al_head s, i_al_len s, i_al s)"

definition log_step :: "storage \<Rightarrow> storage \<Rightarrow> bool" where
  "log_step s s' \<longleftrightarrow> audit_of s' = audit_of s \<or>
     (\<exists>e t t'. audit_of t = audit_of s \<and>
        append_audit_entry e t = (Inr t' :: (stream_error, storage) outcome) \<and>
        audit_of s' = audit_of t')"

lemma log_step_same: "audit_of s' = audit_of s \<Longrightarrow> log_step s s'"
  by (simp add: log_step_def)

definition frame where
  "frame s = (tables s, settings s, p_del s, nonces s)"

text \<open>
  Somebody with a say in a stream signed the invocation: its sender, its recipient, or the
  delegate (\<open>D\<close> are the delegates at the start of the invocation).
\<close>

definition party :: "'w env \<Rightarrow> (nat \<Rightarrow> address option) \<Rightarrow> nat \<Rightarrow> stream \<Rightarrow> bool" where
  "party env D k x \<longleftrightarrow> authorizes env (s_sender x) \<or> authorizes env (s_recipient x) \<or>
     (\<exists>a. D k = Some a \<and> authorizes env a)"

inductive evolves ::
    "'w env \<Rightarrow> (nat \<Rightarrow> address option) \<Rightarrow> storage \<Rightarrow> storage \<Rightarrow> bool" for env D where
  keep: "frame s' = frame s \<Longrightarrow> evolves env D s s'"
| noted: "tables s' = tables s \<Longrightarrow> settings s' = settings s \<Longrightarrow> p_del s' = p_del s \<Longrightarrow>
     nonces_le s s' \<Longrightarrow> evolves env D s s'"
| ruled: "tables s' = tables s \<Longrightarrow> p_del s' = p_del s \<Longrightarrow> nonces s' = nonces s \<Longrightarrow>
     (\<forall>a. i_admin s = Some a \<longrightarrow> authorizes env a) \<Longrightarrow> log_step s s' \<Longrightarrow>
     evolves env D s s'"
| delegated: "(\<And>x. p_streams s k = Some x \<Longrightarrow> party env D k x) \<Longrightarrow>
     evolves env D s (s\<lparr>p_del := (p_del s)(k := d)\<rparr>)"
| saved: "p_streams s k = Some x \<Longrightarrow> party env D k x \<Longrightarrow> s_id y = k \<Longrightarrow>
     s_sender y = s_sender x \<Longrightarrow> s_recipient y = s_recipient x \<Longrightarrow>
     evolves env D s (save_stream y s)"
| opened: "p_streams s (s_id y) = None \<Longrightarrow>
     authorizes env (s_sender y) \<or>
       (\<exists>k x. p_streams s k = Some x \<and> party env D k x \<and> s_sender x = s_sender y) \<Longrightarrow>
     register_stream y s = Inr s' \<Longrightarrow> evolves env D s s'"
| closed: "p_streams s k = Some x \<Longrightarrow> party env D k x \<Longrightarrow> s_sender y = s_sender x \<Longrightarrow>
     s_recipient y = s_recipient x \<Longrightarrow> evolves env D s (close_stream k y s)"
| moved: "p_streams s k = Some x \<Longrightarrow> authorizes env (s_recipient x) \<Longrightarrow> s_id y = k \<Longrightarrow>
     s_sender y = s_sender x \<Longrightarrow> s_recipient y = b \<Longrightarrow>
     index_by_recipient b k (unindex_by_recipient (s_recipient x) k (save_stream y s))
       = (Inr s' :: (stream_error, storage) outcome) \<Longrightarrow> evolves env D s s'"
| andthen: "evolves env D s t \<Longrightarrow> evolves env D t u \<Longrightarrow> evolves env D s u"

lemma evolves_refl: "evolves env D s s"
  by (rule keep) simp

text \<open>The table after one change, for what is not under the changed key.\<close>

definition filed :: "storage \<Rightarrow> bool" where
  "filed s \<longleftrightarrow> (\<forall>k x. p_streams s k = Some x \<longrightarrow> s_id x = k)"

lemma filedD: "filed s \<Longrightarrow> p_streams s k = Some x \<Longrightarrow> s_id x = k"
  by (simp add: filed_def)

lemma filed_update: "filed s \<Longrightarrow> p_streams s' = (p_streams s)(s_id y \<mapsto> y) \<Longrightarrow> filed s'"
  by (simp add: filed_def)

lemma filed_tables: "tables s' = tables s \<Longrightarrow> filed s' = filed s"
  by (simp add: filed_def tables_def)

lemma evolves_filed: "evolves env D s s' \<Longrightarrow> filed s \<Longrightarrow> filed s'"
proof (induction rule: evolves.induct)
  case (keep s' s)
  then show ?case using filed_tables [of s' s] by (simp add: frame_def)
next
  case (ruled s' s)
  then show ?case using filed_tables [OF ruled(1)] by blast
next
  case (noted s' s)
  then show ?case using filed_tables [OF noted(1)] by blast
next
  case (delegated s k d)
  then show ?case by (simp add: filed_def)
next
  case (saved s k x y)
  then show ?case by - (rule filed_update [of s _ y], simp_all)
next
  case (opened s y s')
  then show ?case by (metis filed_update register_stream_streams)
next
  case (closed s k x y)
  then show ?case by (simp add: filed_def)
next
  case (moved s k x y b s')
  then show ?case
    by - (rule filed_update [of s _ y], simp_all add: index_by_recipient_frame(1) [OF moved(6)])
next
  case (andthen s t u)
  then show ?case by blast
qed

section \<open>Every instruction refines the changes\<close>

lemma mark_nonce_evolves: "evolves env D s (mark_nonce_used a n s)"
  by (rule noted) (auto simp: tables_def settings_def mark_nonce_used_def nonces_le_def
      nonce_used_def get_batch_nonce_def)

lemma when_not_paused_kept:
  assumes "when_not_paused env W0 = Inr W"
  shows "frame (st W) = frame (st W0)"
  using when_not_paused_frame(3) [OF assms] by (elim disjE) (simp_all add: frame_def tables_def settings_def nonces_def)

lemma frame_streams: "frame s' = frame s \<Longrightarrow> p_streams s' = p_streams s"
  by (simp add: frame_def tables_def)

lemma filed_frame: "frame s' = frame s \<Longrightarrow> filed s' = filed s"
  by (simp add: frame_def tables_def filed_def)

text \<open>A change after steps that leave the frame and delegates alone.\<close>

lemma evolves_after:
  assumes "frame s = frame s0" "evolves env D s s'"
  shows "evolves env D s0 s'"
  by (rule andthen [OF keep assms(2)]) (rule assms(1))

lemma when_not_paused_delegates:
  assumes "when_not_paused env W0 = Inr W"
  shows "get_delegate (st W) = get_delegate (st W0)"
  using when_not_paused_frame(3) [OF assms] by (elim disjE) (simp_all add: get_delegate_def fun_eq_iff)

lemma party_signed:
  "authorizes env (s_sender x) \<Longrightarrow> party env D k x"
  "authorizes env (s_recipient x) \<Longrightarrow> party env D k x"
  by (simp_all add: party_def)

lemma party_manager:
  "authorizes env a \<Longrightarrow> may_manage W k x a \<Longrightarrow> party env (get_delegate (st W)) k x"
  by (auto simp: party_def may_manage_def)

lemma party_cong:
  "s_sender y = s_sender x \<Longrightarrow> s_recipient y = s_recipient x \<Longrightarrow> party env D k y = party env D k x"
  by (simp add: party_def)

lemma create_stream_evolves:
  assumes "create_stream env sender recipient token amount d cliff nonce ar lock art md W0
      = Inr (k, W')"
  shows "evolves env D (st W0) (st W')"
proof -
  obtain W f Wc Wt s where "authorizes env sender" and W: "when_not_paused env W0 = Inr W"
    and fresh: "p_streams (st W) k = None"
    and Wc: "collect_creation_fee env sender (in_store (mark_nonce_used sender nonce) W) = Inr Wc"
    and Wt: "transfer env token sender (current_contract env) amount Wc
        = (Inr Wt :: (stream_error, _) outcome)"
    and s: "register_stream \<lparr>s_id = k, s_sender = sender, s_recipient = recipient,
       s_token = token, s_deposit = amount, s_flow_rate = f,
       s_start_time = ledger_timestamp env, s_cliff_time = ledger_timestamp env + cliff,
       s_lock_until = lock, s_end_time = ledger_timestamp env + d,
       s_last_withdraw_time = ledger_timestamp env, s_status = Active, s_auto_renew = ar,
       s_allow_recipient_termination = art, s_last_pause_time = 0,
       s_total_withdrawn = 0, s_metadata = md\<rparr> (st Wt) = Inr s"
    and W': "st W' = s"
    by (rule create_stream_inv [OF assms]) blast
  have st: "st Wt = mark_nonce_used sender nonce (st W)"
    using transfer_st [OF Wt] collect_creation_fee_st [OF Wc] by simp
  have t: "frame (st W) = frame (st W0)" by (rule when_not_paused_kept [OF W])
  have "evolves env D (st W) (st Wt)" unfolding st by (rule mark_nonce_evolves)
  note start = evolves_after [OF t this]
  have "p_streams (st Wt) k = None" using fresh st by (simp add: mark_nonce_used_def)
  then show ?thesis
    unfolding W' using \<open>authorizes env sender\<close>
    by (intro andthen [OF start] opened [OF _ _ s]) simp_all
qed

lemma cancel_stream_evolves:
  assumes "cancel_stream env k a W = Inr (u, W')"
  shows "evolves env (get_delegate (st W)) (st W) (st W')"
proof -
  from assms obtain x c W1 W2 where auth: "authorizes env a" and x: "p_streams (st W) k = Some x"
    and manage: "may_manage W k x a"
    and pay: "pay_if_positive env (s_token x) (s_recipient x) c W = Inr W1"
      "pay_if_positive env (s_token x) (s_sender x) (refund_of x c) W1 = Inr W2"
    and W': "st W' = close_stream k x (st W2)"
    by (auto simp: cancel_stream_def Let_def bindE_eq_Inr ok_or_eq_Inr find_stream_Inr
        if_Inl_eq_Inr require_auth_Inr)
  have "st W2 = st W" using pay by (simp add: pay_if_positive_st)
  then show ?thesis
    unfolding W' using closed [OF x party_manager [OF auth manage] refl refl] by simp
qed

lemma recipient_terminate_evolves:
  assumes "recipient_terminate env k a W0 = Inr (u, W')"
  shows "evolves env D (st W0) (st W')"
proof -
  from assms obtain W x c W1 W2 where W: "when_not_paused env W0 = Inr W"
    and auth: "authorizes env (s_recipient x)" and x: "p_streams (st W) k = Some x"
    and pay: "pay_if_positive env (s_token x) a c W = Inr W1"
      "pay_if_positive env (s_token x) (s_sender x) (refund_of x c) W1 = Inr W2"
    and W': "st W' = close_stream k x (st W2)"
    by (auto simp: recipient_terminate_def Let_def bindE_eq_Inr ok_or_eq_Inr find_stream_Inr
        if_Inl_eq_Inr require_auth_Inr)
  have "st W2 = st W" using pay by (simp add: pay_if_positive_st)
  then show ?thesis
    unfolding W' using closed [OF x party_signed(2) [OF auth] refl refl]
    by (intro evolves_after [OF when_not_paused_kept [OF W]]) simp
qed

lemma archive_inv:
  assumes "archive_stream env k a W = Inr (u, W')" "p_streams (st W) k = Some x"
  obtains W1 where "authorizes env a" "a = s_sender x \<or> a = s_recipient x"
    "W1 = in_store (close_stream k x) W"
    "W' = publish (ev_stream_archived k (s_sender x) (s_recipient x) (s_deposit x))
        (if get_delegate (st W1) k \<noteq> None then in_store (remove_delegate k) W1 else W1)"
  using assms
  by (auto simp: archive_stream_def find_stream_def load_stream_def Let_def if_Inl_eq_Inr
      bindE_eq_Inr require_auth_Inr)

lemma archive_stream_evolves:
  assumes "archive_stream env k a W = Inr (u, W')"
  shows "evolves env D (st W) (st W')"
proof -
  from assms obtain x where x: "p_streams (st W) k = Some x"
    by (auto simp: archive_stream_def bindE_eq_Inr find_stream_Inr)
  obtain W1 where auth: "authorizes env a" "a = s_sender x \<or> a = s_recipient x"
    and W1: "W1 = in_store (close_stream k x) W"
    and W': "W' = publish (ev_stream_archived k (s_sender x) (s_recipient x) (s_deposit x))
        (if get_delegate (st W1) k \<noteq> None then in_store (remove_delegate k) W1 else W1)"
    by (rule archive_inv [OF assms x])
  have "party env D k x" using auth by (auto simp: party_def)
  from closed [OF x this refl refl] have *: "evolves env D (st W) (st W1)" by (simp add: W1)
  have "p_streams (st W1) k = None" by (simp add: W1)
  then have "evolves env D (st W1) (remove_delegate k (st W1))"
    unfolding remove_delegate_def by (intro delegated) simp
  with * show ?thesis by (auto simp: W' intro: andthen)
qed

text \<open>Saving a changed copy of a stream under the same parties.\<close>

lemma saved_evolves:
  assumes "filed (st W0)" "when_not_paused env W0 = Inr W \<or> W = W0"
    and "p_streams (st W) k = Some x" "party env D k x" "s_id y = s_id x"
    and "s_sender y = s_sender x" "s_recipient y = s_recipient x"
  shows "evolves env D (st W0) (save_stream y (st W))"
proof -
  have t: "frame (st W) = frame (st W0)" using assms(2) when_not_paused_kept by blast
  then have "s_id x = k" using assms(1,3) filedD frame_streams [OF t] by metis
  then show ?thesis
    using assms(3-7) by (intro evolves_after [OF t]) (auto intro!: saved)
qed

lemma pause_stream_evolves:
  assumes "pause_stream env k a W0 = Inr (u, W')" "filed (st W0)"
  shows "evolves env D (st W0) (st W')"
  using assms(1)
  by (auto simp: pause_stream_def Let_def bindE_eq_Inr find_stream_Inr if_Inl_eq_Inr
      require_auth_Inr intro!: saved_evolves [OF assms(2) disjI1] party_signed(1))

lemma resume_stream_evolves:
  assumes "resume_stream env k a W0 = Inr (u, W')" "filed (st W0)"
  shows "evolves env D (st W0) (st W')"
  using assms(1)
  by (auto simp: resume_stream_def Let_def bindE_eq_Inr find_stream_Inr if_Inl_eq_Inr
      require_auth_Inr intro!: saved_evolves [OF assms(2) disjI1] party_signed(1))

lemma update_metadata_evolves:
  assumes "update_metadata env a k m W = Inr (u, W')" "filed (st W)"
  shows "evolves env D (st W) (st W')"
  using assms(1)
  by (auto simp: update_metadata_def Let_def bindE_eq_Inr find_stream_Inr if_Inl_eq_Inr
      require_auth_Inr intro!: saved_evolves [OF assms(2) disjI2] party_signed(1))

lemma cancel_auto_renew_evolves:
  assumes "cancel_auto_renew env a k W = Inr (u, W')" "filed (st W)"
  shows "evolves env D (st W) (st W')"
  using assms(1)
  by (auto simp: cancel_auto_renew_def Let_def bindE_eq_Inr find_stream_Inr if_Inl_eq_Inr
      require_auth_Inr intro!: saved_evolves [OF assms(2) disjI2] party_signed(1))

lemma top_up_evolves:
  assumes "top_up env k caller token amount W0 = Inr (u, W')" "filed (st W0)"
  shows "evolves env (get_delegate (st W0)) (st W0) (st W')"
proof -
  from assms(1) obtain W x r m W1 where W: "when_not_paused env W0 = Inr W"
    and auth: "authorizes env caller" and x: "p_streams (st W) k = Some x"
    and manage: "may_manage W k x caller"
    and pay: "transfer env (s_token x) caller (current_contract env) (amount - r) W
        = (Inr W1 :: (stream_error, _) outcome)"
    and W': "st W' = save_stream (x\<lparr>s_end_time := s_end_time x + nat m,
          s_deposit := s_deposit x + (amount - r)\<rparr>) (st W1)" (is "_ = save_stream ?y _")
    by (auto simp: top_up_def Let_def bindE_eq_Inr find_stream_Inr if_Inl_eq_Inr ok_or_eq_Inr
        require_auth_Inr plain_eq_Inr checked_add_u64_Some checked_add_Some u64_try_from_Some
        not_le not_less)
  have "party env (get_delegate (st W0)) k x"
    using party_manager [OF auth manage] when_not_paused_delegates [OF W] by simp
  from saved_evolves [OF assms(2) disjI1 [OF W] x this, of ?y] show ?thesis
    using transfer_st [OF pay] by (simp add: W')
qed

lemma pay_claim_st: "pay_claim env k x r c W = Inr (a, W') \<Longrightarrow> st W' = st W"
  by (auto simp: pay_claim_def bindE_eq_Inr dest!: pay_if_positive_st transfer_st
      split: if_splits option.splits)

lemma transfer_recipient_evolves:
  assumes "transfer_recipient env k a b W0 = Inr (u, W')" "filed (st W0)"
  shows "evolves env D (st W0) (st W')"
proof -
  from assms(1) obtain W x y W1 s where W: "when_not_paused env W0 = Inr W"
    and auth: "authorizes env (s_recipient x)" and x: "p_streams (st W) k = Some x"
    and claim: "settle_before_transfer env k a x (stream_now env x) W = Inr (y, W1)"
    and s: "index_by_recipient b k (unindex_by_recipient (s_recipient y) k
        (save_stream (y\<lparr>s_recipient := b\<rparr>) (st W1))) = (Inr s :: (stream_error, _) outcome)"
    and W': "st W' = s"
    by (auto simp: transfer_recipient_def Let_def bindE_eq_Inr find_stream_Inr if_Inl_eq_Inr
        require_auth_Inr)
  have t: "frame (st W) = frame (st W0)" by (rule when_not_paused_kept [OF W])
  have id: "s_id x = k" using assms(2) x filedD frame_streams [OF t] by metis
  have y: "s_id y = s_id x \<and> s_sender y = s_sender x \<and> s_recipient y = s_recipient x
      \<and> st W1 = st W"
    using claim by (cases rule: settle_before_transfer_cases) (simp_all add: pay_claim_st)
  then show ?thesis
    unfolding W' using x auth s id by (intro evolves_after [OF t] moved) simp_all
qed

lemma partial_cancel_stream_evolves:
  assumes op: "partial_cancel_stream env k caller a W = Inr (k', W')" "filed (st W)"
    and fresh: "p_streams (st W) k' = None"
  shows "evolves env (get_delegate (st W)) (st W) (st W')"
proof -
  from op(1) obtain x0 where auth: "authorizes env caller" "p_streams (st W) k = Some x0"
    "may_manage W k x0 caller"
    by (auto simp: partial_cancel_stream_def bindE_eq_Inr find_stream_Inr if_Inl_eq_Inr
        require_auth_Inr)
  from op(1) obtain x n d m W1 W2 s where x: "p_streams (st W) k = Some x"
    and pay: "pay_if_positive env (s_token x) (s_recipient x)
        (s_flow_rate x * int (n - s_last_withdraw_time x)) W = Inr W1"
      "transfer env (s_token x) (current_contract env) (s_sender x) a W1
        = (Inr W2 :: (stream_error, _) outcome)"
    and s: "register_stream (continued x k' n d m)
        (save_stream (x\<lparr>s_status := Cancelled\<rparr>) (st W2)) = Inr s"
    and W': "st W' = s"
    by (elim partial_cancel_inv) blast
  let ?D = "get_delegate (st W)" and ?y = "x\<lparr>s_status := Cancelled\<rparr>"
  have st: "st W2 = st W" using pay_if_positive_st [OF pay(1)] transfer_st [OF pay(2)] by simp
  have party: "party env ?D k x" using party_manager [OF auth(1,3)] auth(2) x by simp
  have id: "s_id x = k" using op(2) x by (rule filedD)
  have "evolves env ?D (st W) (save_stream ?y (st W))"
    by (rule saved [OF x party]) (simp_all add: id)
  moreover have "evolves env ?D (save_stream ?y (st W)) s"
  proof (rule opened [OF _ _ s [unfolded st]])
    show "p_streams (save_stream ?y (st W)) (s_id (continued x k' n d m)) = None"
      using fresh x id by auto
    have "p_streams (save_stream ?y (st W)) k = Some ?y" by (simp add: id)
    moreover have "party env ?D k ?y" using party by (simp add: party_def)
    ultimately show "authorizes env (s_sender (continued x k' n d m)) \<or>
        (\<exists>k z. p_streams (save_stream ?y (st W)) k = Some z \<and> party env ?D k z \<and>
          s_sender z = s_sender (continued x k' n d m))"
      by (intro disjI2 exI [of _ k] exI [of _ ?y]) (simp add: continued_def)
  qed
  ultimately show ?thesis unfolding W' by (rule andthen)
qed

end
