(* ===== verification/Registry_Runs.thy ===== *)
theory Registry_Runs
  imports Registry
begin

text \<open>
  Withdrawals, the batch instructions and the administrative instructions refine the changes of
  \<open>Registry\<close>, so every invocation does; and runs whose invocations meet a side condition.
\<close>

section \<open>Withdrawals\<close>

lemma close_stream_cong:
  "s_sender y = s_sender x \<Longrightarrow> s_recipient y = s_recipient x \<Longrightarrow>
     close_stream k y s = close_stream k x s"
  by (simp add: close_stream_def)

lemma renew_stream_st:
  assumes "renew_stream env y d W = Inr W'"
  obtains z where "st W' = save_stream z (st W)" "s_id z = s_id y" "s_sender z = s_sender y"
    "s_recipient z = s_recipient y"
  using assms by (fastforce simp: renew_stream_def bindE_eq_Inr Let_def ok_or_eq_Inr
      dest: transfer_st)

text \<open>
  The end of a withdrawal saves the stream (renewed or completed) or closes it.
\<close>

lemma finish_evolves:
  assumes fin: "withdraw_finish env k y W = Inr W' \<or> batch_withdraw_finish env k y W = Inr W'"
    and x: "p_streams (st W) k = Some x" "party env D k x"
    and y: "s_id y = k" "s_sender y = s_sender x" "s_recipient y = s_recipient x"
  shows "evolves env D (st W) (st W')"
proof -
  have save: "evolves env D (st W) (st W')"
    if "renew_stream env y (s_end_time y - s_start_time y) W = Inr W'"
    using that by (rule renew_stream_st) (use x y saved in simp)
  have close: "evolves env D (st W) (st W')"
    if "pay_if_positive env (s_token y) (s_sender y) d W = Inr W1"
      "W' = in_store (close_stream k y) (publish (ev_stream_completed k) W1)" for d W1
    using that x y closed [OF x, of y] by (simp add: pay_if_positive_st)
  from fin show ?thesis
  proof
    assume "withdraw_finish env k y W = Inr W'"
    then show ?thesis
    proof (cases rule: withdraw_finish_cases)
      case (failed W1)
      then have "st W' = save_stream (y\<lparr>s_status := Completed\<rparr>) (st W)"
        by (simp add: pay_if_positive_st)
      then show ?thesis using saved [OF x] y by simp
    next
      case renewed
      then show ?thesis by (rule save)
    next
      case (closed W1)
      then show ?thesis by (rule close)
    qed
  next
    assume "batch_withdraw_finish env k y W = Inr W'"
    then show ?thesis
      using save close
      by (cases "s_auto_renew y")
        (auto simp: batch_withdraw_finish_def Let_def bindE_eq_Inr plain_eq_Inr)
  qed
qed

text \<open>What both kinds of withdrawal end in, on the stream with its claim recorded.\<close>

lemma claim_evolves:
  assumes x: "p_streams (st W) k = Some x" "party env D k x" "s_id x = k"
    and y: "s_id y = s_id x" "s_sender y = s_sender x" "s_recipient y = s_recipient x"
    and st: "st W1 = st W"
    and fin: "(if c then withdraw_finish env k y W1 else Inr (in_store (save_stream y) W1))
        = Inr W2 \<or>
      (if c then batch_withdraw_finish env k y W1 else Inr (in_store (save_stream y) W1))
        = Inr W2"
  shows "evolves env D (st W) (st W2)"
proof (cases c)
  case True
  with fin have "withdraw_finish env k y W1 = Inr W2 \<or> batch_withdraw_finish env k y W1 = Inr W2"
    by simp
  from finish_evolves [OF this _ x(2)] show ?thesis using x y st by simp
next
  case False
  with fin have "st W2 = save_stream y (st W)" by (auto simp: st)
  then show ?thesis using saved [OF x(1,2), of y] x(3) y by simp
qed

lemma withdraw_evolves:
  assumes op: "withdraw env k r W0 = Inr (u, W')" and "filed (st W0)"
  shows "evolves env D (st W0) (st W')"
proof -
  have auth: "authorizes env r"
    using op by (auto simp: withdraw_def bindE_eq_Inr require_auth_Inr)
  obtain W x c y W1 W2 where W: "when_not_paused env W0 = Inr W"
    and x: "p_streams (st W) k = Some x" "s_recipient x = r"
    and pay: "(if 0 < c then withdraw_payout env k r x c W else Inr (x, W)) = Inr (y, W1)"
    and fin: "(if s_end_time y \<le> ledger_timestamp env
      then withdraw_finish env k (y\<lparr>s_last_withdraw_time
             := min (ledger_timestamp env) (s_end_time x)\<rparr>) W1
      else Inr (in_store (save_stream (y\<lparr>s_last_withdraw_time
             := min (ledger_timestamp env) (s_end_time x)\<rparr>)) W1)) = Inr W2"
    and W': "W' = publish (ev_stream_withdrawn k r c (ledger_timestamp env)) W2"
    by (rule withdraw_inv [OF op]) blast
  have t: "frame (st W) = frame (st W0)" by (rule when_not_paused_kept [OF W])
  have id: "s_id x = k" using assms(2) x(1) filedD frame_streams [OF t] by metis
  have y: "s_id y = s_id x \<and> s_sender y = s_sender x \<and> s_recipient y = s_recipient x
      \<and> st W1 = st W"
  proof (cases "0 < c")
    case True
    with pay have "withdraw_payout env k r x c W = Inr (y, W1)" by simp
    then show ?thesis by (rule withdraw_payout_inv) (use pay_claim_st in force)
  next
    case False
    with pay show ?thesis by simp
  qed
  have "evolves env D (st W) (st W2)"
    by (rule claim_evolves [OF x(1) _ id _ _ _ _ disjI1 [OF fin]])
      (use y auth x(2) in \<open>simp_all add: party_def\<close>)
  then show ?thesis by (simp add: W' evolves_after [OF t])
qed

lemma pay_claim_batch_st: "pay_claim_batch env x r c W = Inr W' \<Longrightarrow> st W' = st W"
  by (auto simp: pay_claim_batch_def bindE_eq_Inr dest!: pay_if_positive_st transfer_st
      split: if_splits option.splits)

lemma batch_withdraw_one_inv:
  assumes "batch_withdraw_one env k r W = Inr (a, W')"
  obtains x c y W1 W2 where "p_streams (st W) k = Some x" "s_recipient x = r"
    "s_status x = Active" "a = c"
    "compute_earned (s_flow_rate x) (ledger_timestamp env) (s_end_time x)
       (s_last_withdraw_time x) = Some c"
    "if 0 < c then pay_claim_batch env x r c W = Inr W1 \<and>
         y = x\<lparr>s_total_withdrawn := s_total_withdrawn x + c\<rparr> else W1 = W \<and> y = x"
    "(if s_end_time y \<le> ledger_timestamp env
      then batch_withdraw_finish env k (y\<lparr>s_last_withdraw_time
             := min (ledger_timestamp env) (s_end_time x)\<rparr>) W1
      else Inr (in_store (save_stream (y\<lparr>s_last_withdraw_time
             := min (ledger_timestamp env) (s_end_time x)\<rparr>)) W1)) = Inr W2"
    "W' = publish (ev_stream_withdrawn k r c (ledger_timestamp env)) W2"
proof -
  from assms obtain x c y W1 W2 where *: "p_streams (st W) k = Some x" "s_recipient x = r"
    "s_status x = Active" "a = c"
    "compute_earned (s_flow_rate x) (ledger_timestamp env) (s_end_time x)
       (s_last_withdraw_time x) = Some c"
    and pay: "(if 0 < c then
        bindE (ok_or Overflow (checked_add_i128 (s_total_withdrawn x) c)) (\<lambda>total.
        if s_deposit x < total then Inl (Err Overflow)
        else bindE (pay_claim_batch env x r c W) (\<lambda>W1.
          bindE (ok_or Overflow (checked_add_i128 (s_total_withdrawn x) c)) (\<lambda>total.
            Inr (x\<lparr>s_total_withdrawn := total\<rparr>, W1))))
        else Inr (x, W)) = Inr (y, W1)"
    and fin: "(if s_end_time y \<le> ledger_timestamp env
      then batch_withdraw_finish env k (y\<lparr>s_last_withdraw_time
             := min (ledger_timestamp env) (s_end_time x)\<rparr>) W1
      else Inr (in_store (save_stream (y\<lparr>s_last_withdraw_time
             := min (ledger_timestamp env) (s_end_time x)\<rparr>)) W1)) = Inr W2"
      "W' = publish (ev_stream_withdrawn k r c (ledger_timestamp env)) W2"
    by (auto simp: batch_withdraw_one_def Let_def bindE_eq_Inr ok_or_eq_Inr find_stream_Inr
        if_Inl_eq_Inr)
  have "if 0 < c then pay_claim_batch env x r c W = Inr W1 \<and>
         y = x\<lparr>s_total_withdrawn := s_total_withdrawn x + c\<rparr> else W1 = W \<and> y = x"
    using pay by (auto simp: bindE_eq_Inr ok_or_eq_Inr checked_add_Some if_Inl_eq_Inr
        split: if_splits)
  from that [OF * this fin] show thesis .
qed

lemma batch_withdraw_one_evolves:
  assumes op: "batch_withdraw_one env k r W = Inr (a, W')" and "filed (st W)" "authorizes env r"
  shows "evolves env D (st W) (st W')"
proof -
  obtain x c y W1 W2 where x: "p_streams (st W) k = Some x" "s_recipient x = r"
    and pay: "if 0 < c then pay_claim_batch env x r c W = Inr W1 \<and>
         y = x\<lparr>s_total_withdrawn := s_total_withdrawn x + c\<rparr> else W1 = W \<and> y = x"
    and fin: "(if s_end_time y \<le> ledger_timestamp env
      then batch_withdraw_finish env k (y\<lparr>s_last_withdraw_time
             := min (ledger_timestamp env) (s_end_time x)\<rparr>) W1
      else Inr (in_store (save_stream (y\<lparr>s_last_withdraw_time
             := min (ledger_timestamp env) (s_end_time x)\<rparr>)) W1)) = Inr W2"
    and W': "W' = publish (ev_stream_withdrawn k r c (ledger_timestamp env)) W2"
    by (rule batch_withdraw_one_inv [OF op]) blast
  have id: "s_id x = k" using assms(2) x(1) by (rule filedD)
  have y: "s_id y = s_id x \<and> s_sender y = s_sender x \<and> s_recipient y = s_recipient x
      \<and> st W1 = st W"
    using pay by (auto simp: pay_claim_batch_st split: if_splits)
  have "evolves env D (st W) (st W2)"
    by (rule claim_evolves [OF x(1) _ id _ _ _ _ disjI2 [OF fin]])
      (use y assms(3) x(2) in \<open>simp_all add: party_def\<close>)
  then show ?thesis by (simp add: W')
qed

lemma batch_withdraw_loop_evolves:
  assumes "batch_withdraw_loop env ks r out W = Inr (out', W')" "filed (st W)" "authorizes env r"
  shows "evolves env D (st W) (st W')"
  using assms(1,2)
proof (induction ks arbitrary: out W)
  case Nil
  then show ?case by (simp add: evolves_refl)
next
  case (Cons k ks)
  then obtain c W1 where one: "batch_withdraw_one env k r W = Inr (c, W1)"
    and rest: "batch_withdraw_loop env ks r (out @ [c]) W1 = Inr (out', W')"
    by (auto simp: bindE_eq_Inr)
  have first: "evolves env D (st W) (st W1)"
    by (rule batch_withdraw_one_evolves [OF one Cons.prems(2) assms(3)])
  from andthen [OF first Cons.IH [OF rest evolves_filed [OF first Cons.prems(2)]]] show ?case .
qed

lemma batch_withdraw_evolves:
  assumes "batch_withdraw env ks r W0 = Inr (out, W')" "filed (st W0)"
  shows "evolves env D (st W0) (st W')"
proof -
  from assms(1) obtain W where W: "when_not_paused env W0 = Inr W" and auth: "authorizes env r"
    and loop: "batch_withdraw_loop env ks r [] W = Inr (out, W')"
    by (auto simp: batch_withdraw_def bindE_eq_Inr require_auth_Inr)
  have t: "frame (st W) = frame (st W0)" by (rule when_not_paused_kept [OF W])
  from batch_withdraw_loop_evolves [OF loop _ auth] show ?thesis
    using assms(2) filed_frame [OF t] by (blast intro: evolves_after [OF t])
qed

section \<open>Batch cancellation and creation\<close>

lemma batch_cancel_one_evolves:
  assumes "batch_cancel_one env k a W = Inr (u, W')" "authorizes env a"
  shows "evolves env D (st W) (st W')"
proof -
  from assms(1) obtain x c W1 W2 where x: "p_streams (st W) k = Some x" "s_sender x = a"
    and pay: "pay_if_positive env (s_token x) (s_recipient x) c W = Inr W1"
      "pay_if_positive env (s_token x) (s_sender x) (refund_of x c) W1 = Inr W2"
    and W': "st W' = close_stream k x (st W2)"
    by (auto simp: batch_cancel_one_def Let_def bindE_eq_Inr ok_or_eq_Inr find_stream_Inr
        if_Inl_eq_Inr)
  have "st W2 = st W" using pay by (simp add: pay_if_positive_st)
  moreover have "party env D k x" using x(2) assms(2) by (simp add: party_def)
  ultimately show ?thesis unfolding W' using closed [OF x(1) _ refl refl] by simp
qed

lemma batch_cancel_loop_evolves:
  assumes "batch_cancel_loop env ks a out W = Inr (out', W')" "authorizes env a"
  shows "evolves env D (st W) (st W')"
  using assms(1)
proof (induction ks arbitrary: out W)
  case Nil
  then show ?case by (simp add: evolves_refl)
next
  case (Cons k ks)
  show ?case
  proof (cases "batch_cancel_one env k a W")
    case (Inl e)
    with Cons show ?thesis by (cases e) auto
  next
    case (Inr p)
    then obtain u W1 where one: "batch_cancel_one env k a W = Inr (u, W1)" by (cases p) auto
    with Cons have "evolves env D (st W1) (st W')" by simp
    with batch_cancel_one_evolves [OF one assms(2)] show ?thesis by (rule andthen)
  qed
qed

lemma batch_create_loop_evolves:
  assumes "batch_create_loop env sender now end_time d ar items out W = Inr (out', W')"
    and "distinct (map (fst \<circ> fst) items)"
    and "\<forall>k \<in> set (map (fst \<circ> fst) items). p_streams (st W) k = None" "authorizes env sender"
  shows "evolves env D (st W) (st W')"
  using assms
proof (induction items arbitrary: out W)
  case Nil
  then show ?case by (simp add: evolves_refl)
next
  case (Cons item rest)
  obtain k r a token lock where item: "item = ((k, r, a), token, lock)"
    by (metis surj_pair)
  let ?x = "\<lambda>f. \<lparr>s_id = k, s_sender = sender, s_recipient = r,
                   s_token = token, s_deposit = a, s_flow_rate = f,
                   s_start_time = now, s_cliff_time = now, s_lock_until = lock,
                   s_end_time = end_time, s_last_withdraw_time = now, s_status = Active,
                   s_auto_renew = ar, s_allow_recipient_termination = False,
                   s_last_pause_time = 0, s_total_withdrawn = 0, s_metadata = []\<rparr>"
  from Cons.prems(1) obtain f W1 s where
    W1: "transfer env token sender (current_contract env) a W
        = (Inr W1 :: (stream_error, _) outcome)"
    and s: "register_stream (?x f) (st W1) = Inr s"
    and rest: "batch_create_loop env sender now end_time d ar rest (out @ [k])
        (publish (ev_stream_created k sender r a f end_time) (W1\<lparr>st := s\<rparr>)) = Inr (out', W')"
    by (auto simp: item Let_def bindE_eq_Inr)
  have fresh: "p_streams (st W1) k = None"
    using Cons.prems(3) transfer_st [OF W1] by (simp add: item)
  have "evolves env D (st W1) s"
    by (rule opened [OF _ _ s]) (simp_all add: fresh Cons.prems(4))
  moreover have "\<forall>j \<in> set (map (fst \<circ> fst) rest). p_streams s j = None"
    using Cons.prems(2,3) register_stream_streams [OF s] transfer_st [OF W1] by (auto simp: item)
  then have "evolves env D s (st W')"
    using Cons.IH [OF rest] Cons.prems(2,4) by simp
  ultimately show ?case using transfer_st [OF W1] by (simp add: andthen)
qed

lemma batch_create_stream_inv:
  assumes "batch_create_stream env sender rs as ts d ar ls nonce W0 = Inr (out, W')"
  obtains W s ids where "when_not_paused env W0 = Inr W" "authorizes env sender"
    "nonce = get_batch_nonce (st W) sender"
    "increment_batch_nonce sender (st W) = (Inr s :: (stream_error, _) outcome)"
    "length rs = length as" "length rs = length ls" "length rs = length ts"
    "ledger_timestamp env + d \<le> u64_max" "0 < d"
    "get_sender_stream_count s sender + length rs \<le> effective_sender_limit s sender"
    "batch_prepass env s sender (ledger_timestamp env) d 0 (zip rs as) [] = Inr ids"
    "batch_create_loop env sender (ledger_timestamp env) (ledger_timestamp env + d) d ar
        (zip (zip ids (zip rs as)) (zip ts ls)) [] (W\<lparr>st := s\<rparr>) = Inr (out, W')"
  using assms
  unfolding batch_create_stream_def Let_def bindE_eq_Inr ok_or_eq_Inr require_auth_Inr
    checked_add_u64_Some if_Inl_eq_Inr not_le de_Morgan_disj not_not
  by (elim exE conjE) (simp add: bindE_eq_Inr plain_eq_Inr not_less)

lemma batch_ids:
  assumes "length rs = length as" "length rs = length ls" "length rs = length ts"
    "length ids = length rs"
  shows "map (fst \<circ> fst) (zip (zip ids (zip rs as)) (zip ts ls)) = ids"
  using assms by (simp add: map_map [symmetric] del: map_map)

lemma batch_create_stream_evolves:
  assumes "batch_create_stream env sender rs as ts d ar ls nonce W0 = Inr (out, W')"
  shows "evolves env D (st W0) (st W')"
proof -
  obtain W s ids where W: "when_not_paused env W0 = Inr W" and auth: "authorizes env sender"
    and s: "increment_batch_nonce sender (st W) = (Inr s :: (stream_error, _) outcome)"
    and len: "length rs = length as" "length rs = length ls" "length rs = length ts"
    and pre: "batch_prepass env s sender (ledger_timestamp env) d 0 (zip rs as) [] = Inr ids"
    and loop: "batch_create_loop env sender (ledger_timestamp env) (ledger_timestamp env + d) d ar
        (zip (zip ids (zip rs as)) (zip ts ls)) [] (W\<lparr>st := s\<rparr>) = Inr (out, W')"
    by (rule batch_create_stream_inv [OF assms]) blast
  have t: "frame (st W) = frame (st W0)" by (rule when_not_paused_kept [OF W])
  have "evolves env D (st W) s"
    by (rule noted) (use s in \<open>auto simp: increment_batch_nonce_Inr tables_def settings_def
      nonces_le_def nonce_used_def get_batch_nonce_def\<close>)
  note start = evolves_after [OF t this]
  from batch_prepass_Inr [OF pre] have ids: "length ids = length rs" "distinct ids"
    "\<forall>k \<in> set ids. p_streams s k = None"
    using len by auto
  from batch_create_loop_evolves [OF loop _ _ auth] show ?thesis
    using ids batch_ids [OF len ids(1)] by (intro andthen [OF start]) simp
qed

section \<open>Every invocation\<close>

lemmas frame_eval = frame_def tables_def settings_def nonces_def Let_def handler

text \<open>What everybody may do, and what takes the admin.\<close>

lemma kept_frame:
  "set_min_duration env a n W = Inr (u, W') \<Longrightarrow> frame (st W') = frame (st W)"
  "set_treasury_address env a W = Inr (u, W') \<Longrightarrow> frame (st W') = frame (st W)"
  "set_protocol_fee env n W = Inr (u, W') \<Longrightarrow> frame (st W') = frame (st W)"
  "propose_fee_change env a n W = Inr (u, W') \<Longrightarrow> frame (st W') = frame (st W)"
  "execute_fee_change env W = Inr (u, W') \<Longrightarrow> frame (st W') = frame (st W)"
  "pause env a W = Inr (u, W') \<Longrightarrow> frame (st W') = frame (st W)"
  "unpause env a W = Inr (u, W') \<Longrightarrow> frame (st W') = frame (st W)"
  by (auto simp: set_min_duration_def set_treasury_address_def set_protocol_fee_def
      propose_fee_change_def execute_fee_change_def
      pause_def unpause_def frame_eval bindE_eq_Inr split: if_splits)

lemma kept_frame_calls:
  "is_paused env W = (p, W') \<Longrightarrow> frame (st W') = frame (st W)"
  "upgrade env h W = Inr (u, W') \<Longrightarrow> frame (st W') = frame (st W)"
  "withdraw_treasury env tk n a W = Inr (u, W') \<Longrightarrow> frame (st W') = frame (st W)"
  "withdraw_all_from_treasury env tk a W = Inr (v, W') \<Longrightarrow> frame (st W') = frame (st W)"
  by (auto simp: is_paused_def is_paused_or_auto_unpause_def frame_eval upgrade_def
      withdraw_treasury_def withdraw_all_from_treasury_def bindE_eq_Inr decoded_reply
      invoke_Inr split: if_splits option.splits)

definition by_admin :: "'w env \<Rightarrow> 'w world \<Rightarrow> 'w world \<Rightarrow> bool" where
  "by_admin env W W' \<longleftrightarrow> tables (st W') = tables (st W) \<and> p_del (st W') = p_del (st W) \<and>
     nonces (st W') = nonces (st W) \<and>
     (\<forall>a. i_admin (st W) = Some a \<longrightarrow> authorizes env a) \<and> log_step (st W) (st W')"

lemma by_admin_evolves: "by_admin env W W' \<Longrightarrow> evolves env D (st W) (st W')"
  by (simp add: by_admin_def ruled)

lemma admin_settings:
  "initialize env a v W = Inr (u, W') \<Longrightarrow> by_admin env W W'"
  "set_admin env a W = Inr (u, W') \<Longrightarrow> by_admin env W W'"
  "set_guardian env a W = Inr (u, W') \<Longrightarrow> by_admin env W W'"
  "set_governance env a W = Inr (u, W') \<Longrightarrow> by_admin env W W'"
  "add_fee_exempt env a W = Inr (u, W') \<Longrightarrow> by_admin env W W'"
  "remove_fee_exempt env a W = Inr (u, W') \<Longrightarrow> by_admin env W W'"
  "set_max_streams env n W = Inr (u, W') \<Longrightarrow> by_admin env W W'"
  "set_sender_stream_limit env a n W = Inr (u, W') \<Longrightarrow> by_admin env W W'"
  by (auto simp: initialize_def set_admin_def set_guardian_def set_governance_def
      add_fee_exempt_def remove_fee_exempt_def set_max_streams_def set_sender_stream_limit_def
      by_admin_def tables_def nonces_def Let_def handler bindE_eq_Inr check_admin_Inr
      log_step_def audit_of_def split: if_splits)

lemma admin_settings2:
  "set_withdrawal_cooldown env a n W = Inr (u, W') \<Longrightarrow> by_admin env W W'"
  "set_whitelist_enabled env a b W = Inr (u, W') \<Longrightarrow> by_admin env W W'"
  "add_to_whitelist env a r W = Inr (u, W') \<Longrightarrow> by_admin env W W'"
  "remove_from_whitelist env a r W = Inr (u, W') \<Longrightarrow> by_admin env W W'"
  "set_creation_fee env f a W = Inr (u, W') \<Longrightarrow> by_admin env W W'"
  by (auto simp: set_withdrawal_cooldown_def set_whitelist_enabled_def add_to_whitelist_def
      remove_from_whitelist_def set_creation_fee_def by_admin_def tables_def nonces_def Let_def handler
      bindE_eq_Inr check_admin_Inr log_step_def audit_of_def split: if_splits)

lemma append_audit_entry_tables:
  "append_audit_entry e s = Inr s' \<Longrightarrow> tables s' = tables s \<and> p_del s' = p_del s \<and>
     nonces s' = nonces s"
  by (auto simp: append_audit_entry_def Let_def outcome tables_def nonces_def)

lemma by_admin_logged:
  assumes "append_audit_entry e t = (Inr s' :: (stream_error, storage) outcome)"
    and "audit_of t = audit_of (st W)" "tables t = tables (st W)" "p_del t = p_del (st W)"
      "nonces t = nonces (st W)" "\<forall>a. i_admin (st W) = Some a \<longrightarrow> authorizes env a"
    and "st W' = s'"
  shows "by_admin env W W'"
proof -
  have "log_step (st W) s'" using assms(1,2) unfolding log_step_def by blast
  with append_audit_entry_tables [OF assms(1)] assms(3-7) show ?thesis
    by (simp add: by_admin_def)
qed

lemma admin_logged:
  "emergency_pause env W = Inr (u, W') \<Longrightarrow> by_admin env W W'"
  "emergency_resume env W = Inr (u, W') \<Longrightarrow> by_admin env W W'"
  "migrate env v v' W = Inr (u, W') \<Longrightarrow> by_admin env W W'"
  by (auto simp: emergency_pause_def emergency_resume_def migrate_def Let_def handler
      bindE_eq_Inr check_admin_Inr tables_def nonces_def audit_of_def
      split: if_splits elim!: by_admin_logged)

lemma delegate_evolves:
  assumes "delegate env a k b W = Inr (u, W')"
  shows "evolves env D (st W) (st W')"
  using assms unfolding delegate_def set_delegate_def
  by (auto simp: bindE_eq_Inr find_stream_Inr if_Inl_eq_Inr require_auth_Inr party_def
      intro!: delegated)

lemma revoke_delegate_evolves:
  assumes "revoke_delegate env a k W = Inr (u, W')"
  shows "evolves env D (st W) (st W')"
  using assms unfolding revoke_delegate_def remove_delegate_def
  by (auto simp: bindE_eq_Inr find_stream_Inr if_Inl_eq_Inr require_auth_Inr party_def
      intro!: delegated)

lemmas settings_evolve = delegate_evolves revoke_delegate_evolves kept_frame [THEN keep] kept_frame_calls [THEN keep]
  admin_settings [THEN by_admin_evolves] admin_settings2 [THEN by_admin_evolves]
  admin_logged [THEN by_admin_evolves]

lemma batch_cancel_stream_evolves:
  assumes "batch_cancel_stream env ks a W = Inr (out, W')"
  shows "evolves env D (st W) (st W')"
  using assms batch_cancel_loop_evolves
  by (auto simp: batch_cancel_stream_def bindE_eq_Inr if_Inl_eq_Inr require_auth_Inr)

text \<open>
  Every invocation refines the changes; a partial cancellation does when the id of the stream it
  continues with is free, which the code does not check.
\<close>

definition overwrites :: "call \<Rightarrow> reply \<Rightarrow> storage \<Rightarrow> bool" where
  "overwrites c r s \<longleftrightarrow>
     (\<exists>k a n k'. c = On_stream (Partial_cancel_stream k a n) \<and> r = RId k' \<and> p_streams s k' \<noteq> None)"

lemma exec_evolves:
  assumes "exec env c W = Inr (r, W')" "filed (st W)" "\<not> overwrites c r (st W)"
  shows "evolves env (get_delegate (st W)) (st W) (st W')"
proof -
  note rules = create_stream_evolves withdraw_evolves [OF _ assms(2)] cancel_stream_evolves
    recipient_terminate_evolves archive_stream_evolves transfer_recipient_evolves [OF _ assms(2)]
    top_up_evolves [OF _ assms(2)] pause_stream_evolves [OF _ assms(2)]
    resume_stream_evolves [OF _ assms(2)] update_metadata_evolves [OF _ assms(2)]
    cancel_auto_renew_evolves [OF _ assms(2)] batch_create_stream_evolves
    batch_withdraw_evolves [OF _ assms(2)] batch_cancel_stream_evolves
    settings_evolve
  show ?thesis
  proof (cases "\<exists>k a n. c = On_stream (Partial_cancel_stream k a n)")
    case True
    with assms(1) obtain k a n k' where c: "c = On_stream (Partial_cancel_stream k a n)" "r = RId k'"
      and op: "partial_cancel_stream env k a n W = Inr (k', W')"
      by (auto simp: reply_with_Inr)
    with assms(3) have "p_streams (st W) k' = None" by (auto simp: overwrites_def)
    then show ?thesis by (rule partial_cancel_stream_evolves [OF op assms(2)])
  next
    case False
    note hints = exec_simps reply_with_Inr Let_def sum.inject prod.inject
    show ?thesis
    proof (cases c)
      case (On_setup d)
      with assms(1) show ?thesis
        by (cases d) (auto simp only: hints split: prod.splits intro: rules)
    next
      case (On_stream d)
      with assms(1) False show ?thesis
        by (cases d) (auto simp only: hints split: prod.splits intro: rules)
    next
      case (On_batch d)
      with assms(1) show ?thesis
        by (cases d) (auto simp only: hints split: prod.splits intro: rules)
    next
      case (On_settings d)
      with assms(1) show ?thesis
        by (cases d) (auto simp only: hints split: prod.splits intro: rules)
    qed
  qed
qed

section \<open>Runs with a side condition\<close>

text \<open>
  The steps of the machine whose invocations meet a condition on the environment, the call, the
  reply and the storage before it. \<open>careful\<close> runs have no partial cancellation that overwrites a
  stored stream (its new id is a hash that the code does not compare with the stored ids).
\<close>

inductive guarded ::
    "('w env \<Rightarrow> call \<Rightarrow> reply \<Rightarrow> storage \<Rightarrow> bool) \<Rightarrow> 'w env \<Rightarrow> nat \<times> 'w world \<Rightarrow> nat \<times> 'w world \<Rightarrow> bool"
  for G base where
  guarded_invoked:
    "T \<le> now \<Longrightarrow> now \<le> u64_max \<Longrightarrow> \<not> auth (current_contract base) \<Longrightarrow> call_ok c \<Longrightarrow>
     exec (at base now auth) c W = Inr (r, W') \<Longrightarrow> G (at base now auth) c r (st W) \<Longrightarrow>
     guarded G base (T, W) (now, W')"
| guarded_rest:
    "step base (T, W) (T', W') \<Longrightarrow> st W' = st W \<Longrightarrow> guarded G base (T, W) (T', W')"

definition careful where
  "careful = guarded (\<lambda>env c r s. \<not> overwrites c r s)"

lemma guarded_step: "guarded G base s t \<Longrightarrow> step base s t"
  by (induction rule: guarded.induct) (blast intro: invoked)+

lemma guarded_runs: "runs (guarded G base) s t \<Longrightarrow> runs (step base) s t"
  by (induction rule: runs.induct) (auto intro: runs.intros guarded_step)

lemma guarded_cases:
  assumes "guarded G base s t"
  obtains (call) env c r where "exec env c (snd s) = Inr (r, snd t)" "G env c r (st (snd s))"
  | (rest) "st (snd t) = st (snd s)"
  using assms by (cases rule: guarded.cases) auto

lemma step_cases:
  assumes "step base s t"
  obtains (call) env c r where "exec env c (snd s) = Inr (r, snd t)"
  | (rest) "st (snd t) = st (snd s)"
  using assms by (cases rule: step.cases) auto

text \<open>
  What a partial cancellation does to the streams when the id of the continuation is taken: the
  stream it cancels in part belongs to a party that signed, and besides it only the stream under
  the new id changes.
\<close>

lemma partial_cancel_streams:
  assumes "partial_cancel_stream env j a n W = Inr (k, W')" "filed (st W)"
  obtains x y where "p_streams (st W) j = Some x" "party env (get_delegate (st W)) j x"
    "p_streams (st W') = (p_streams (st W))(j \<mapsto> x\<lparr>s_status := Cancelled\<rparr>, k \<mapsto> y)"
    "s_id y = k" "register_stream y (save_stream (x\<lparr>s_status := Cancelled\<rparr>) (st W)) = Inr (st W')"
    "k = derive_stream_id env (s_sender x) (s_recipient x) (stream_now env x) j"
    "authorizes env a" "may_manage W j x a"
proof -
  from assms(1) obtain x0 where auth: "authorizes env a" "p_streams (st W) j = Some x0"
    "may_manage W j x0 a"
    by (auto simp: partial_cancel_stream_def bindE_eq_Inr find_stream_Inr if_Inl_eq_Inr
        require_auth_Inr)
  from assms(1) obtain x n' d m W1 W2 s where x: "p_streams (st W) j = Some x"
    and now: "n' = stream_now env x"
    and pay: "pay_if_positive env (s_token x) (s_recipient x)
        (s_flow_rate x * int (n' - s_last_withdraw_time x)) W = Inr W1"
      "transfer env (s_token x) (current_contract env) (s_sender x) n W1
        = (Inr W2 :: (stream_error, _) outcome)"
    and s: "register_stream (continued x k n' d m)
        (save_stream (x\<lparr>s_status := Cancelled\<rparr>) (st W2)) = Inr s" and W': "st W' = s"
    and k: "k = derive_stream_id env (s_sender x) (s_recipient x) n' j"
    by (elim partial_cancel_inv) blast
  have same: "x0 = x" using auth(2) x by simp
  have st: "st W2 = st W" using pay_if_positive_st [OF pay(1)] transfer_st [OF pay(2)] by simp
  have id: "s_id x = j" using assms(2) x by (rule filedD)
  show thesis
    by (rule that [OF x party_manager [OF auth(1) auth(3) [unfolded same]] _ _
          s [unfolded st W' [symmetric]] k [unfolded now] auth(1) auth(3) [unfolded same]])
      (simp_all add: register_stream_streams [OF s [unfolded st W' [symmetric]]] id)
qed

text \<open>Every stored stream is filed under its own id, in every run.\<close>

lemma exec_filed:
  assumes "exec env c W = Inr (r, W')" "filed (st W)"
  shows "filed (st W')"
proof (cases "overwrites c r (st W)")
  case False
  from evolves_filed [OF exec_evolves [OF assms False] assms(2)] show ?thesis .
next
  case True
  then obtain k a n k' where "c = On_stream (Partial_cancel_stream k a n)" "r = RId k'"
    by (auto simp: overwrites_def)
  with assms(1) have op: "partial_cancel_stream env k a n W = Inr (k', W')"
    by (auto simp: reply_with_Inr)
  obtain x y where y: "p_streams (st W') = (p_streams (st W))(k \<mapsto> x\<lparr>s_status := Cancelled\<rparr>, k' \<mapsto> y)"
    "p_streams (st W) k = Some x" "s_id y = k'"
    by (rule partial_cancel_streams [OF op assms(2)])
  with assms(2) show ?thesis by (simp add: filed_def)
qed

interpretation filing: machine_invariant "step base" "\<lambda>s. filed (st (snd s))" for base
proof unfold_locales
  fix s t :: "nat \<times> 'a world"
  assume "filed (st (snd s))" "step base s t"
  from this(2,1) show "filed (st (snd t))"
    by (cases rule: step_cases) (auto dest: exec_filed)
qed

lemma reachable_filed: "runs (step base) (0, genesis w) (T, W) \<Longrightarrow> filed (st W)"
  using filing.runs_inv [of base "(0, genesis w)" "(T, W)"]
  by (simp add: filed_def empty_storage_def)

end
