(* ===== verification/Index_Consistency.thy ===== *)
theory Index_Consistency
  imports Registry_Runs
begin

text \<open>
  The per-sender and per-recipient indexes always list exactly the stored streams of an address,
  each once, and the global index reaches every stored stream; so the paged queries return every
  stream of an address exactly once.
\<close>

section \<open>An index that covers the table\<close>

text \<open>
  \<open>L a\<close> lists, without repetition, exactly the keys of the streams whose owner (the sender, or
  the recipient) is \<open>a\<close>.
\<close>

definition covers ::
    "(address \<Rightarrow> nat list) \<Rightarrow> (stream \<Rightarrow> address) \<Rightarrow> (nat \<rightharpoonup> stream) \<Rightarrow> bool" where
  "covers L owner m \<longleftrightarrow>
     (\<forall>a. distinct (L a) \<and> set (L a) = {k. \<exists>x. m k = Some x \<and> owner x = a})"

lemma coversI:
  "(\<And>a. distinct (L a)) \<Longrightarrow> (\<And>a. set (L a) = {k. \<exists>x. m k = Some x \<and> owner x = a}) \<Longrightarrow>
     covers L owner m"
  by (simp add: covers_def)

lemma coversD:
  assumes "covers L owner m"
  shows "distinct (L a)" "set (L a) = {k. \<exists>x. m k = Some x \<and> owner x = a}"
  using assms by (simp_all add: covers_def)

lemma covers_save:
  assumes "covers L owner m" "m k = Some x" "owner y = owner x"
  shows "covers L owner (m(k \<mapsto> y))"
  using assms by (auto simp: covers_def)

context stream_index
begin

lemma covers_add:
  assumes c: "covers (ids s) owner m" and wf: "wf s" and k: "m k = None"
    and add: "add (owner y) k s = Inr s'"
  shows "covers (ids s') owner (m(k \<mapsto> y))"
proof (rule coversI)
  fix a
  have "k \<notin> set (ids s b)" for b using coversD(2) [OF c] k by auto
  then show "distinct (ids s' a)"
    using coversD(1) [OF c] by (simp add: add_ids [OF wf add])
  show "set (ids s' a) = {j. \<exists>x. (m(k \<mapsto> y)) j = Some x \<and> owner x = a}"
    using coversD(2) [OF c] k by (auto simp: add_ids [OF wf add])
qed

lemma covers_del:
  assumes c: "covers (ids s) owner m" and wf: "wf s" and k: "m k = Some x" "owner x = a"
  shows "covers (ids (del a k s)) owner (m(k := None))"
proof (rule coversI)
  fix b
  note d = del_distinct [OF wf coversD(1) [OF c], of a k]
  show "distinct (ids (del a k s) b)"
    using d coversD(1) [OF c] del_frame [OF wf] by (cases "b = a") simp_all
  have "set (ids (del a k s) b) = (if b = a then set (ids s a) - {k} else set (ids s b))"
    using d del_frame [OF wf] by simp
  then show "set (ids (del a k s) b) = {j. \<exists>x. (m(k := None)) j = Some x \<and> owner x = b}"
    using coversD(2) [OF c] k by auto
qed

end

section \<open>The invariant\<close>

definition global_covers :: "storage \<Rightarrow> bool" where
  "global_covers s \<longleftrightarrow> get_global_stream_count s \<le> u32_max \<and>
     (\<forall>k. p_streams s k \<noteq> None \<longrightarrow>
       (\<exists>i < get_global_stream_count s. get_global_stream_at s i = Some k))"

definition indexed :: "storage \<Rightarrow> bool" where
  "indexed s \<longleftrightarrow> filed s \<and> sender_index_wf s \<and> recipient_index_wf s \<and>
     covers (get_ids_by_sender s) s_sender (p_streams s) \<and>
     covers (get_ids_by_recipient s) s_recipient (p_streams s) \<and> global_covers s"

text \<open>Each operation on one index leaves the other structures alone.\<close>

lemmas index_eval = get_ids_by_sender_def get_ids_by_recipient_def sender_index_wf_def
  recipient_index_wf_def get_sender_stream_count_def get_recipient_stream_count_def
  get_global_stream_count_def get_global_stream_at_def

lemma index_frames [simp]:
  "get_ids_by_sender (save_stream y s) = get_ids_by_sender s"
  "get_ids_by_recipient (save_stream y s) = get_ids_by_recipient s"
  "get_ids_by_sender (remove_stream k s) = get_ids_by_sender s"
  "get_ids_by_recipient (remove_stream k s) = get_ids_by_recipient s"
  "sender_index_wf (save_stream y s) = sender_index_wf s"
  "recipient_index_wf (save_stream y s) = recipient_index_wf s"
  "sender_index_wf (remove_stream k s) = sender_index_wf s"
  "recipient_index_wf (remove_stream k s) = recipient_index_wf s"
  by (simp_all add: index_eval save_stream_def remove_stream_def fun_eq_iff)

lemma unindex_frames [simp]:
  "get_ids_by_recipient (unindex_by_sender a k s) = get_ids_by_recipient s"
  "get_ids_by_sender (unindex_by_recipient a k s) = get_ids_by_sender s"
  "recipient_index_wf (unindex_by_sender a k s) = recipient_index_wf s"
  "sender_index_wf (unindex_by_recipient a k s) = sender_index_wf s"
  by (auto simp: index_eval unindex_by_sender_def unindex_by_recipient_def Let_def fun_eq_iff
      split: option.splits)

lemma index_by_sender_frames:
  assumes "index_by_sender a k s = (Inr s' :: (stream_error, _) outcome)"
  shows "get_ids_by_recipient s' = get_ids_by_recipient s"
    "recipient_index_wf s' = recipient_index_wf s"
    "p_streams s' = p_streams s" "p_gi s' = p_gi s" "i_str_cnt s' = i_str_cnt s"
  using assms by (auto simp: index_by_sender_Inr index_eval fun_eq_iff)

lemma index_by_recipient_frames:
  assumes "index_by_recipient a k s = (Inr s' :: (stream_error, _) outcome)"
  shows "get_ids_by_sender s' = get_ids_by_sender s"
    "sender_index_wf s' = sender_index_wf s"
    "p_streams s' = p_streams s" "p_gi s' = p_gi s" "i_str_cnt s' = i_str_cnt s"
  using assms by (auto simp: index_by_recipient_Inr index_eval fun_eq_iff)

lemma index_global_frames:
  assumes "index_global_stream k s = (Inr s' :: (stream_error, _) outcome)"
  shows "get_ids_by_sender s' = get_ids_by_sender s"
    "get_ids_by_recipient s' = get_ids_by_recipient s"
    "sender_index_wf s' = sender_index_wf s" "recipient_index_wf s' = recipient_index_wf s"
    "p_streams s' = p_streams s"
    "i_str_cnt s' = Some (get_global_stream_count s + 1)"
    "p_gi s' = (p_gi s)(get_global_stream_count s \<mapsto> k)"
  using assms by (auto simp: index_global_stream_def Let_def bindE_eq_Inr plain_eq_Inr index_eval
      fun_eq_iff)

lemma global_frames [simp]:
  "p_gi (unindex_by_sender a k s) = p_gi s" "p_gi (unindex_by_recipient a k s) = p_gi s"
  "i_str_cnt (unindex_by_sender a k s) = i_str_cnt s"
  "i_str_cnt (unindex_by_recipient a k s) = i_str_cnt s"
  by (auto simp: unindex_by_sender_def unindex_by_recipient_def Let_def split: option.splits)

lemma global_covers_sub:
  assumes "global_covers s" "p_gi s' = p_gi s" "i_str_cnt s' = i_str_cnt s"
    and "\<And>k. p_streams s' k \<noteq> None \<Longrightarrow> p_streams s k \<noteq> None"
  shows "global_covers s'"
  using assms by (simp add: global_covers_def index_eval)

section \<open>Every change keeps it\<close>

lemma indexed_frame:
  assumes "tables s' = tables s" "indexed s"
  shows "indexed s'"
  using assms by (auto simp: tables_def indexed_def filed_def global_covers_def index_eval covers_def)

lemma indexed_save:
  assumes i: "indexed s" and x: "p_streams s k = Some x"
    and y: "s_id y = k" "s_sender y = s_sender x" "s_recipient y = s_recipient x"
  shows "indexed (save_stream y s)"
proof -
  have "global_covers (save_stream y s)"
    by (rule global_covers_sub [of s])
      (use i x y(1) in \<open>auto simp: indexed_def save_stream_def split: if_splits\<close>)
  moreover have "filed (save_stream y s)" using i by (simp add: indexed_def filed_def)
  ultimately show ?thesis
    using i x y by (simp add: indexed_def covers_save [of _ _ _ k x])
qed

text \<open>Registering a stream under any id, a new one or not, keeps the global index complete.\<close>

lemma global_covers_register:
  assumes g: "global_covers s" and op: "register_stream y s = Inr s'"
  shows "global_covers s'"
proof -
  let ?k = "s_id y" and ?s0 = "save_stream y s"
  from op obtain s1 s2 where
    s1: "index_by_sender (s_sender y) ?k ?s0 = (Inr s1 :: (stream_error, _) outcome)"
    and s2: "index_by_recipient (s_recipient y) ?k s1 = (Inr s2 :: (stream_error, _) outcome)"
    and s3: "index_global_stream ?k s2 = (Inr s' :: (stream_error, _) outcome)"
    by (auto simp: register_stream_def bindE_eq_Inr)
  note f = index_by_sender_frames [OF s1] index_by_recipient_frames [OF s2]
    index_global_frames [OF s3]
  have cnt: "get_global_stream_count s' = get_global_stream_count s + 1"
    "p_gi s' = (p_gi s)(get_global_stream_count s \<mapsto> ?k)"
    by (simp_all add: get_global_stream_count_def f save_stream_def)
  show ?thesis
    unfolding global_covers_def
  proof (intro conjI allI impI)
    show "get_global_stream_count s' \<le> u32_max"
      using s3 by (simp add: index_global_stream_Inr get_global_stream_count_def)
  next
    fix j assume j: "p_streams s' j \<noteq> None"
    show "\<exists>i < get_global_stream_count s'. get_global_stream_at s' i = Some j"
    proof (cases "j = ?k")
      case True
      then show ?thesis
        by (intro exI [of _ "get_global_stream_count s"]) (simp add: cnt get_global_stream_at_def)
    next
      case False
      with j have "p_streams s j \<noteq> None" by (simp add: f)
      with g obtain n where "n < get_global_stream_count s" "get_global_stream_at s n = Some j"
        by (auto simp: global_covers_def)
      then show ?thesis by (intro exI [of _ n]) (simp add: cnt get_global_stream_at_def)
    qed
  qed
qed

lemma indexed_open:
  assumes i: "indexed s" and fresh: "p_streams s (s_id y) = None"
    and op: "register_stream y s = Inr s'"
  shows "indexed s'"
proof -
  let ?k = "s_id y" and ?s0 = "save_stream y s"
  from op obtain s1 s2 where
    s1: "index_by_sender (s_sender y) ?k ?s0 = (Inr s1 :: (stream_error, _) outcome)"
    and s2: "index_by_recipient (s_recipient y) ?k s1 = (Inr s2 :: (stream_error, _) outcome)"
    and s3: "index_global_stream ?k s2 = (Inr s' :: (stream_error, _) outcome)"
    by (auto simp: register_stream_def bindE_eq_Inr)
  note f1 = index_by_sender_frames [OF s1] and f2 = index_by_recipient_frames [OF s2]
    and f3 = index_global_frames [OF s3]
  have tab: "p_streams s' = (p_streams s)(?k \<mapsto> y)" by (simp add: f1 f2 f3)
  have wf: "sender_index_wf ?s0" "recipient_index_wf s1"
    using i f1 by (simp_all add: indexed_def)
  have "covers (get_ids_by_sender s1) s_sender ((p_streams s)(?k \<mapsto> y))"
    using i by (intro sender_index.covers_add [where owner = s_sender and m = "p_streams s", OF _ wf(1) fresh s1]) (simp add: indexed_def)
  moreover have "covers (get_ids_by_recipient s2) s_recipient ((p_streams s)(?k \<mapsto> y))"
    using i by (intro recipient_index.covers_add [where owner = s_recipient and m = "p_streams s", OF _ wf(2) fresh s2])
      (simp add: indexed_def f1)
  moreover have "sender_index_wf s1" "recipient_index_wf s2"
    using sender_index.add_wf [OF wf(1) s1] recipient_index.add_wf [OF wf(2) s2] by simp_all
  moreover have "global_covers s'"
    using global_covers_register [OF _ op] i by (simp add: indexed_def)
  moreover have "filed s'" using i tab by (simp add: indexed_def filed_def)
  ultimately show ?thesis unfolding indexed_def tab by (simp add: f1 f2 f3)
qed

lemma indexed_close:
  assumes i: "indexed s" and x: "p_streams s k = Some x"
    and y: "s_sender y = s_sender x" "s_recipient y = s_recipient x"
  shows "indexed (close_stream k y s)"
proof -
  let ?s0 = "remove_stream k s" and ?m = "(p_streams s)(k := None)"
  let ?s1 = "unindex_by_sender (s_sender x) k ?s0"
  have close: "close_stream k y s = unindex_by_recipient (s_recipient x) k ?s1"
    using y by (simp add: close_stream_def)
  have wf: "sender_index_wf ?s0" "recipient_index_wf ?s1" using i by (simp_all add: indexed_def)
  have "covers (get_ids_by_sender ?s1) s_sender ?m"
    using i x by (intro sender_index.covers_del [OF _ wf(1)]) (simp_all add: indexed_def)
  moreover have "covers (get_ids_by_recipient (unindex_by_recipient (s_recipient x) k ?s1))
      s_recipient ?m"
    using i x by (intro recipient_index.covers_del [OF _ wf(2)]) (simp_all add: indexed_def)
  moreover have "global_covers (close_stream k y s)"
    by (rule global_covers_sub [of s])
      (use i in \<open>auto simp: indexed_def close remove_stream_def split: if_splits\<close>)
  moreover have "filed (close_stream k y s)" using i by (simp add: indexed_def filed_def)
  moreover have "p_streams (close_stream k y s) = ?m" by simp
  ultimately show ?thesis
    using sender_index.del_wf [OF wf(1)] recipient_index.del_wf [OF wf(2)]
    by (simp add: indexed_def close)
qed

lemma indexed_move:
  assumes i: "indexed s" and x: "p_streams s k = Some x"
    and y: "s_id y = k" "s_sender y = s_sender x"
    and op: "index_by_recipient (s_recipient y) k (unindex_by_recipient (s_recipient x) k
        (save_stream y s)) = (Inr s' :: (stream_error, storage) outcome)"
  shows "indexed s'"
proof -
  let ?s1 = "unindex_by_recipient (s_recipient x) k (save_stream y s)"
  let ?m = "p_streams s"
  note f = index_by_recipient_frames [OF op]
  have wf: "recipient_index_wf (save_stream y s)" using i by (simp add: indexed_def)
  note wf1 = recipient_index.del_wf [OF wf, of "s_recipient x" k]
  have tab: "p_streams s' = ?m(k \<mapsto> y)" using y(1) by (simp add: f)
  have "covers (get_ids_by_recipient ?s1) s_recipient (?m(k := None))"
    using i x by (intro recipient_index.covers_del [OF _ wf]) (simp_all add: indexed_def)
  from recipient_index.covers_add [where owner = s_recipient, OF this wf1 _ op]
  have "covers (get_ids_by_recipient s') s_recipient (?m(k \<mapsto> y))" by simp
  moreover have "covers (get_ids_by_sender s') s_sender (?m(k \<mapsto> y))"
    using i x y(2) by (simp add: f indexed_def covers_save [of _ _ _ k x])
  moreover have "global_covers s'"
    by (rule global_covers_sub [of s])
      (use i x y(1) in \<open>auto simp: indexed_def f save_stream_def split: if_splits\<close>)
  moreover have "filed s'" using i tab y(1) by (simp add: indexed_def filed_def)
  moreover have "recipient_index_wf s'" by (rule recipient_index.add_wf [OF wf1 op])
  ultimately show ?thesis using i unfolding indexed_def tab by (simp add: f)
qed

lemma evolves_indexed: "evolves env D s s' \<Longrightarrow> indexed s \<Longrightarrow> indexed s'"
proof (induction rule: evolves.induct)
  case (keep s' s)
  then show ?case by (auto simp: frame_def intro: indexed_frame)
next
  case (noted s' s)
  then show ?case by (auto intro: indexed_frame)
next
  case (ruled s' s)
  then show ?case by (auto intro: indexed_frame)
next
  case (delegated s k d)
  then show ?case by (auto intro: indexed_frame [of _ s] simp: tables_def)
next
  case (saved s k x y)
  then show ?case by (blast intro: indexed_save)
next
  case (opened s y s')
  then show ?case by (blast intro: indexed_open)
next
  case (closed s k x y)
  then show ?case by (blast intro: indexed_close)
next
  case (moved s k x y b s')
  then show ?case by (intro indexed_move [of s k x y s']) simp_all
next
  case (andthen s t u)
  then show ?case by blast
qed

text \<open>
  The global index alone reaches every stored stream after every run, also when a partial
  cancellation overwrote a stream.
\<close>

lemma frame_index: "tables s' = tables s \<Longrightarrow> global_covers s \<Longrightarrow> global_covers s'"
  by (rule global_covers_sub [of s]) (simp_all add: tables_def)

lemma global_covers_save:
  assumes "global_covers s" "p_streams s k = Some x" "s_id y = k"
  shows "global_covers (save_stream y s)"
  by (rule global_covers_sub [OF assms(1)]) (use assms(2,3) in \<open>auto simp: save_stream_def split: if_splits\<close>)

lemma evolves_global: "evolves env D s s' \<Longrightarrow> global_covers s \<Longrightarrow> global_covers s'"
proof (induction rule: evolves.induct)
  case (keep s' s)
  then show ?case by (auto simp: frame_def intro: frame_index)
next
  case (noted s' s)
  then show ?case by (auto intro: frame_index)
next
  case (ruled s' s)
  then show ?case by (auto intro: frame_index)
next
  case (delegated s k d)
  then show ?case by (auto intro: frame_index [of _ s] simp: tables_def)
next
  case (saved s k x y)
  then show ?case by (blast intro: global_covers_save)
next
  case (opened s y s')
  then show ?case by (blast intro: global_covers_register)
next
  case (closed s k x y)
  show ?case
    by (rule global_covers_sub [OF closed(5)])
      (auto simp: close_stream_def remove_stream_def unindex_by_sender_def
        unindex_by_recipient_def Let_def split: option.splits if_splits)
next
  case (moved s k x y b s')
  note f = index_by_recipient_frames [OF moved(6)]
  show ?case
    by (rule global_covers_sub [OF moved(7)])
      (use moved(1-5) in \<open>auto simp: f save_stream_def split: if_splits\<close>)
next
  case (andthen s t u)
  then show ?case by blast
qed

section \<open>Every run keeps it\<close>

interpretation registry: machine_invariant "careful base" "\<lambda>s. indexed (st (snd s))" for base
proof unfold_locales
  fix s t :: "nat \<times> 'a world"
  assume i: "indexed (st (snd s))" and "careful base s t"
  from this(2) show "indexed (st (snd t))"
    unfolding careful_def
  proof (cases rule: guarded_cases)
    case (call env c r)
    have "filed (st (snd s))" using i by (simp add: indexed_def)
    from evolves_indexed [OF exec_evolves [OF call(1) this call(2)] i] show ?thesis .
  qed (simp add: i)
qed

lemma genesis_indexed: "indexed (st (genesis w))"
  by (simp add: indexed_def filed_def covers_def global_covers_def index_eval empty_storage_def
      slots_full_def)

lemma reachable_indexed: "runs (careful base) (0, genesis w) (T, W) \<Longrightarrow> indexed (st W)"
  using registry.runs_inv [of base "(0, genesis w)" "(T, W)"] genesis_indexed by simp

lemma exec_global:
  assumes "exec env c W = Inr (r, W')" "filed (st W)" "global_covers (st W)"
  shows "global_covers (st W')"
proof (cases "overwrites c r (st W)")
  case False
  from evolves_global [OF exec_evolves [OF assms(1,2) False] assms(3)] show ?thesis .
next
  case True
  then obtain k a n k' where "c = On_stream (Partial_cancel_stream k a n)" "r = RId k'"
    by (auto simp: overwrites_def)
  with assms(1) have op: "partial_cancel_stream env k a n W = Inr (k', W')"
    by (auto simp: reply_with_Inr)
  obtain x y where x: "p_streams (st W) k = Some x"
    and reg: "register_stream y (save_stream (x\<lparr>s_status := Cancelled\<rparr>) (st W)) = Inr (st W')"
    by (rule partial_cancel_streams [OF op assms(2)])
  have "global_covers (save_stream (x\<lparr>s_status := Cancelled\<rparr>) (st W))"
    using filedD [OF assms(2) x] by (intro global_covers_save [OF assms(3) x]) simp
  from global_covers_register [OF this reg] show ?thesis .
qed

interpretation reaching: machine_invariant "step base"
  "\<lambda>s. filed (st (snd s)) \<and> global_covers (st (snd s))" for base
proof unfold_locales
  fix s t :: "nat \<times> 'a world"
  assume "filed (st (snd s)) \<and> global_covers (st (snd s))" "step base s t"
  from this(2,1) show "filed (st (snd t)) \<and> global_covers (st (snd t))"
    by (cases rule: step_cases) (auto dest: exec_filed exec_global)
qed

lemma reachable_global: "runs (step base) (0, genesis w) (T, W) \<Longrightarrow> global_covers (st W)"
  using reaching.runs_inv [of base "(0, genesis w)" "(T, W)"] genesis_indexed
  by (simp add: indexed_def)

lemma covers_length: "covers L owner m \<Longrightarrow> length (L a) = card {k. \<exists>x. m k = Some x \<and> owner x = a}"
  by (simp only: coversD(2) [symmetric] coversD(1) distinct_card)

lemma indexed_counts:
  assumes "indexed s"
  shows "get_sender_stream_count s a = card {k. \<exists>x. p_streams s k = Some x \<and> s_sender x = a}"
    "get_recipient_stream_count s a
       = card {k. \<exists>x. p_streams s k = Some x \<and> s_recipient x = a}"
proof -
  have c: "covers (get_ids_by_sender s) s_sender (p_streams s)"
    "covers (get_ids_by_recipient s) s_recipient (p_streams s)"
    and wf: "sender_index_wf s" "recipient_index_wf s"
    using assms by (simp_all add: indexed_def)
  show "get_sender_stream_count s a = card {k. \<exists>x. p_streams s k = Some x \<and> s_sender x = a}"
    using sender_index.cnt_ids [OF wf(1)] covers_length [OF c(1)] by simp
  show "get_recipient_stream_count s a
      = card {k. \<exists>x. p_streams s k = Some x \<and> s_recipient x = a}"
    using recipient_index.cnt_ids [OF wf(2)] covers_length [OF c(2)] by simp
qed


lemma demo_careful:
  obtains W where "runs (careful demo_base) (0, genesis demo_ledger) (100, W)"
    and "p_streams (st W) = [72620543991349248 \<mapsto> demo_stream]"
proof -
  let ?call = "On_stream (Create_stream (Addr 1) (Addr 2) (Addr 9) 7200 3600 60 5 False 0 True [])"
  have "\<exists>r W. exec (at demo_base 100 (\<lambda>a. a = Addr 1)) ?call (genesis demo_ledger) = Inr (r, W)
      \<and> p_streams (st W) = [72620543991349248 \<mapsto> demo_stream]"
    by (simp add: create_stream_def eval_simps demo_id demo_base_def demo_ledger_def
        demo_stream_def)
  then obtain r W where W: "exec (at demo_base 100 (\<lambda>a. a = Addr 1)) ?call (genesis demo_ledger)
      = Inr (r, W)" and x: "p_streams (st W) = [72620543991349248 \<mapsto> demo_stream]"
    by blast
  have "careful demo_base (0, genesis demo_ledger) (100, W)"
    unfolding careful_def by (rule guarded_invoked [OF _ _ _ _ W])
      (simp_all add: u64_max_def call_ok_def in_i128_def i128_max_def i128_min_def demo_base_def
        overwrites_def)
  then have "runs (careful demo_base) (0, genesis demo_ledger) (100, W)"
    by (rule runs_step [OF runs_refl])
  then show thesis using x by (rule that)
qed


section \<open>Paging\<close>

lemma page_positions:
  "map (\<lambda>i. f (xs ! i)) [a..<min (a + c) (length xs)] = map f (take c (drop a xs))"
  by (rule nth_equalityI) (auto simp: less_diff_conv add.commute)

lemma stream_page_eq:
  assumes "\<forall>k \<in> set ids. p_streams (st W) k \<noteq> None" "start + min limit 20 \<le> u32_max"
  shows "stream_page W ids start limit
    = map (\<lambda>k. the (p_streams (st W) k)) (take (min limit 20) (drop start ids))"
proof -
  let ?last = "min (start + min limit 20) (length ids)"
  have "stream_page W ids start limit
      = List.map_filter (\<lambda>i. p_streams (st W) (ids ! i)) [start..<?last]"
    using assms(2) by (simp add: stream_page_def Let_def saturating_add_u32_def load_stream_def
        min_absorb2)
  also have "\<dots> = map (\<lambda>i. the (p_streams (st W) (ids ! i))) [start..<?last]"
    using assms(1) by (intro map_filter_full) auto
  also have "\<dots> = map (\<lambda>k. the (p_streams (st W) k)) (take (min limit 20) (drop start ids))"
    by (rule page_positions)
  finally show ?thesis .
qed

lemma concat_pages:
  "concat (map (\<lambda>i. take c (drop (c * i) xs)) [0..<n]) = take (c * n) xs"
  by (induction n) (simp_all add: take_add [symmetric] add.commute)

text \<open>All pages of an index that covers the table are all streams of the owner.\<close>

lemma all_pages:
  assumes c: "covers L owner (p_streams (st W))" and f: "filed (st W)"
    and n: "20 * n \<le> u32_max" "length (L a) \<le> 20 * n"
  defines "xs \<equiv> concat (map (\<lambda>i. stream_page W (L a) (20 * i) 20) [0..<n])"
  shows "distinct xs" "set xs = {x. \<exists>k. p_streams (st W) k = Some x \<and> owner x = a}"
proof -
  let ?g = "\<lambda>k. the (p_streams (st W) k)"
  have stored: "\<forall>k \<in> set (L a). p_streams (st W) k \<noteq> None"
    using coversD(2) [OF c] by auto
  have "stream_page W (L a) (20 * i) 20 = map ?g (take 20 (drop (20 * i) (L a)))"
    if "i < n" for i
    using stream_page_eq [OF stored, of "20 * i" 20] that n(1) by simp
  then have "xs = concat (map (\<lambda>i. map ?g (take 20 (drop (20 * i) (L a)))) [0..<n])"
    unfolding xs_def by (intro arg_cong [where f = concat] map_cong) simp_all
  also have "\<dots> = map ?g (concat (map (\<lambda>i. take 20 (drop (20 * i) (L a))) [0..<n]))"
    by (simp add: map_concat comp_def)
  also have "\<dots> = map ?g (L a)" using n(2) by (simp only: concat_pages) simp
  finally have xs: "xs = map ?g (L a)" .
  have "inj_on ?g (set (L a))"
    using stored filedD [OF f] by (intro inj_onI) (metis option.collapse)
  then show "distinct xs" using coversD(1) [OF c] by (simp add: xs distinct_map)
  show "set xs = {x. \<exists>k. p_streams (st W) k = Some x \<and> owner x = a}"
    using coversD(2) [OF c] by (force simp: xs)
qed

text \<open>
  C21: paging is complete after every careful run (no partial cancellation gave its continuation
  the id of a stored stream, which would list that id twice). Reading the pages of 20 of the
  streams of a sender (of a recipient) one after the other, until the counter is reached, gives
  every stored stream of that sender (recipient) exactly once.
\<close>

theorem pages_complete:
  assumes run: "runs (careful base) (0, genesis w) (T, W)" and n: "20 * n \<le> u32_max"
    and cnt: "get_sender_stream_count (st W) a \<le> 20 * n"
      "get_recipient_stream_count (st W) a \<le> 20 * n"
  defines "sent \<equiv> concat (map (\<lambda>i. get_streams_by_sender W a (20 * i) 20) [0..<n])"
    and "received \<equiv> concat (map (\<lambda>i. get_streams_by_recipient W a (20 * i) 20) [0..<n])"
  shows "distinct sent \<and> set sent = {x. \<exists>k. p_streams (st W) k = Some x \<and> s_sender x = a} \<and>
     distinct received \<and>
     set received = {x. \<exists>k. p_streams (st W) k = Some x \<and> s_recipient x = a}"
proof -
  have i: "indexed (st W)" by (rule reachable_indexed [OF run])
  then have c: "covers (get_ids_by_sender (st W)) s_sender (p_streams (st W))"
    "covers (get_ids_by_recipient (st W)) s_recipient (p_streams (st W))"
    and wf: "sender_index_wf (st W)" "recipient_index_wf (st W)" and f: "filed (st W)"
    by (simp_all add: indexed_def)
  have "length (get_ids_by_sender (st W) a) \<le> 20 * n"
    "length (get_ids_by_recipient (st W) a) \<le> 20 * n"
    using cnt sender_index.cnt_ids [OF wf(1)] recipient_index.cnt_ids [OF wf(2)] by simp_all
  from all_pages [OF c(1) f n this(1)] all_pages [OF c(2) f n this(2)] show ?thesis
    by (simp add: sent_def received_def get_streams_by_sender_def get_streams_by_recipient_def)
qed

theorem pages_complete_witness:
  "\<exists>W. set (get_streams_by_sender W (Addr 1) 0 20) = {demo_stream} \<and>
       runs (careful demo_base) (0, genesis demo_ledger) (100, W)"
proof -
  obtain W where run: "runs (careful demo_base) (0, genesis demo_ledger) (100, W)"
    and x: "p_streams (st W) = [72620543991349248 \<mapsto> demo_stream]"
    by (rule demo_careful)
  have s: "s_sender demo_stream = Addr 1" "s_recipient demo_stream = Addr 2"
    by (simp_all add: demo_stream_def)
  have "{k. \<exists>x. p_streams (st W) k = Some x \<and> s_sender x = Addr 1} = {72620543991349248}"
    "{k. \<exists>x. p_streams (st W) k = Some x \<and> s_recipient x = Addr 1} = {}"
    using x s by (auto split: if_splits)
  then have "get_sender_stream_count (st W) (Addr 1) = 1"
    "get_recipient_stream_count (st W) (Addr 1) = 0"
    by (simp_all only: indexed_counts [OF reachable_indexed [OF run]] card.empty)
      simp
  with pages_complete [OF run, of 1 "Addr 1"] x s run show ?thesis
    by (intro exI [of _ W]) (auto simp: u32_max_def split: if_splits)
qed

end
