(* ===== verification/Access.thy ===== *)
theory Access
  imports Registry_Runs
begin

text \<open>
  Who can do what: nobody but the parties of a stream can touch it, over any number of
  invocations; nobody but the admin can change the settings; and, by contrast, what anybody can
  do because two instructions ask for no signature and one derived id is not checked.
\<close>

section \<open>Strangers\<close>

lemma evolves_stranger:
  "evolves env D s s' \<Longrightarrow> p_streams s k = Some x \<Longrightarrow> \<not> party env D k x \<Longrightarrow>
     p_streams s' k = Some x \<and> p_del s' k = p_del s k"
proof (induction rule: evolves.induct)
  case (keep s' s)
  then show ?case by (simp add: frame_def tables_def)
next
  case (noted s' s)
  then show ?case by (simp add: tables_def)
next
  case (ruled s' s)
  then show ?case by (simp add: tables_def)
next
  case (delegated s j d)
  then show ?case by auto
next
  case (saved s j z y)
  then have "j \<noteq> k" by auto
  with saved show ?case by (simp add: save_stream_def)
next
  case (opened s y s')
  then have "s_id y \<noteq> k" by auto
  with opened register_stream_streams [OF opened(3)] show ?case
    by (auto simp: register_stream_def bindE_eq_Inr index_by_sender_Inr index_by_recipient_Inr
        index_global_stream_def Let_def plain_eq_Inr save_stream_def)
next
  case (closed s j z y)
  then have "j \<noteq> k" by auto
  with closed show ?case
    by (auto simp: close_stream_def remove_stream_def unindex_by_sender_def
        unindex_by_recipient_def Let_def split: option.splits)
next
  case (moved s j z y b s')
  then have "j \<noteq> k" by (auto simp: party_def)
  with moved show ?case
    by (auto simp: index_by_recipient_Inr unindex_by_recipient_def Let_def save_stream_def
        split: option.splits)
next
  case (andthen s t u)
  then show ?case by simp
qed

text \<open>
  An invocation that no party of the stream under \<open>k\<close> signed, and that is not a partial
  cancellation (of another stream) whose continuation takes the id \<open>k\<close>.
\<close>

definition takes_id :: "nat \<Rightarrow> call \<Rightarrow> reply \<Rightarrow> bool" where
  "takes_id k c r \<longleftrightarrow> (\<exists>j a n. c = On_stream (Partial_cancel_stream j a n) \<and> r = RId k)"

definition by_stranger :: "nat \<Rightarrow> 'w env \<Rightarrow> call \<Rightarrow> reply \<Rightarrow> storage \<Rightarrow> bool" where
  "by_stranger k env c r s \<longleftrightarrow> \<not> takes_id k c r \<and>
     (\<forall>x. p_streams s k = Some x \<longrightarrow> \<not> party env (get_delegate s) k x)"

lemma register_stream_delegates: "register_stream y s = Inr s' \<Longrightarrow> p_del s' = p_del s"
  by (auto simp: register_stream_def bindE_eq_Inr index_by_sender_Inr index_by_recipient_Inr
      index_global_stream_def Let_def plain_eq_Inr save_stream_def)

lemma partial_cancel_stranger:
  assumes op: "partial_cancel_stream env j a n W = Inr (k', W')" "filed (st W)"
    and x: "p_streams (st W) k = Some x" "\<not> party env (get_delegate (st W)) k x" and "k' \<noteq> k"
  shows "p_streams (st W') k = Some x \<and> p_del (st W') = p_del (st W)"
proof -
  obtain z y where "p_streams (st W) j = Some z" "party env (get_delegate (st W)) j z"
    and W': "p_streams (st W') = (p_streams (st W))(j \<mapsto> z\<lparr>s_status := Cancelled\<rparr>, k' \<mapsto> y)"
    "register_stream y (save_stream (z\<lparr>s_status := Cancelled\<rparr>) (st W)) = Inr (st W')"
    by (rule partial_cancel_streams [OF op])
  with x have "j \<noteq> k" by auto
  with W'(1) x(1) \<open>k' \<noteq> k\<close> register_stream_delegates [OF W'(2)] show ?thesis
    by (simp add: save_stream_def)
qed

lemma exec_stranger:
  assumes "exec env c W = Inr (r, W')" "by_stranger k env c r (st W)" "filed (st W)"
    and x: "p_streams (st W) k = Some x"
  shows "p_streams (st W') k = Some x \<and> get_delegate (st W') k = get_delegate (st W) k"
proof (cases "overwrites c r (st W)")
  case True
  then obtain j a n k' where c: "c = On_stream (Partial_cancel_stream j a n)" "r = RId k'"
    by (auto simp: overwrites_def)
  with assms(1) have op: "partial_cancel_stream env j a n W = Inr (k', W')"
    by (auto simp: reply_with_Inr)
  have "k' \<noteq> k" "\<not> party env (get_delegate (st W)) k x"
    using assms(2) x c by (auto simp: by_stranger_def takes_id_def)
  with partial_cancel_stranger [OF op assms(3) x] show ?thesis by (simp add: get_delegate_def)
next
  case False
  have s: "\<not> party env (get_delegate (st W)) k x" using assms(2) x by (simp add: by_stranger_def)
  from evolves_stranger [OF exec_evolves [OF assms(1,3) False] x s] show ?thesis
    by (simp add: get_delegate_def)
qed

interpretation strangers: machine_invariant "guarded (by_stranger k) base"
  "\<lambda>s. filed (st (snd s)) \<and> p_streams (st (snd s)) k = Some x \<and> get_delegate (st (snd s)) k = d"
  for k base x d
proof unfold_locales
  fix s t :: "nat \<times> 'a world"
  assume i: "filed (st (snd s)) \<and> p_streams (st (snd s)) k = Some x
      \<and> get_delegate (st (snd s)) k = d"
    and "guarded (by_stranger k) base s t"
  from this(2) show "filed (st (snd t)) \<and> p_streams (st (snd t)) k = Some x
      \<and> get_delegate (st (snd t)) k = d"
  proof (cases rule: guarded_cases)
    case (call env c r)
    from exec_filed [OF call(1)] exec_stranger [OF call] i show ?thesis by simp
  qed (simp add: i)
qed

text \<open>
  C10: over any number of invocations that neither the sender, the recipient nor the delegate of
  a stored stream sign, and none of which is a partial cancellation of another stream whose
  continuation gets the id of this one, the stream stays exactly as it is, and so does its
  delegate: such invocations can neither change nor remove it nor put a stranger in charge of it.
  The exception is needed: the code does not compare the id it derives for a continuation with
  the stored ids, and a later property shows a stored stream overwritten in this way.
\<close>

theorem strangers_cannot_touch:
  assumes "runs (step base) (0, genesis w) (T, W)" "p_streams (st W) k = Some x"
    and "runs (guarded (by_stranger k) base) (T, W) (T', W')"
  shows "p_streams (st W') k = Some x \<and> get_delegate (st W') k = get_delegate (st W) k"
  using strangers.runs_inv [OF assms(3), of x "get_delegate (st W) k"]
    reachable_filed [OF assms(1)] assms(2) by simp

theorem strangers_cannot_touch_witness:
  "\<exists>W W'. runs (guarded (by_stranger 72620543991349248) demo_base) (100, W) (150, W') \<and>
     get_treasury (st W') = Some (Addr 7) \<and>
     p_streams (st W') 72620543991349248 = Some demo_stream"
proof -
  obtain W where run: "runs (step demo_base) (0, genesis demo_ledger) (100, W)"
    and x: "p_streams (st W) = [72620543991349248 \<mapsto> demo_stream]"
    by (rule demo_run)
  have x': "p_streams (st W) 72620543991349248 = Some demo_stream" by (simp add: x)
  define W' where "W' = in_store (set_treasury (Addr 7)) W"
  have e: "exec (at demo_base 150 (\<lambda>_. False)) (On_batch (Set_treasury_address (Addr 7))) W = Inr (RUnit, W')"
    by (simp add: set_treasury_address_def reply_with_def W'_def)
  have "guarded (by_stranger 72620543991349248) demo_base (100, W) (150, W')"
    by (rule guarded_invoked [OF _ _ _ _ e])
      (simp_all add: call_ok_def u64_max_def by_stranger_def takes_id_def party_def)
  then have g: "runs (guarded (by_stranger 72620543991349248) demo_base) (100, W) (150, W')"
    by (rule runs_step [OF runs_refl])
  have "get_treasury (st W') = Some (Addr 7)" by (simp add: W'_def handler)
  with strangers_cannot_touch [OF run x' g] g show ?thesis by blast
qed

section \<open>Settings\<close>

lemma save_stream_settings [simp]: "settings (save_stream y s) = settings s"
  by (simp add: settings_def save_stream_def)

lemma register_stream_settings: "register_stream y s = Inr s' \<Longrightarrow> settings s' = settings s"
  by (auto simp: register_stream_def bindE_eq_Inr index_by_sender_Inr index_by_recipient_Inr
      index_global_stream_def Let_def plain_eq_Inr settings_def save_stream_def)

lemma close_stream_settings [simp]:
  "settings (unindex_by_recipient a k s) = settings s"
  "settings (unindex_by_sender a k s) = settings s"
  "settings (remove_stream k s) = settings s" "settings (close_stream k x s) = settings s"
  by (auto simp: close_stream_def remove_stream_def unindex_by_sender_def settings_def
      unindex_by_recipient_def Let_def split: option.splits)

lemma settings_admin: "settings s' = settings s \<Longrightarrow> i_admin s' = i_admin s"
  by (simp add: settings_def)

lemma evolves_settings:
  "evolves env D s s' \<Longrightarrow> i_admin s = Some a \<Longrightarrow> \<not> authorizes env a \<Longrightarrow>
     settings s' = settings s"
proof (induction rule: evolves.induct)
  case (keep s' s)
  then show ?case by (simp add: frame_def)
next
  case (delegated s j d)
  then show ?case by (simp add: settings_def)
next
  case (opened s y s')
  then show ?case by (simp add: register_stream_settings)
next
  case (moved s j z y b s')
  have "settings s' = settings (unindex_by_recipient (s_recipient z) j (save_stream y s))"
    using moved(6) by (auto simp: index_by_recipient_Inr settings_def)
  then show ?case by simp
next
  case (andthen s t u)
  then show ?case using settings_admin by metis
qed simp_all

lemma overwriting_settings:
  assumes "partial_cancel_stream env k caller n W = Inr (k', W')" "filed (st W)"
  shows "settings (st W') = settings (st W)"
  by (rule partial_cancel_streams [OF assms]) (simp add: register_stream_settings)

lemma exec_settings:
  assumes "exec env c W = Inr (r, W')" "filed (st W)" "i_admin (st W) = Some a"
    and "\<not> authorizes env a"
  shows "settings (st W') = settings (st W)"
proof (cases "overwrites c r (st W)")
  case True
  then obtain k b n k' where "c = On_stream (Partial_cancel_stream k b n)" "r = RId k'"
    by (auto simp: overwrites_def)
  with assms(1,2) show ?thesis by (auto simp: reply_with_Inr intro: overwriting_settings)
next
  case False
  from evolves_settings [OF exec_evolves [OF assms(1,2) False] assms(3,4)] show ?thesis .
qed

interpretation ungoverned: machine_invariant "guarded (\<lambda>env c r s. \<not> authorizes env a) base"
  "\<lambda>s. filed (st (snd s)) \<and> i_admin (st (snd s)) = Some a \<and> settings (st (snd s)) = S"
  for a base S
proof unfold_locales
  fix s t :: "nat \<times> 'a world"
  assume i: "filed (st (snd s)) \<and> i_admin (st (snd s)) = Some a \<and> settings (st (snd s)) = S"
    and "guarded (\<lambda>env c r s. \<not> authorizes env a) base s t"
  from this(2) show "filed (st (snd t)) \<and> i_admin (st (snd t)) = Some a
      \<and> settings (st (snd t)) = S"
  proof (cases rule: guarded_cases)
    case (call env c r)
    have "settings (st (snd t)) = settings (st (snd s))"
      using exec_settings [OF call(1) _ _ call(2)] i by simp
    with exec_filed [OF call(1)] settings_admin [OF this] i show ?thesis by simp
  qed (simp add: i)
qed

lemma read_audit_loop_cong:
  "i_al s' = i_al s \<Longrightarrow> read_audit_loop s' h n is = read_audit_loop s h n is"
  by (induction "is") (simp_all add: Let_def split: option.splits)

lemma settings_audit_log:
  assumes "settings s' = settings s"
  shows "read_audit_log s' = read_audit_log s"
  using assms read_audit_loop_cong [of s' s] by (simp add: settings_def read_audit_log_def Let_def handler)

text \<open>
  C11: the settings belong to the admin. Over any number of invocations that the stored admin
  does not sign, by whoever else, no role, version, migration, limit, cooldown, whitelist or
  exemption entry, creation fee or audit entry changes. In particular nobody else can become
  admin, guardian or governance.
\<close>

theorem settings_need_admin:
  assumes "runs (step base) (0, genesis w) (T, W)" "read_admin (st W) = Some a"
    and "runs (guarded (\<lambda>env c r s. \<not> authorizes env a) base) (T, W) (T', W')"
  shows "settings (st W') = settings (st W) \<and> get_admin W' = Inr a \<and>
     get_guardian W' = get_guardian W \<and> get_governance W' = get_governance W \<and>
     get_admin_log W' = get_admin_log W"
proof -
  have "i_admin (st W) = Some a" using assms(2) by (simp add: handler)
  then have "settings (st W') = settings (st W)"
    using ungoverned.runs_inv [OF assms(3), of "settings (st W)"] reachable_filed [OF assms(1)]
    by simp
  with assms(2) settings_audit_log [OF this] show ?thesis
    by (simp add: settings_def get_admin_def get_guardian_def get_governance_def handler
        get_admin_log_def)
qed

theorem settings_need_admin_witness:
  "\<exists>W W'. read_admin (st W) = Some (Addr 4) \<and>
     runs (guarded (\<lambda>env c r s. \<not> authorizes env (Addr 4)) demo_base) (150, W) (200, W') \<and>
     get_protocol_fee (st W') = 10000 \<and> settings (st W') = settings (st W) \<and>
     get_admin W' = Inr (Addr 4)"
proof -
  let ?W = "publish (ev_contract_deployed ''1'' (Addr 4))
    (in_store (write_version ''1'') (in_store (write_admin (Addr 4)) (genesis demo_ledger)))"
  have run: "runs (step demo_base) (0, genesis demo_ledger) (150, ?W)"
    by (rule demo_step [OF runs_refl, where c = "On_setup (Initialize (Addr 4) ''1'')" and r = RUnit
          and auth = "\<lambda>_. False"])
      (simp_all add: initialize_def reply_with_def call_ok_def u64_max_def handler
        empty_storage_def Let_def)
  define W' where "W' = in_store (storage_set_protocol_fee 10000) ?W"
  have e: "exec (at demo_base 200 (\<lambda>_. False)) (On_batch (Set_protocol_fee 10000)) ?W = Inr (RUnit, W')"
    by (simp add: set_protocol_fee_def reply_with_def W'_def)
  have "guarded (\<lambda>env c r s. \<not> authorizes env (Addr 4)) demo_base (150, ?W) (200, W')"
    by (rule guarded_invoked [OF _ _ _ _ e]) (simp_all add: call_ok_def u64_max_def)
  then have g: "runs (guarded (\<lambda>env c r s. \<not> authorizes env (Addr 4)) demo_base) (150, ?W) (200, W')"
    by (rule runs_step [OF runs_refl])
  have a: "read_admin (st ?W) = Some (Addr 4)" by (simp add: handler)
  have "get_protocol_fee (st W') = 10000" by (simp add: W'_def handler)
  with settings_need_admin [OF run a g] a g show ?thesis by blast
qed

section \<open>Replays\<close>

lemma nonces_le_refl [simp]: "nonces_le s s"
  by (simp add: nonces_le_def)

lemma nonces_le_trans: "nonces_le s t \<Longrightarrow> nonces_le t u \<Longrightarrow> nonces_le s u"
  by (auto simp: nonces_le_def intro: order_trans)

lemma nonces_frames [simp]:
  "nonces (save_stream y s) = nonces s" "nonces (close_stream k x s) = nonces s"
  "nonces (unindex_by_recipient a k s) = nonces s"
  by (auto simp: nonces_def save_stream_def close_stream_def remove_stream_def
      unindex_by_sender_def unindex_by_recipient_def Let_def split: option.splits)

lemma register_stream_nonces: "register_stream y s = Inr s' \<Longrightarrow> nonces s' = nonces s"
  by (auto simp: register_stream_def bindE_eq_Inr index_by_sender_Inr index_by_recipient_Inr
      index_global_stream_def Let_def plain_eq_Inr nonces_def save_stream_def)

lemma evolves_nonces: "evolves env D s s' \<Longrightarrow> nonces_le s s'"
proof (induction rule: evolves.induct)
  case (saved s k x y)
  show ?case by (rule nonces_le_eq) simp
next
  case (closed s k x y)
  show ?case by (rule nonces_le_eq) simp
next
  case (moved s k x y b s')
  have "nonces s' = nonces (unindex_by_recipient (s_recipient x) k (save_stream y s))"
    using moved(6) by (auto simp: index_by_recipient_Inr nonces_def)
  then show ?case by (intro nonces_le_eq) simp
next
  case (andthen s t u)
  then show ?case by (blast intro: nonces_le_trans)
qed (auto intro: nonces_le_eq register_stream_nonces simp: frame_def nonces_def)

lemma overwriting_nonces:
  assumes "partial_cancel_stream env k caller n W = Inr (k', W')" "filed (st W)"
  shows "nonces (st W') = nonces (st W)"
  by (rule partial_cancel_streams [OF assms]) (simp add: register_stream_nonces)

lemma exec_nonces:
  assumes "exec env c W = Inr (r, W')" "filed (st W)"
  shows "nonces_le (st W) (st W')"
proof (cases "overwrites c r (st W)")
  case False
  from evolves_nonces [OF exec_evolves [OF assms False]] show ?thesis .
next
  case True
  then obtain k b n k' where "c = On_stream (Partial_cancel_stream k b n)" "r = RId k'"
    by (auto simp: overwrites_def)
  with assms(1) have op: "partial_cancel_stream env k b n W = Inr (k', W')"
    by (auto simp: reply_with_Inr)
  show ?thesis by (intro nonces_le_eq) (rule overwriting_nonces [OF op assms(2)])
qed

interpretation replays: machine_invariant "step base"
  "\<lambda>s. filed (st (snd s)) \<and> nonces_le s0 (st (snd s))" for base s0
proof unfold_locales
  fix s t :: "nat \<times> 'a world"
  assume i: "filed (st (snd s)) \<and> nonces_le s0 (st (snd s))" and "step base s t"
  from this(2) show "filed (st (snd t)) \<and> nonces_le s0 (st (snd t))"
  proof (cases rule: step_cases)
    case (call env c r)
    from exec_filed [OF call(1)] exec_nonces [OF call(1)] i show ?thesis
      by (blast intro: nonces_le_trans)
  qed (simp add: i)
qed

text \<open>The stream a creation files, as it is requested.\<close>

definition requested :: "nat \<Rightarrow> address \<Rightarrow> address \<Rightarrow> address \<Rightarrow> int \<Rightarrow> nat \<Rightarrow> nat \<Rightarrow> nat \<Rightarrow> bool \<Rightarrow> nat
    \<Rightarrow> bool \<Rightarrow> bytes \<Rightarrow> stream" where
  "requested k sender recipient token amount now d cliff ar lock art md =
     \<lparr>s_id = k, s_sender = sender, s_recipient = recipient, s_token = token, s_deposit = amount,
      s_flow_rate = amount div int d, s_start_time = now, s_cliff_time = now + cliff,
      s_lock_until = lock, s_end_time = now + d, s_last_withdraw_time = now, s_status = Active,
      s_auto_renew = ar, s_allow_recipient_termination = art, s_last_pause_time = 0,
      s_total_withdrawn = 0, s_metadata = md\<rparr>"

lemma create_stream_state:
  assumes op: "create_stream env sender recipient token amount d cliff nonce ar lock art md W0
      = Inr (k, W')"
  shows "p_streams (st W0) k = None" "0 < amount div int d"
    "k = derive_stream_id env sender recipient (ledger_timestamp env) nonce"
    "\<not> nonce_used (st W0) sender nonce" "nonce_used (st W') sender nonce"
    "p_streams (st W') = (p_streams (st W0))(k \<mapsto> requested k sender recipient token amount
       (ledger_timestamp env) d cliff ar lock art md)"
    "get_sender_stream_count (st W') sender = get_sender_stream_count (st W0) sender + 1"
    "get_sender_stream_count (st W') sender \<le> effective_sender_limit (st W0) sender"
proof -
  obtain W f Wc Wt s where W: "when_not_paused env W0 = Inr W"
    and g: "0 < amount" "cliff < d"
      "div_i128 amount (int d) = (Inr f :: (stream_error, int) outcome)" "f \<noteq> 0"
      "get_sender_stream_count (st W) sender < effective_sender_limit (st W) sender"
      "p_streams (st W) k = None" "p_n (st W) sender nonce = None"
    and k: "k = derive_stream_id env sender recipient (ledger_timestamp env) nonce"
    and Wc: "collect_creation_fee env sender (in_store (mark_nonce_used sender nonce) W) = Inr Wc"
    and Wt: "transfer env token sender (current_contract env) amount Wc
        = (Inr Wt :: (stream_error, _) outcome)"
    and s: "register_stream \<lparr>s_id = k, s_sender = sender, s_recipient = recipient,
       s_token = token, s_deposit = amount, s_flow_rate = f,
       s_start_time = ledger_timestamp env, s_cliff_time = ledger_timestamp env + cliff,
       s_lock_until = lock, s_end_time = ledger_timestamp env + d,
       s_last_withdraw_time = ledger_timestamp env, s_status = Active, s_auto_renew = ar,
       s_allow_recipient_termination = art, s_last_pause_time = 0,
       s_total_withdrawn = 0, s_metadata = md\<rparr> (st Wt) = Inr s"
    and W': "st W' = s"
    by (rule create_stream_inv [OF op]) blast
  have f: "f = amount div int d" using g by (simp add: div_i128_nonneg)
  note s = s [unfolded f, folded requested_def]
  have st: "st Wt = mark_nonce_used sender nonce (st W)"
    using transfer_st [OF Wt] collect_creation_fee_st [OF Wc] by simp
  have W0: "p_streams (st W) = p_streams (st W0)" "p_n (st W) = p_n (st W0)"
    "get_sender_stream_count (st W) = get_sender_stream_count (st W0)"
    "effective_sender_limit (st W) = effective_sender_limit (st W0)"
    using when_not_paused_frame(3) [OF W]
    by (auto simp: fun_eq_iff get_sender_stream_count_def handler split: option.split)
  have x: "s_sender (requested k sender recipient token amount (ledger_timestamp env) d cliff ar
      lock art md) = sender" "s_id (requested k sender recipient token amount
      (ledger_timestamp env) d cliff ar lock art md) = k" by (simp_all add: requested_def)
  have "get_sender_stream_count (st W') sender = get_sender_stream_count (st W) sender + 1"
    using register_stream_index(1) [OF s] st
    by (simp add: W' x mark_nonce_used_def get_sender_stream_count_def)
  with W0(3) show "get_sender_stream_count (st W') sender
      = get_sender_stream_count (st W0) sender + 1" by simp
  with g(5) W0(3,4) show "get_sender_stream_count (st W') sender
      \<le> effective_sender_limit (st W0) sender" by simp
  have "0 \<le> f" using f g by (simp add: pos_imp_zdiv_nonneg_iff)
  then show "0 < amount div int d" using g(4) f by simp
  show "p_streams (st W') = (p_streams (st W0))(k \<mapsto> requested k sender recipient token amount
       (ledger_timestamp env) d cliff ar lock art md)"
    using register_stream_streams [OF s] st W0(1) by (simp add: W' x mark_nonce_used_def)
  show "nonce_used (st W') sender nonce"
    using register_stream_index(2) [OF s] st by (simp add: W' nonce_used_def mark_nonce_used_def)
  show "p_streams (st W0) k = None" "\<not> nonce_used (st W0) sender nonce"
    using g(6,7) W0(1,2) by (simp_all add: nonce_used_def)
  show "k = derive_stream_id env sender recipient (ledger_timestamp env) nonce" by (rule k)
qed

lemma nonce_used_later:
  assumes run: "runs (step base) (0, genesis w) (T, W0)"
    and op: "create_stream env sender recipient token amount d cliff nonce ar lock art md W0
      = Inr (k, W1)"
    and later: "runs (step base) (now, W1) (T', W2)"
  shows "nonce_used (st W2) sender nonce"
proof -
  have "filed (st W1)"
    using exec_filed [of env "On_stream (Create_stream sender recipient token amount d cliff nonce ar lock art
        md)" W0 "RId k" W1] op reachable_filed [OF run] by (simp add: reply_with_def)
  then have "nonces_le (st W1) (st W2)" using replays.runs_inv [OF later, of "st W1"] by simp
  with create_stream_state(5) [OF op] show ?thesis by (simp add: nonces_le_def)
qed

text \<open>
  C15: a creation that succeeds files exactly one new stream and leaves every other stream alone.
  Its id is the derived one and was free; its record is exactly what was requested: the parties,
  the token and the deposit, the floored (and positive) rate, the start now, the cliff and the
  end that far from now, the lock, the two switches and the metadata as given, nothing withdrawn
  and active. The sender's stream count grows by one and not above the sender's limit. The nonce
  was unused; it is marked, and in every state of any run that follows a further creation by the
  same sender with that nonce, signed and not paused, answers that the stream is a duplicate,
  whatever its other arguments are.
\<close>

theorem create_stream_effect:
  assumes run: "runs (step base) (0, genesis w) (T, W0)"
    and op: "create_stream env sender recipient token amount d cliff nonce ar lock art md W0
      = Inr (k, W')"
    and later: "runs (step base) (now, W') (T', W2)" "when_not_paused env2 W2 = Inr W3"
      "authorizes env2 sender"
  shows "p_streams (st W0) k = None \<and>
     k = derive_stream_id env sender recipient (ledger_timestamp env) nonce \<and>
     0 < amount div int d \<and>
     p_streams (st W') = (p_streams (st W0))(k \<mapsto>
       \<lparr>s_id = k, s_sender = sender, s_recipient = recipient, s_token = token, s_deposit = amount,
        s_flow_rate = amount div int d, s_start_time = ledger_timestamp env,
        s_cliff_time = ledger_timestamp env + cliff, s_lock_until = lock,
        s_end_time = ledger_timestamp env + d, s_last_withdraw_time = ledger_timestamp env,
        s_status = Active, s_auto_renew = ar, s_allow_recipient_termination = art,
        s_last_pause_time = 0, s_total_withdrawn = 0, s_metadata = md\<rparr>) \<and>
     get_sender_stream_count (st W') sender = get_sender_stream_count (st W0) sender + 1 \<and>
     get_sender_stream_count (st W') sender \<le> effective_sender_limit (st W0) sender \<and>
     \<not> nonce_used (st W0) sender nonce \<and> nonce_used (st W') sender nonce \<and>
     create_stream env2 sender recipient2 token2 amount2 d2 cliff2 nonce ar2 lock2 art2 md2 W2
       = Inl (Err DuplicateStream)"
proof -
  have "nonce_used (st W3) sender nonce"
    using nonce_used_later [OF run op later(1)] when_not_paused_kept [OF later(2)]
    by (simp add: frame_def nonces_def nonce_used_def)
  then have again: "create_stream env2 sender recipient2 token2 amount2 d2 cliff2 nonce ar2 lock2 art2
      md2 W2 = Inl (Err DuplicateStream)"
    using later(2,3) by (simp add: create_stream_def require_auth_def)
  note eff = create_stream_state [OF op]
  show ?thesis by (intro conjI) (rule eff(1-5,7,8) eff(6) [unfolded requested_def] again)+
qed

theorem create_stream_effect_witness:
  "\<exists>W' k. create_stream (at demo_base 100 (\<lambda>a. a = Addr 1)) (Addr 1) (Addr 2) (Addr 9) 7200 3600
        60 5 False 0 True [] (genesis demo_ledger) = Inr (k, W') \<and>
      get_sender_stream_count (st W') (Addr 1) \<le> 1000 \<and>
      create_stream (at demo_base 400 (\<lambda>a. a = Addr 1)) (Addr 1) (Addr 3) (Addr 9) 50 10 0 5
        True 0 True [] W' = Inl (Err DuplicateStream)"
proof -
  let ?e = "at demo_base 100 (\<lambda>a. a = Addr 1)" and ?e2 = "at demo_base 400 (\<lambda>a. a = Addr 1)"
  have "\<exists>k W'. create_stream ?e (Addr 1) (Addr 2) (Addr 9) 7200 3600 60 5 False 0 True []
      (genesis demo_ledger) = Inr (k, W') \<and> when_not_paused ?e2 W' = Inr W'"
    by (simp add: create_stream_def eval_simps demo_id demo_base_def demo_ledger_def)
  then obtain k W' where op: "create_stream ?e (Addr 1) (Addr 2) (Addr 9) 7200 3600 60 5 False 0
      True [] (genesis demo_ledger) = Inr (k, W')" and np: "when_not_paused ?e2 W' = Inr W'"
    by blast
  have auth: "authorizes ?e2 (Addr 1)" by simp
  have start: "runs (step demo_base) (0, genesis demo_ledger) (0, genesis demo_ledger)"
    by (rule runs_refl)
  have stay: "runs (step demo_base) (100, W') (100, W')" by (rule runs_refl)
  note eff = create_stream_effect [OF start op stay np auth]
  have lim: "effective_sender_limit (st (genesis demo_ledger)) (Addr 1) = 1000"
    by (simp add: handler empty_storage_def)
  show ?thesis
    using eff [of "Addr 3" "Addr 9" 50 10 0 True 0 True "[]"] op lim
    by (intro exI [of _ W'] exI [of _ k]) simp
qed

text \<open>
  C13: a creation cannot be replayed. Once a stream was created with a nonce, then whatever
  happens afterwards, no creation by the same sender with that nonce succeeds, whatever its other
  arguments are.
\<close>

theorem creation_not_replayed:
  assumes run: "runs (step base) (0, genesis w) (T, W0)"
    and op: "create_stream env sender recipient token amount d cliff nonce ar lock art md W0
      = Inr (k, W1)"
    and later: "runs (step base) (now, W1) (T', W2)"
  shows "create_stream env2 sender recipient2 token2 amount2 d2 cliff2 nonce ar2 lock2 art2 md2 W2
     \<noteq> Inr (k2, W3)"
proof
  assume again: "create_stream env2 sender recipient2 token2 amount2 d2 cliff2 nonce ar2 lock2 art2
      md2 W2 = Inr (k2, W3)"
  from create_stream_state(4) [OF again] nonce_used_later [OF run op later] show False ..
qed

theorem creation_not_replayed_witness:
  "\<exists>W1 k. create_stream (at demo_base 100 (\<lambda>a. a = Addr 1)) (Addr 1) (Addr 2) (Addr 9) 7200 3600
        60 5 False 0 True [] (genesis demo_ledger) = Inr (k, W1) \<and>
      (\<forall>r. create_stream (at demo_base 400 (\<lambda>a. a = Addr 1)) (Addr 1) (Addr 3) (Addr 9) 50 10 0 5
        True 0 True [] W1 \<noteq> Inr r)"
proof -
  obtain k W1 where op: "create_stream (at demo_base 100 (\<lambda>a. a = Addr 1)) (Addr 1) (Addr 2)
      (Addr 9) 7200 3600 60 5 False 0 True [] (genesis demo_ledger) = Inr (k, W1)"
    by (simp add: create_stream_def eval_simps demo_id demo_base_def demo_ledger_def)
  have "runs (step demo_base) (100, W1) (100, W1)" by (rule runs_refl)
  from creation_not_replayed [OF runs_refl op this] op show ?thesis by auto
qed

text \<open>
  C14: the same for batches: a batch creation succeeds only with the sender's current batch
  nonce, and none succeeds twice with the same nonce, whatever happens in between.
\<close>

theorem batch_not_replayed:
  assumes run: "runs (step base) (0, genesis w) (T, W0)"
    and op: "batch_create_stream env sender rs as ts d ar ls nonce W0 = Inr (out, W1)"
    and later: "runs (step base) (now, W1) (T', W2)"
  shows "nonce = get_nonce W0 sender \<and> nonce < get_nonce W2 sender \<and>
     batch_create_stream env2 sender rs2 as2 ts2 d2 ar2 ls2 nonce W2 \<noteq> Inr (out2, W3)"
proof -
  have pause: "get_batch_nonce (st W') sender = get_batch_nonce (st W) sender"
    if "when_not_paused e W = Inr W'" for e W W'
    using when_not_paused_kept [OF that] by (simp add: frame_def nonces_def get_batch_nonce_def)
  obtain W s ids where W: "when_not_paused env W0 = Inr W" and auth: "authorizes env sender"
    and n: "nonce = get_batch_nonce (st W) sender"
    and s: "increment_batch_nonce sender (st W) = (Inr s :: (stream_error, _) outcome)"
    and len: "length rs = length as" "length rs = length ls" "length rs = length ts"
    and pre: "batch_prepass env s sender (ledger_timestamp env) d 0 (zip rs as) [] = Inr ids"
    and loop: "batch_create_loop env sender (ledger_timestamp env) (ledger_timestamp env + d) d ar
        (zip (zip ids (zip rs as)) (zip ts ls)) [] (W\<lparr>st := s\<rparr>) = Inr (out, W1)"
    by (rule batch_create_stream_inv [OF op]) blast
  from batch_prepass_Inr [OF pre] have ids: "length ids = length rs" "distinct ids"
    "\<forall>k \<in> set ids. p_streams s k = None"
    using len by auto
  have "evolves env (\<lambda>_. None) (st (W\<lparr>st := s\<rparr>)) (st W1)"
    using ids batch_ids [OF len ids(1)] by (intro batch_create_loop_evolves [OF loop _ _ auth]) simp_all
  then have "nonces_le s (st W1)" using evolves_nonces by fastforce
  moreover have "get_batch_nonce s sender = nonce + 1"
    using s n by (auto simp: increment_batch_nonce_Inr get_batch_nonce_def)
  ultimately have "nonce < get_batch_nonce (st W1) sender"
    by (metis nonces_le_def less_eq_Suc_le Suc_eq_plus1)
  moreover have "filed (st W1)"
    using exec_filed [of env "On_batch (Batch_create_stream sender rs as ts d ar ls nonce)" W0 "RIds out" W1]
      op reachable_filed [OF run] by (simp add: reply_with_def)
  ultimately have now: "nonce < get_batch_nonce (st W2) sender"
    using replays.runs_inv [OF later, of "st W1"] by (simp add: nonces_le_def) (meson less_le_trans)
  have "batch_create_stream env2 sender rs2 as2 ts2 d2 ar2 ls2 nonce W2 \<noteq> Inr (out2, W3)"
  proof
    assume again: "batch_create_stream env2 sender rs2 as2 ts2 d2 ar2 ls2 nonce W2 = Inr (out2, W3)"
    obtain Wx where Wx: "when_not_paused env2 W2 = Inr Wx"
      "nonce = get_batch_nonce (st Wx) sender"
      by (rule batch_create_stream_inv [OF again]) blast
    with pause [OF Wx(1)] now show False by simp
  qed
  with now n pause [OF W] show ?thesis by (simp add: get_nonce_def)
qed

lemma demo_batch_ids:
  "derive_stream_id (at demo_base 100 auth) (Addr (Suc 0)) (Addr 2) 100 0 = 72620543991349248"
  "derive_stream_id (at demo_base 100 auth) (Addr (Suc 0)) (Addr 3) 100 (Suc 0) = 72902018968059904"
proof -
  have "[0..<8] = [0, 1, 2, 3, 4, 5, 6, 7::nat]" by (simp add: upt_rec)
  then show "derive_stream_id (at demo_base 100 auth) (Addr (Suc 0)) (Addr 2) 100 0
      = 72620543991349248"
    "derive_stream_id (at demo_base 100 auth) (Addr (Suc 0)) (Addr 3) 100 (Suc 0)
      = 72902018968059904"
    by (simp_all add: derive_stream_id_def to_be_bytes_def from_be_bytes_def at_def demo_base_def
        ledger_env_def)
qed

lemma demo_batch:
  obtains W where "batch_create_stream (at demo_base 100 (\<lambda>a. a = Addr 1)) (Addr 1) [Addr 2, Addr 3]
      [3600, 5400] [Addr 9, Addr 9] 3600 False [0, 0] 0 (genesis demo_ledger)
      = Inr ([72620543991349248, 72902018968059904], W)"
proof -
  have "token_transfer demo_base = ledger_transfer" by (simp add: demo_base_def)
  then have "\<exists>W. batch_create_stream (at demo_base 100 (\<lambda>a. a = Addr 1)) (Addr 1) [Addr 2, Addr 3]
      [3600, 5400] [Addr 9, Addr 9] 3600 False [0, 0] 0 (genesis demo_ledger)
      = Inr ([72620543991349248, 72902018968059904], W)"
    by (simp add: batch_create_stream_def eval_simps demo_batch_ids demo_ledger_def
        increment_batch_nonce_def stream_exists_def del: at_def)
  then show thesis using that by blast
qed

theorem batch_not_replayed_witness:
  "\<exists>out W1. batch_create_stream (at demo_base 100 (\<lambda>a. a = Addr 1)) (Addr 1) [Addr 2, Addr 3]
      [3600, 5400] [Addr 9, Addr 9] 3600 False [0, 0] 0 (genesis demo_ledger) = Inr (out, W1) \<and>
     0 < get_nonce W1 (Addr 1)"
proof -
  obtain W1 where op: "batch_create_stream (at demo_base 100 (\<lambda>a. a = Addr 1)) (Addr 1)
      [Addr 2, Addr 3] [3600, 5400] [Addr 9, Addr 9] 3600 False [0, 0] 0 (genesis demo_ledger)
      = Inr ([72620543991349248, 72902018968059904], W1)"
    by (rule demo_batch)
  have "runs (step demo_base) (100, W1) (100, W1)" by (rule runs_refl)
  from batch_not_replayed [OF runs_refl op this] op show ?thesis by blast
qed

section \<open>What anybody can do\<close>

text \<open>
  C35: the fee and its receiver are open to everybody. With no signature at all anybody can set
  the protocol fee to 100% and the treasury to an address of their own; the next withdrawal in
  the middle of a stream then pays the recipient nothing and that address the whole claim.
\<close>

theorem anyone_can_take_claims:
  assumes run: "runs (step base) (0, genesis w) (T, W0)" and now: "T \<le> now" "now \<le> u64_max"
    and tok: "honest_token base (s_token x)"
      "0 \<le> token_balance base (s_token x) (current_contract base) w"
    and x: "p_streams (st W0) k = Some x" and r: "\<not> is_fee_exempt W0 r"
    and mid: "s_cliff_time x \<le> now" "s_last_withdraw_time x < now" "now < s_end_time x"
    and parties: "distinct [r, thief, current_contract base]"
  shows "\<exists>W1 W2.
     exec (at base now (\<lambda>_. False)) (On_batch (Set_protocol_fee 10000)) W0 = Inr (RUnit, W1) \<and>
     exec (at base now (\<lambda>_. False)) (On_batch (Set_treasury_address thief)) W1 = Inr (RUnit, W2) \<and>
     (\<forall>W'. withdraw (at base now auth) k r W2 = Inr ((), W') \<longrightarrow>
       (\<exists>W3. ext W' = ext (try_invoke (at base now auth) r ''on_stream_withdraw''
                            [VU64 k, VI128 0] W3) \<and>
          token_balance base (s_token x) r (ext W3) = token_balance base (s_token x) r (ext W0) \<and>
          token_balance base (s_token x) thief (ext W3)
            = token_balance base (s_token x) thief (ext W0)
              + s_flow_rate x * int (now - s_last_withdraw_time x)))"
proof -
  let ?W1 = "in_store (storage_set_protocol_fee 10000) W0"
  let ?W2 = "in_store (set_treasury thief) ?W1"
  have e1: "exec (at base now (\<lambda>_. False)) (On_batch (Set_protocol_fee 10000)) W0 = Inr (RUnit, ?W1)"
    by (simp add: set_protocol_fee_def reply_with_def)
  have e2: "exec (at base now (\<lambda>_. False)) (On_batch (Set_treasury_address thief)) ?W1 = Inr (RUnit, ?W2)"
    by (simp add: set_treasury_address_def reply_with_def)
  have "step base (T, W0) (now, ?W1)"
    by (rule invoked [OF now _ _ e1]) (simp_all add: call_ok_def)
  moreover have "step base (now, ?W1) (now, ?W2)"
    by (rule invoked [OF _ now(2) _ _ e2]) (simp_all add: call_ok_def)
  ultimately have run2: "runs (step base) (0, genesis w) (now, ?W2)"
    using run by (blast intro: runs_step)
  have s: "p_streams (st ?W2) k = Some x" "get_treasury (st ?W2) = Some thief"
    "get_protocol_fee (st ?W2) = 10000" "\<not> storage_is_fee_exempt (st ?W2) r"
    using x r by (simp_all add: handler is_fee_exempt_def)
  have "\<exists>W3. ext W' = ext (try_invoke (at base now auth) r ''on_stream_withdraw''
                            [VU64 k, VI128 0] W3) \<and>
          token_balance base (s_token x) r (ext W3) = token_balance base (s_token x) r (ext W0) \<and>
          token_balance base (s_token x) thief (ext W3)
            = token_balance base (s_token x) thief (ext W0)
              + s_flow_rate x * int (now - s_last_withdraw_time x)"
    if op: "withdraw (at base now auth) k r ?W2 = Inr ((), W')" for W'
    by (rule reachable_claim [OF run2 tok s(1) op mid s(2) parties])
      (use s(3,4) in fastforce)
  with e1 e2 show ?thesis by blast
qed

theorem anyone_can_take_claims_witness:
  "\<exists>W1 W2 W' (W3 :: ledger world). runs (step demo_base) (0, genesis demo_ledger) (100, W1) \<and>
     p_streams (st W1) 72620543991349248 = Some demo_stream \<and>
     withdraw (at demo_base 1100 (\<lambda>a. a = Addr 2)) 72620543991349248 (Addr 2) W2 = Inr ((), W') \<and>
     ext W' = ext W3 \<and>
     token_balance demo_base (Addr 9) (Addr 2) (ext W3)
       = token_balance demo_base (Addr 9) (Addr 2) (ext W1) \<and>
     token_balance demo_base (Addr 9) (Addr 6) (ext W3)
       = token_balance demo_base (Addr 9) (Addr 6) (ext W1) + 2000"
proof -
  let ?e = "at demo_base 1100 (\<lambda>a. a = Addr 2)"
  obtain W0 where run: "runs (step demo_base) (0, genesis demo_ledger) (100, W0)"
    and x: "p_streams (st W0) = [72620543991349248 \<mapsto> demo_stream]"
    and e: "ext W0 = (\<lambda>t a. if t = Addr 9 \<and> a = Addr 0 then 7200
                    else if t = Addr 9 \<and> a = Addr 1 then 1800
                    else if a = Addr 1 then 9000 else 0)"
    and p: "i_paused (st W0) = None" "p_fe (st W0) = Map.empty" "i_wd_cd (st W0) = None"
    by (rule demo_run)
  have x': "p_streams (st W0) 72620543991349248 = Some demo_stream" by (simp add: x)
  have ex: "\<not> is_fee_exempt W0 (Addr 2)" using p by (simp add: is_fee_exempt_def handler)
  have par: "distinct [Addr 2, Addr 6, current_contract demo_base]" by (simp add: demo_base_def)
  have mid: "s_cliff_time demo_stream \<le> 1100" "s_last_withdraw_time demo_stream < 1100"
    "1100 < s_end_time demo_stream" "(1100::nat) \<le> u64_max" "(100::nat) \<le> 1100"
    by (simp_all add: demo_stream_def u64_max_def)
  obtain W1 W2 where set: "exec (at demo_base 1100 (\<lambda>_. False)) (On_batch (Set_protocol_fee 10000)) W0
        = Inr (RUnit, W1)"
      "exec (at demo_base 1100 (\<lambda>_. False)) (On_batch (Set_treasury_address (Addr 6))) W1 = Inr (RUnit, W2)"
    and pays: "\<forall>W'. withdraw ?e 72620543991349248 (Addr 2) W2 = Inr ((), W') \<longrightarrow>
       (\<exists>W3. ext W' = ext (try_invoke ?e (Addr 2) ''on_stream_withdraw''
                            [VU64 72620543991349248, VI128 0] W3) \<and>
          token_balance demo_base (s_token demo_stream) (Addr 2) (ext W3)
            = token_balance demo_base (s_token demo_stream) (Addr 2) (ext W0) \<and>
          token_balance demo_base (s_token demo_stream) (Addr 6) (ext W3)
            = token_balance demo_base (s_token demo_stream) (Addr 6) (ext W0)
              + s_flow_rate demo_stream * int (1100 - s_last_withdraw_time demo_stream))"
    using anyone_can_take_claims [OF run mid(5,4) demo_base_honest demo_ledger_nonneg x' ex
        mid(1-3) par, of "\<lambda>a. a = Addr 2"] by blast
  have W2: "W2 = in_store (set_treasury (Addr 6)) (in_store (storage_set_protocol_fee 10000) W0)"
    using set by (auto simp: set_protocol_fee_def set_treasury_address_def reply_with_def)
  obtain W' where op: "withdraw ?e 72620543991349248 (Addr 2) W2 = Inr ((), W')"
    using p by (simp add: W2 withdraw_def eval_simps x e demo_stream_def demo_base_def
        compute_claimable_eq compute_earned_eq withdraw_payout_def pay_claim_def fee_on_claim_def
        try_invoke_def)
  with pays obtain W3 where "ext W' = ext (try_invoke ?e (Addr 2) ''on_stream_withdraw''
      [VU64 72620543991349248, VI128 0] W3)"
    "token_balance demo_base (s_token demo_stream) (Addr 2) (ext W3)
       = token_balance demo_base (s_token demo_stream) (Addr 2) (ext W0)"
    "token_balance demo_base (s_token demo_stream) (Addr 6) (ext W3)
       = token_balance demo_base (s_token demo_stream) (Addr 6) (ext W0)
         + s_flow_rate demo_stream * int (1100 - s_last_withdraw_time demo_stream)"
    by blast
  with run x' op show ?thesis
    by - (rule exI [of _ W0], rule exI [of _ W2], rule exI [of _ W'], rule exI [of _ W3],
      simp add: try_invoke_def demo_base_def demo_stream_def)
qed

text \<open>The stream a creation files.\<close>

lemma create_stream_files:
  assumes "create_stream env a b tk amount d cliff n ar lock art md W0 = Inr (j, W1)"
  obtains z where "j = derive_stream_id env a b (ledger_timestamp env) n"
    "p_streams (st W0) j = None" "p_streams (st W1) = (p_streams (st W0))(j \<mapsto> z)"
    "s_token z = tk" "s_deposit z = amount" "s_status z = Active" "s_total_withdrawn z = 0"
proof -
  obtain W f Wc Wt s where W: "when_not_paused env W0 = Inr W"
    and j: "j = derive_stream_id env a b (ledger_timestamp env) n"
    and fresh: "p_streams (st W) j = None"
    and Wc: "collect_creation_fee env a (in_store (mark_nonce_used a n) W) = Inr Wc"
    and Wt: "transfer env tk a (current_contract env) amount Wc
        = (Inr Wt :: (stream_error, _) outcome)"
    and s: "register_stream \<lparr>s_id = j, s_sender = a, s_recipient = b,
       s_token = tk, s_deposit = amount, s_flow_rate = f,
       s_start_time = ledger_timestamp env, s_cliff_time = ledger_timestamp env + cliff,
       s_lock_until = lock, s_end_time = ledger_timestamp env + d,
       s_last_withdraw_time = ledger_timestamp env, s_status = Active, s_auto_renew = ar,
       s_allow_recipient_termination = art, s_last_pause_time = 0,
       s_total_withdrawn = 0, s_metadata = md\<rparr> (st Wt) = Inr s" (is "register_stream ?z _ = _")
    and W1: "st W1 = s"
    by (rule create_stream_inv [OF assms]) simp
  have "st Wt = mark_nonce_used a n (st W)"
    using transfer_st [OF Wt] collect_creation_fee_st [OF Wc] by simp
  then have "p_streams (st W1) = (p_streams (st W0))(j \<mapsto> ?z)" "p_streams (st W0) j = None"
    using register_stream_streams [OF s] W1 unpause_frame(1) [OF W] fresh
    by (simp_all add: mark_nonce_used_def)
  with j show thesis by (intro that [of ?z]) simp_all
qed

text \<open>
  Deleting two live streams of a token and putting one in the place of the second: what the
  contract owes loses both deposits and gains the third.
\<close>

lemma overwritten_debt:
  assumes fin: "finite (dom m)" and at: "m k = Some x" "m j = Some z" "j \<noteq> k"
    and dead: "\<not> live x'" and live: "live x" "live z" "live y"
    and tok: "s_token x = tok" "s_token z = tok" "s_token y = tok"
    and unpaid: "s_total_withdrawn z = 0" "s_total_withdrawn y = 0"
  shows "msum (owed tok) (m(k \<mapsto> x', j \<mapsto> y))
    = msum (owed tok) m - (s_deposit x - s_total_withdrawn x) - s_deposit z + s_deposit y"
proof -
  have "owed tok x' = 0" using dead by (simp add: owed_def)
  moreover have "owed tok x = s_deposit x - s_total_withdrawn x" "owed tok z = s_deposit z"
    "owed tok y = s_deposit y"
    using live tok unpaid by (simp_all add: owed_def)
  ultimately show ?thesis using fin at by (simp add: msum_update)
qed

text \<open>
  C37: a partial cancellation can destroy another stream. The id it derives is the one a
  creation in the same ledger derives from the cancelled stream's id as its nonce, and it is not
  checked against the stored streams: if the sender created such a stream first, the
  continuation overwrites it, and the deposit of the created stream stays in the contract
  without being owed to anybody.
\<close>

theorem partial_cancel_overwrites:
  assumes run: "runs (step base) (0, genesis w) (T, W0)"
    and now: "T \<le> now" "now \<le> u64_max" "\<not> auth (current_contract base)"
    and tok: "honest_token base (s_token x)"
      "0 \<le> token_balance base (s_token x) (current_contract base) w"
    and x: "p_streams (st W0) k = Some x" "s_status x = Active"
    and create: "create_stream (at base now auth) (s_sender x) (s_recipient x) (s_token x) amount
        d cliff k ar lock art md W0 = Inr (j, W1)" "in_i128 amount" "lock \<le> u64_max"
    and cancel: "partial_cancel_stream (at base now auth) k caller a W1 = Inr (j', W2)"
    and parties: "distinct [s_sender x, s_recipient x, current_contract base]"
  shows "j' = j \<and> (\<exists>z y. p_streams (st W1) j = Some z \<and> s_deposit z = amount \<and> live z \<and>
     p_streams (st W2) j = Some y \<and> s_deposit y < s_deposit x \<and>
     msum (owed (s_token x)) (p_streams (st W2)) + amount
       \<le> token_balance base (s_token x) (current_contract base) (ext W2))"
proof -
  let ?tok = "s_token x" and ?e = "at base now auth"
  have step: "step base (T, W0) (now, W1)"
    by (rule invoked [where auth = auth and r = "RId j" and
          c = "On_stream (Create_stream (s_sender x) (s_recipient x) ?tok amount d cliff k ar lock art md)"])
      (use now create in \<open>simp_all add: call_ok_def reply_with_def\<close>)
  have run1: "runs (step base) (0, genesis w) (now, W1)" by (rule runs_step [OF run step])
  note books = reachable_books [OF run1 tok]
  have solv: "msum (owed ?tok) (p_streams (st W1)) \<le> balance_of base ?tok W1"
    and fin: "finite (dom (p_streams (st W1)))"
    using books by (simp_all add: books_ok_def table_ok_def)
  obtain z where j: "j = derive_stream_id ?e (s_sender x) (s_recipient x) (ledger_timestamp ?e) k"
    and fresh0: "p_streams (st W0) j = None"
    and tab: "p_streams (st W1) = (p_streams (st W0))(j \<mapsto> z)"
    and z: "s_token z = ?tok" "s_deposit z = amount" "s_status z = Active"
      "s_total_withdrawn z = 0"
    by (rule create_stream_files [OF create(1)])
  have jk: "j \<noteq> k" using fresh0 x(1) by auto
  have x1: "p_streams (st W1) k = Some x" using tab jk x(1) by simp
  have z1: "p_streams (st W1) j = Some z" using tab by simp
  have ok: "stream_ok now x" and live: "live x"
    using books_stream [OF books x1] x(2) by (simp_all add: live_def)
  let ?paid = "s_flow_rate x * int (s_last_withdraw_time x - s_start_time x)"
  have tw: "s_total_withdrawn x \<le> ?paid" "0 \<le> ?paid"
    using ok(1) live unfolding stream_ok_def funded_def by (simp_all del: of_nat_diff)
  obtain n dd where n: "n = stream_now ?e x"
    and parts: "0 < a" "0 \<le> s_flow_rate x * int (n - s_last_withdraw_time x)"
      "0 < s_flow_rate x"
      "s_flow_rate x * int (n - s_last_withdraw_time x) + a + dd = s_deposit x - ?paid"
    and j': "j' = derive_stream_id ?e (s_sender x) (s_recipient x) n k"
    and tab2: "p_streams (st W2) = (p_streams (st W1))(k \<mapsto> x\<lparr>s_status := Cancelled\<rparr>,
      j' \<mapsto> continued x j' n dd (dd div s_flow_rate x))"
    and moved: "\<forall>z. token_balance base ?tok z (ext W2) = token_balance base ?tok z (ext W1)
      - (if z = current_contract base
         then s_flow_rate x * int (n - s_last_withdraw_time x) + a else 0)
      + (if z = s_recipient x then s_flow_rate x * int (n - s_last_withdraw_time x) else 0)
      + (if z = s_sender x then a else 0)"
    by (rule reachable_partial_cancel [OF run1 order_refl tok x1 cancel]) simp
  note moved = moved [rule_format]
  have jj: "j' = j" using n j j' x(2) by (simp add: stream_now_def)
  define y where "y = continued x j n dd (dd div s_flow_rate x)"
  note tab2 = tab2 [unfolded jj, folded y_def]
  have bal: "balance_of base ?tok W2 = balance_of base ?tok W1
      - (s_flow_rate x * int (n - s_last_withdraw_time x) + a)"
    using moved [of "current_contract base"] parties by (auto simp: balance_of_def)
  have "s_deposit y = dd" by (simp add: y_def)
  note parts = parts [folded this] bal
  have "msum (owed ?tok) (p_streams (st W2)) = msum (owed ?tok) (p_streams (st W1))
      - (s_deposit x - s_total_withdrawn x) - s_deposit z + s_deposit y"
    unfolding tab2 by (rule overwritten_debt [OF fin x1 z1 jk])
      (use live z in \<open>simp_all add: live_def y_def\<close>)
  then have "msum (owed ?tok) (p_streams (st W2)) + amount \<le> balance_of base ?tok W2"
    using solv parts tw z(2) by linarith
  moreover have "s_deposit y < s_deposit x" using parts tw(2) by linarith
  moreover have "live z" by (simp add: live_def z)
  ultimately show ?thesis
    using jj z1 tab2 by (intro conjI exI [of _ z] exI [of _ y]) (simp_all add: balance_of_def z)
qed

text \<open>
  The reference ledger with another digest (the identity ignores the nonce): ids are then the
  reversed octets of the nonce.
\<close>

definition rev_base :: "ledger env" where
  "rev_base = demo_base\<lparr>sha256 := rev\<rparr>"

lemma rev_base_simps [simp]:
  "current_contract rev_base = Addr 0" "token_balance rev_base tok a w = w tok a"
  "honest_token rev_base tok" "token_transfer rev_base = ledger_transfer"
  using demo_base_honest [of tok]
  by (simp_all add: rev_base_def demo_base_def honest_token_def sac_def isolated_def)

definition rev_ledger :: ledger where
  "rev_ledger = (\<lambda>_ a. if a = Addr 1 then 20000 else 0)"

lemma rev_base_id:
  "derive_stream_id (at rev_base now auth) (Addr a) (Addr b) t 5 = 360287970189639680"
  "derive_stream_id (at rev_base now auth) (Addr a) (Addr b) t 360287970189639680 = 5"
proof -
  have "[0..<8] = [0, 1, 2, 3, 4, 5, 6, 7::nat]" by (simp add: upt_rec)
  then show "derive_stream_id (at rev_base now auth) (Addr a) (Addr b) t 5 = 360287970189639680"
    "derive_stream_id (at rev_base now auth) (Addr a) (Addr b) t 360287970189639680 = 5"
    by (simp_all add: derive_stream_id_def to_be_bytes_def from_be_bytes_def at_def rev_base_def
        demo_base_def ledger_env_def)
qed

theorem partial_cancel_overwrites_witness:
  "\<exists>W0 W1 W2 z. runs (step rev_base) (0, genesis rev_ledger) (100, W0) \<and>
     create_stream (at rev_base 1100 (\<lambda>a. a = Addr 1)) (Addr 1) (Addr 2) (Addr 9) 10800 3600 0
       360287970189639680 False 0 True [] W0 = Inr (5, W1) \<and>
     partial_cancel_stream (at rev_base 1100 (\<lambda>a. a = Addr 1)) 360287970189639680 (Addr 1) 3000 W1
       = Inr (5, W2) \<and>
     p_streams (st W1) 5 = Some z \<and> s_deposit z = 10800 \<and>
     msum (owed (Addr 9)) (p_streams (st W2)) + 10800
       \<le> token_balance rev_base (Addr 9) (Addr 0) (ext W2)"
proof -
  let ?k = "360287970189639680 :: nat" and ?e = "at rev_base 1100 (\<lambda>a. a = Addr 1)"
  let ?x = "demo_stream\<lparr>s_id := ?k\<rparr>"
  let ?call = "On_stream (Create_stream (Addr 1) (Addr 2) (Addr 9) 7200 3600 60 5 False 0 True [])"
  obtain r W0 where W0: "exec (at rev_base 100 (\<lambda>a. a = Addr 1)) ?call (genesis rev_ledger)
      = Inr (r, W0)" and x: "p_streams (st W0) = [?k \<mapsto> ?x]"
    and e: "ext W0 = (\<lambda>t a. if t = Addr 9 \<and> a = Addr 0 then 7200
                    else if t = Addr 9 \<and> a = Addr 1 then 12800
                    else if a = Addr 1 then 20000 else 0)"
    and d: "get_sender_stream_count (st W0) (Addr 1) = 1"
      "get_recipient_stream_count (st W0) (Addr 2) = 1" "get_global_stream_count (st W0) = 1"
      "i_paused (st W0) = None" "p_n (st W0) (Addr 1) ?k = None" "i_min_dur (st W0) = None"
      "i_max_str (st W0) = None" "p_sl (st W0) = Map.empty" "i_cf_xlm (st W0) = None"
      "i_wl_en (st W0) = None"
    by (simp add: create_stream_def eval_simps rev_base_id rev_ledger_def demo_stream_def
        fun_eq_iff del: at_def)
  have "step rev_base (0, genesis rev_ledger) (100, W0)"
    by (rule invoked [OF _ _ _ _ W0]) (simp_all add: u64_max_def call_ok_def in_i128_def
        i128_max_def i128_min_def)
  then have run: "runs (step rev_base) (0, genesis rev_ledger) (100, W0)"
    by (rule runs_step [OF runs_refl])
  let ?z = "\<lparr>s_id = 5, s_sender = Addr 1, s_recipient = Addr 2, s_token = Addr 9,
      s_deposit = 10800, s_flow_rate = 3, s_start_time = 1100, s_cliff_time = 1100,
      s_lock_until = 0, s_end_time = 4700, s_last_withdraw_time = 1100, s_status = Active,
      s_auto_renew = False, s_allow_recipient_termination = True, s_last_pause_time = 0,
      s_total_withdrawn = 0, s_metadata = []\<rparr>"
  obtain W1 where create: "create_stream ?e (Addr 1) (Addr 2) (Addr 9) 10800 3600 0 ?k False 0 True
      [] W0 = Inr (5, W1)" and x1: "p_streams (st W1) = [?k \<mapsto> ?x, 5 \<mapsto> ?z]"
    and e1: "ext W1 = (\<lambda>t a. if t = Addr 9 \<and> a = Addr 0 then 18000
                    else if t = Addr 9 \<and> a = Addr 1 then 2000
                    else if a = Addr 1 then 20000 else 0)"
    and d1: "get_sender_stream_count (st W1) (Addr 1) = 2"
      "get_recipient_stream_count (st W1) (Addr 2) = 2" "get_global_stream_count (st W1) = 2"
    using d by (simp add: create_stream_def eval_simps rev_base_id x e fun_eq_iff del: at_def)
  obtain W2 where cancel: "partial_cancel_stream ?e ?k (Addr 1) 3000 W1 = Inr (5, W2)"
    using d1 by (simp add: partial_cancel_stream_def eval_simps x1 e1 rev_base_id demo_stream_def
        may_manage_def live_def stream_now_def checked_flow_amount_def clamp_i128_def del: at_def)
  have x': "p_streams (st W0) ?k = Some ?x" "s_status ?x = Active"
    by (simp_all add: x demo_stream_def)
  have s: "s_sender ?x = Addr 1" "s_recipient ?x = Addr 2" "s_token ?x = Addr 9"
    by (simp_all add: demo_stream_def)
  have pre: "(100::nat) \<le> 1100" "(1100::nat) \<le> u64_max" "\<not> (current_contract rev_base = Addr 1)"
    "honest_token rev_base (Addr 9)"
    "0 \<le> token_balance rev_base (Addr 9) (current_contract rev_base) rev_ledger"
    "in_i128 10800" "(0::nat) \<le> u64_max"
    "distinct [Addr 1, Addr 2, current_contract rev_base]"
    by (simp_all add: u64_max_def rev_ledger_def in_i128_def i128_max_def i128_min_def)
  from partial_cancel_overwrites [OF run pre(1,2) _ _ _ x', unfolded s, OF pre(3-5) create pre(6,7)
      cancel pre(8)]
  obtain z' where "p_streams (st W1) 5 = Some z'" "s_deposit z' = 10800"
    "msum (owed (Addr 9)) (p_streams (st W2)) + 10800
       \<le> token_balance rev_base (Addr 9) (Addr 0) (ext W2)"
    by auto
  with run create cancel show ?thesis by blast
qed

end
