(* ===== verification/Read_Only.thy ===== *)
theory Read_Only
  imports Index_Consistency Access
begin

text \<open>
  The read-only entry points always return: in every reachable state no query panics, what a
  query can answer besides a value is only that the stream or the setting it asks for is not
  there, the claimable amount lies within what the stream is owed, and the statistics count the
  stored streams. This needs that the audit log is a well-formed ring buffer in every run, which
  is shown first.
\<close>

section \<open>The audit log in every run\<close>

definition logged :: "storage \<Rightarrow> bool" where
  "logged s \<longleftrightarrow> (\<exists>hist. audit_rel hist s)"

lemma logged_audit: "audit_of s' = audit_of s \<Longrightarrow> logged s \<Longrightarrow> logged s'"
  by (simp add: logged_def audit_rel_def audit_of_def)

lemma logged_settings: "settings s' = settings s \<Longrightarrow> logged s \<Longrightarrow> logged s'"
  by (rule logged_audit [of s' s]) (simp_all add: settings_def audit_of_def)

lemma log_step_logged:
  assumes "log_step s s'" "logged s"
  shows "logged s'"
  using assms(1) unfolding log_step_def
proof (elim disjE exE conjE)
  assume "audit_of s' = audit_of s"
  from logged_audit [OF this assms(2)] show ?thesis .
next
  fix e t t'
  assume t: "audit_of t = audit_of s" and s': "audit_of s' = audit_of t'"
    and app: "append_audit_entry e t = (Inr t' :: (stream_error, storage) outcome)"
  from logged_audit [OF t assms(2)] obtain h where "audit_rel h t"
    unfolding logged_def by blast
  from append_audit_entry_rel [OF this, of e, where ?'a = stream_error] app
  have "audit_rel (h @ [e]) t'" by auto
  then have "logged t'" unfolding logged_def by blast
  with logged_audit [OF s'] show ?thesis by blast
qed

lemma evolves_logged: "evolves env D s s' \<Longrightarrow> logged s \<Longrightarrow> logged s'"
proof (induction rule: evolves.induct)
  case (keep s' s)
  show ?case by (rule logged_settings [OF _ keep(2)]) (use keep(1) in \<open>simp add: frame_def\<close>)
next
  case (noted s' s)
  from logged_settings [OF noted(2,5)] show ?case .
next
  case (ruled s' s)
  from log_step_logged [OF ruled(5,6)] show ?case .
next
  case (delegated s k d)
  show ?case by (rule logged_settings [OF _ delegated(2)]) (simp add: settings_def)
next
  case (saved s k x y)
  show ?case by (rule logged_settings [OF _ saved(6)]) simp
next
  case (opened s y s')
  from logged_settings [OF register_stream_settings [OF opened(3)]] opened show ?case by simp
next
  case (closed s k x y)
  show ?case by (rule logged_settings [OF _ closed(5)]) simp
next
  case (moved s j z y b s')
  have "settings s' = settings (unindex_by_recipient (s_recipient z) j (save_stream y s))"
    using moved(6) by (auto simp: index_by_recipient_Inr settings_def)
  then have "settings s' = settings s" by simp
  from logged_settings [OF this moved(7)] show ?case .
next
  case (andthen s t u)
  then show ?case by simp
qed

lemma exec_logged:
  assumes "exec env c W = Inr (r, W')" "filed (st W)" "logged (st W)"
  shows "logged (st W')"
proof (cases "overwrites c r (st W)")
  case False
  from evolves_logged [OF exec_evolves [OF assms(1,2) False] assms(3)] show ?thesis .
next
  case True
  then obtain k a n k' where "c = On_stream (Partial_cancel_stream k a n)" "r = RId k'"
    by (auto simp: overwrites_def)
  with assms(1) have "partial_cancel_stream env k a n W = Inr (k', W')"
    by (auto simp: reply_with_Inr)
  from logged_settings [OF overwriting_settings [OF this assms(2)] assms(3)] show ?thesis .
qed

interpretation logging: machine_invariant "step base"
  "\<lambda>s. filed (st (snd s)) \<and> logged (st (snd s))" for base
proof unfold_locales
  fix s t :: "nat \<times> 'a world"
  assume "filed (st (snd s)) \<and> logged (st (snd s))" "step base s t"
  from this(2,1) show "filed (st (snd t)) \<and> logged (st (snd t))"
    by (cases rule: step_cases) (auto dest: exec_filed exec_logged)
qed

lemma genesis_logged: "filed (st (genesis w))" "logged (st (genesis w))"
  using audit_rel_empty by (auto simp: filed_def empty_storage_def logged_def)

lemma reachable_logged: "runs (step base) (0, genesis w) (T, W) \<Longrightarrow> logged (st W)"
  using logging.runs_inv [of base "(0, genesis w)" "(T, W)"] genesis_logged by simp

section \<open>Statistics\<close>

text \<open>The streams the loop of \<open>get_stats\<close> counts, in the order of the global index.\<close>

definition stored_at :: "storage \<Rightarrow> nat \<Rightarrow> stream option" where
  "stored_at s i = Option.bind (get_global_stream_at s i) (load_stream s)"

definition counted :: "storage \<Rightarrow> stream list" where
  "counted s = List.map_filter (stored_at s) [0..<get_global_stream_count s]"

definition stats_of :: "stats \<Rightarrow> stream list \<Rightarrow> stats" where
  "stats_of acc xs =
     \<lparr>total_streams = total_streams acc + length xs,
      active_streams = active_streams acc + length (filter (\<lambda>x. s_status x = Active) xs),
      total_volume = foldl saturating_add_i128 (total_volume acc) (map s_deposit xs)\<rparr>"

definition stats_step :: "stats \<Rightarrow> stream \<Rightarrow> stats" where
  "stats_step acc x =
     \<lparr>total_streams = total_streams acc + 1,
      active_streams = active_streams acc + (if s_status x = Active then 1 else 0),
      total_volume = saturating_add_i128 (total_volume acc) (s_deposit x)\<rparr>"

lemma stats_loop_Cons:
  assumes "active_streams acc \<le> total_streams acc" "total_streams acc < u64_max"
  shows "stats_loop s (i # rest) acc
    = stats_loop s rest (case stored_at s i of None \<Rightarrow> acc | Some x \<Rightarrow> stats_step acc x)"
  using assms by (simp add: stored_at_def add_u64_def Let_def stats_step_def split: option.split)

lemma stats_of_Cons: "stats_of acc (x # xs) = stats_of (stats_step acc x) xs"
  by (simp add: stats_of_def stats_step_def)

lemma stats_loop_eq:
  assumes "active_streams acc \<le> total_streams acc" "total_streams acc + length is \<le> u64_max"
  shows "stats_loop s is acc = Inr (stats_of acc (List.map_filter (stored_at s) is))"
  using assms
proof (induction "is" arbitrary: acc)
  case Nil
  then show ?case by (simp add: stats_of_def map_filter_simps)
next
  case (Cons i rest)
  then have loop: "stats_loop s (i # rest) acc
      = stats_loop s rest (case stored_at s i of None \<Rightarrow> acc | Some x \<Rightarrow> stats_step acc x)"
    by (intro stats_loop_Cons) simp_all
  show ?case
  proof (cases "stored_at s i")
    case None
    have "active_streams acc \<le> total_streams acc" "total_streams acc + length rest \<le> u64_max"
      using Cons.prems by simp_all
    from Cons.IH [OF this] None show ?thesis unfolding loop by (simp add: map_filter_simps)
  next
    case (Some x)
    have "active_streams (stats_step acc x) \<le> total_streams (stats_step acc x)"
      "total_streams (stats_step acc x) + length rest \<le> u64_max"
      using Cons.prems by (simp_all add: stats_step_def)
    from Cons.IH [OF this] Some show ?thesis
      unfolding loop by (simp add: map_filter_simps stats_of_Cons)
  qed
qed

lemma get_stats_counts:
  assumes "get_global_stream_count (st W) \<le> u32_max"
  shows "get_stats W = Inr (stats_of \<lparr>total_streams = 0, active_streams = 0, total_volume = 0\<rparr>
                              (counted (st W)))"
proof -
  have "get_global_stream_count (st W) \<le> u64_max"
    using assms by (simp add: u32_max_def u64_max_def)
  then show ?thesis by (simp add: get_stats_def Let_def stats_loop_eq counted_def)
qed

lemma counted_set:
  assumes "global_covers s"
  shows "set (counted s) = {x. \<exists>k. p_streams s k = Some x}"
proof -
  have "x \<in> set (counted s)" if x: "p_streams s k = Some x" for k x
  proof -
    from assms x obtain i where "i < get_global_stream_count s" "get_global_stream_at s i = Some k"
      by (auto simp: global_covers_def)
    with x show ?thesis
      by (auto simp: counted_def map_filter_def stored_at_def load_stream_def intro!: image_eqI
          [where x = i])
  qed
  moreover have "\<exists>k. p_streams s k = Some x" if "x \<in> set (counted s)" for x
    using that by (auto simp: counted_def map_filter_def stored_at_def load_stream_def
        bind_eq_Some_conv)
  ultimately show ?thesis by blast
qed

lemma counted_dom:
  assumes "global_covers s" "filed s"
  shows "card (dom (p_streams s)) \<le> length (counted s)"
proof -
  have "dom (p_streams s) \<subseteq> s_id ` set (counted s)"
    using assms by (auto simp: counted_set filed_def image_iff)
  then have "card (dom (p_streams s)) \<le> card (s_id ` set (counted s))"
    by (intro card_mono) simp_all
  also have "\<dots> \<le> length (counted s)"
    using card_image_le [OF finite_set, of s_id "counted s"] card_length [of "counted s"] by linarith
  finally show ?thesis .
qed

section \<open>Claims\<close>

lemma get_claimable_returns:
  assumes x: "p_streams (st W) k = Some x" and ok: "stream_ok T x"
  shows "\<exists>c. get_claimable env W k = Inr c \<and> 0 \<le> c \<and>
     (live x \<longrightarrow> c \<le> s_deposit x) \<and> (\<not> live x \<longrightarrow> c = 0)"
proof (cases "live x")
  case False
  then show ?thesis
    using x by (simp add: get_claimable_def find_stream_def load_stream_def)
next
  case True
  then have f: "0 \<le> s_flow_rate x"
    "s_flow_rate x * int (s_end_time x - s_start_time x) \<le> s_deposit x"
    "in_i128 (s_deposit x)" "s_start_time x \<le> s_last_withdraw_time x"
    using ok by (auto simp: stream_ok_def funded_def typed_def)
  note e = earned_total [OF f, of "stream_now env x"]
  define c where "c = s_flow_rate x * int (min (stream_now env x) (s_end_time x)
      - s_last_withdraw_time x)"
  have c: "0 \<le> c" "c \<le> s_deposit x" using e(2) f(1) by (simp_all add: c_def del: of_nat_diff)
  have "get_claimable env W k = Inr (if stream_now env x < s_cliff_time x then 0 else c)"
    using True x e(1)
    by (simp add: get_claimable_def find_stream_def load_stream_def compute_claimable_eq
        c_def Let_def)
  with c True show ?thesis by auto
qed

section \<open>Every query returns\<close>

lemma answered_Inr [simp]: "answered f (Inr a) = Inr (f a)"
  and answered_Inl [simp]: "answered f (Inl e) = Inl e"
  by (simp_all add: answered_def)

text \<open>What a query can answer in a state that keeps the invariants.\<close>

lemma ask_stream_returns:
  assumes "\<And>j x. p_streams (st W) j = Some x \<Longrightarrow> \<exists>c. get_claimable env W j = Inr c"
  shows "(\<exists>r. ask_stream env q W = Inr r) \<or> ask_stream env q W = Inl (Err StreamNotFound)"
proof (cases q)
  case (Get_claimable j)
  then show ?thesis
    using assms [of j]
    by (cases "p_streams (st W) j") (auto simp: get_claimable_def find_stream_def load_stream_def)
next
  case (Get_stream j)
  then show ?thesis by (cases "p_streams (st W) j") (auto simp: get_stream_def load_stream_def)
next
  case (Is_participant j a)
  then show ?thesis
    by (cases "p_streams (st W) j") (auto simp: is_participant_def find_stream_def load_stream_def)
qed simp_all

lemma ask_contract_returns:
  assumes "get_admin_log W = Inr log" "get_stats W = Inr stats"
  shows "(\<exists>r. ask_contract p W = Inr r) \<or> ask_contract p W = Inl (Err NotInitialized)"
proof (cases p)
  case Get_admin
  then show ?thesis by (cases "read_admin (st W)") (simp_all add: get_admin_def)
next
  case Get_version
  then show ?thesis by (cases "read_version (st W)") (simp_all add: get_version_def)
qed (simp_all add: assms get_protocol_fee_info_def)

lemma logged_read:
  assumes "logged (st W)"
  shows "\<exists>log. get_admin_log W = Inr log \<and> length log \<le> 20"
proof -
  obtain hist where "audit_rel hist (st W)" using assms by (auto simp: logged_def)
  from read_audit_log_rel [OF this, where ?'a = stream_error] show ?thesis
    by (intro exI [of _ "drop (length hist - 20) hist"]) (simp add: get_admin_log_def AUDIT_CAP_def)
qed

lemma get_stats_exact:
  assumes "global_covers (st W)" "filed (st W)"
  shows "\<exists>stats. get_stats W = Inr stats \<and>
     total_streams stats = length (counted (st W)) \<and>
     active_streams stats = length (filter (\<lambda>x. s_status x = Active) (counted (st W))) \<and>
     total_volume stats = foldl saturating_add_i128 0 (map s_deposit (counted (st W))) \<and>
     set (counted (st W)) = {x. \<exists>k. p_streams (st W) k = Some x} \<and>
     card (dom (p_streams (st W))) \<le> total_streams stats \<and>
     total_streams stats \<le> get_global_stream_count (st W)"
proof -
  have "length (counted (st W)) \<le> get_global_stream_count (st W)"
    using length_filter_le [of _ "[0..<get_global_stream_count (st W)]"]
    by (simp add: counted_def map_filter_def)
  with counted_dom [OF assms] counted_set [OF assms(1)] get_stats_counts [of W] assms(1)
  show ?thesis by (simp add: global_covers_def stats_of_def)
qed

text \<open>
  C23: the read-only entry points return in every reachable state, at any ledger time, as long as
  there is one honest token for which the books are kept: a query about streams gives a value or \<open>StreamNotFound\<close>, a query about the contract gives a
  value or \<open>NotInitialized\<close>, and none panics or overflows. For a stored stream the claimable
  amount is between zero and the deposit, and zero for a closed one; the audit log is at most
  twenty entries. The statistics are exact: they count the positions of the global index whose
  stream is stored, those of them whose stream is active, and add up their deposits (with
  saturation); every stored stream is among them, in every run. (A stored stream is counted once
  for each time its id was registered, which is once unless an id was derived twice.)
\<close>

theorem queries_return:
  assumes run: "runs (step base) (0, genesis w) (T, W)"
    and token: "honest_token base tok" "0 \<le> token_balance base tok (current_contract base) w"
  shows "((\<exists>r. ask_stream (at base now auth) q W = Inr r) \<or>
          ask_stream (at base now auth) q W = Inl (Err StreamNotFound)) \<and>
         ((\<exists>r. ask_contract p W = Inr r) \<or> ask_contract p W = Inl (Err NotInitialized)) \<and>
         (\<forall>x. p_streams (st W) k = Some x \<longrightarrow>
            (\<exists>c. ask_stream (at base now auth) (Get_claimable k) W = Inr (AAmount c) \<and>
               0 \<le> c \<and> (live x \<longrightarrow> c \<le> s_deposit x) \<and> (\<not> live x \<longrightarrow> c = 0))) \<and>
         (\<exists>log. ask_contract Get_admin_log W = Inr (AEntries log) \<and> length log \<le> 20) \<and>
         (\<exists>stats. ask_contract Get_stats W = Inr (AStats stats) \<and>
            total_streams stats = length (counted (st W)) \<and>
            active_streams stats = length (filter (\<lambda>x. s_status x = Active) (counted (st W))) \<and>
            total_volume stats = foldl saturating_add_i128 0 (map s_deposit (counted (st W))) \<and>
            set (counted (st W)) = {x. \<exists>k. p_streams (st W) k = Some x} \<and>
            card (dom (p_streams (st W))) \<le> total_streams stats \<and>
            total_streams stats \<le> get_global_stream_count (st W))"
proof -
  note stats = get_stats_exact [OF reachable_global [OF run] reachable_filed [OF run]]
  note log = logged_read [OF reachable_logged [OF run]]
  have claim: "\<exists>c. get_claimable (at base now auth) W j = Inr c \<and> 0 \<le> c \<and>
      (live x \<longrightarrow> c \<le> s_deposit x) \<and> (\<not> live x \<longrightarrow> c = 0)"
    if x: "p_streams (st W) j = Some x" for j x
  proof -
    have "stream_ok T x"
      using books_stream [OF reachable_books [OF run token] x] by simp
    from get_claimable_returns [OF x this] show ?thesis .
  qed
  have "(\<exists>r. ask_stream (at base now auth) q W = Inr r) \<or>
      ask_stream (at base now auth) q W = Inl (Err StreamNotFound)"
    by (rule ask_stream_returns) (use claim in blast)
  moreover obtain es stats' where "get_admin_log W = Inr es" "get_stats W = Inr stats'"
    using log stats by blast
  note ask_contract_returns [OF this, of p]
  ultimately show ?thesis using claim [of k] log stats by auto
qed

theorem queries_return_witness:
  "\<exists>W. runs (step demo_base) (0, genesis demo_ledger) (100, W) \<and>
     (\<exists>c. ask_stream (at demo_base 1100 (\<lambda>_. False)) (Get_claimable 72620543991349248) W
            = Inr (AAmount c) \<and> 0 \<le> c \<and> c \<le> 7200) \<and>
     (\<exists>stats. ask_contract Get_stats W = Inr (AStats stats) \<and> 1 \<le> total_streams stats)"
proof -
  obtain W where run: "runs (step demo_base) (0, genesis demo_ledger) (100, W)"
    and x: "p_streams (st W) = [72620543991349248 \<mapsto> demo_stream]"
    by (rule demo_run)
  have one: "card (dom (p_streams (st W))) = 1" by (simp add: x)
  have "live demo_stream" "s_deposit demo_stream = 7200"
    by (simp_all add: live_def demo_stream_def)
  with queries_return [OF run demo_base_honest [of "Addr 9"] demo_ledger_nonneg, of 1100
      "\<lambda>_. False" "Get_nonce (Addr 1)" Get_guardian 72620543991349248] x
  show ?thesis unfolding one by (intro exI [of _ W]) (auto simp: run)
qed

end
