(* ===== verification/Batches.thy ===== *)
theory Batches
  imports Access
begin

text \<open>
  What the batch instructions do as a whole: a batch creation files one stream per position,
  under fresh and different ids, within the sender's limit; a batch cancellation
  does what cancelling one by one does, except that it ignores pauses and delegates.
\<close>

section \<open>Batch creation\<close>

text \<open>The stream that the second loop files for one item.\<close>

definition batch_stream ::
    "address \<Rightarrow> nat \<Rightarrow> nat \<Rightarrow> nat \<Rightarrow> bool \<Rightarrow> (nat \<times> address \<times> int) \<times> (address \<times> nat) \<Rightarrow> stream" where
  "batch_stream sender now end_time d ar item =
     (case item of ((k, r, a), (token, lock)) \<Rightarrow>
        \<lparr>s_id = k, s_sender = sender, s_recipient = r, s_token = token, s_deposit = a,
         s_flow_rate = a sdiv int d, s_start_time = now, s_cliff_time = now,
         s_lock_until = lock, s_end_time = end_time, s_last_withdraw_time = now,
         s_status = Active, s_auto_renew = ar, s_allow_recipient_termination = False,
         s_last_pause_time = 0, s_total_withdrawn = 0, s_metadata = []\<rparr>)"

lemma batch_stream_fields [simp]:
  "s_id (batch_stream sender now e d ar ((k, r, a), t, l)) = k"
  "s_sender (batch_stream sender now e d ar ((k, r, a), t, l)) = sender"
  "s_recipient (batch_stream sender now e d ar ((k, r, a), t, l)) = r"
  by (simp_all add: batch_stream_def)

lemma batch_create_loop_step:
  assumes "batch_create_loop env sender now end_time d ar (item # rest) out W = Inr (out', W')"
  obtains W1 where "p_streams (st W1)
      = (p_streams (st W))(fst (fst item) \<mapsto> batch_stream sender now end_time d ar item)"
    "get_sender_stream_count (st W1) sender = get_sender_stream_count (st W) sender + 1"
    "nonces (st W1) = nonces (st W)"
    "batch_create_loop env sender now end_time d ar rest (out @ [fst (fst item)]) W1
      = Inr (out', W')"
proof -
  obtain k r a t l where item: "item = ((k, r, a), t, l)" by (metis surj_pair)
  from assms obtain f W1 s where f: "div_i128 a (int d) = (Inr f :: (stream_error, int) outcome)"
    and W1: "transfer env t sender (current_contract env) a W
        = (Inr W1 :: (stream_error, _) outcome)"
    and s: "register_stream \<lparr>s_id = k, s_sender = sender, s_recipient = r,
                   s_token = t, s_deposit = a, s_flow_rate = f,
                   s_start_time = now, s_cliff_time = now, s_lock_until = l,
                   s_end_time = end_time, s_last_withdraw_time = now, s_status = Active,
                   s_auto_renew = ar, s_allow_recipient_termination = False,
                   s_last_pause_time = 0, s_total_withdrawn = 0, s_metadata = []\<rparr> (st W1) = Inr s"
    and rest: "batch_create_loop env sender now end_time d ar rest (out @ [k])
        (publish (ev_stream_created k sender r a f end_time) (W1\<lparr>st := s\<rparr>)) = Inr (out', W')"
    by (auto simp: item Let_def bindE_eq_Inr)
  have "f = a sdiv int d" using f by (auto simp: div_i128_def split: if_splits)
  with register_stream_streams [OF s] register_stream_index(1) [OF s]
    register_stream_nonces [OF s] transfer_st [OF W1] rest show thesis
    by (intro that) (simp_all add: item batch_stream_def)
qed

lemma batch_create_loop_effect:
  assumes "batch_create_loop env sender now end_time d ar items out W = Inr (out', W')"
    and "distinct (map (fst \<circ> fst) items)"
  shows "out' = out @ map (fst \<circ> fst) items" "nonces (st W') = nonces (st W)"
    "get_sender_stream_count (st W') sender
       = get_sender_stream_count (st W) sender + length items"
    "item \<in> set items \<Longrightarrow>
       p_streams (st W') (fst (fst item)) = Some (batch_stream sender now end_time d ar item)"
    "k \<notin> set (map (fst \<circ> fst) items) \<Longrightarrow> p_streams (st W') k = p_streams (st W) k"
proof -
  have "out' = out @ map (fst \<circ> fst) items \<and> nonces (st W') = nonces (st W) \<and>
    get_sender_stream_count (st W') sender
       = get_sender_stream_count (st W) sender + length items \<and>
    (\<forall>item \<in> set items. p_streams (st W') (fst (fst item))
       = Some (batch_stream sender now end_time d ar item)) \<and>
    (\<forall>k. k \<notin> set (map (fst \<circ> fst) items) \<longrightarrow> p_streams (st W') k = p_streams (st W) k)"
    using assms
  proof (induction items arbitrary: out W)
    case Nil
    then show ?case by simp
  next
    case (Cons item rest)
    obtain W1 where tab: "p_streams (st W1)
        = (p_streams (st W))(fst (fst item) \<mapsto> batch_stream sender now end_time d ar item)"
      and cnt: "get_sender_stream_count (st W1) sender = get_sender_stream_count (st W) sender + 1"
        "nonces (st W1) = nonces (st W)"
      and rest: "batch_create_loop env sender now end_time d ar rest (out @ [fst (fst item)]) W1
        = Inr (out', W')"
      by (rule batch_create_loop_step [OF Cons.prems(1)])
    have d: "distinct (map (fst \<circ> fst) rest)" "fst (fst item) \<notin> set (map (fst \<circ> fst) rest)"
      using Cons.prems(2) by (simp_all add: comp_def)
    from Cons.IH [OF rest d(1)] d(2) tab cnt show ?case by simp
  qed
  then show "out' = out @ map (fst \<circ> fst) items" "nonces (st W') = nonces (st W)"
    "get_sender_stream_count (st W') sender
       = get_sender_stream_count (st W) sender + length items"
    "item \<in> set items \<Longrightarrow>
       p_streams (st W') (fst (fst item)) = Some (batch_stream sender now end_time d ar item)"
    "k \<notin> set (map (fst \<circ> fst) items) \<Longrightarrow> p_streams (st W') k = p_streams (st W) k"
    by blast+
qed

text \<open>What the pre-pass guarantees of an item makes its stream the documented one.\<close>

lemma batch_stream_rate:
  assumes "batch_item_ok d (r, a)" "0 < d"
  shows "a sdiv int d = a div int d" "0 < a div int d"
proof -
  from assms have a: "0 < a" and f: "\<exists>f. div_i128 a (int d)
      = (Inr f :: (stream_error, int) outcome) \<and> f \<noteq> 0"
    by (auto simp: batch_item_ok_def)
  from f a assms(2) have q: "a sdiv int d = a div int d" "a div int d \<noteq> 0"
    by (auto simp: div_i128_def signed_divide_int_def sgn_if split: if_splits)
  moreover have "0 \<le> a div int d" using a assms(2) by (simp add: pos_imp_zdiv_nonneg_iff)
  ultimately show "a sdiv int d = a div int d" "0 < a div int d" by linarith+
qed

text \<open>The nonce step of a batch and what it leaves alone.\<close>

lemma batch_nonce_frame:
  assumes "when_not_paused env W0 = Inr W"
    and "increment_batch_nonce sender (st W) = (Inr s :: (stream_error, _) outcome)"
  shows "p_streams s = p_streams (st W0)"
    "get_sender_stream_count s = get_sender_stream_count (st W0)"
    "effective_sender_limit s = effective_sender_limit (st W0)"
    "get_batch_nonce s sender = get_batch_nonce (st W0) sender + 1"
  using when_not_paused_frame(3) [OF assms(1)] assms(2)
  by (auto simp: increment_batch_nonce_Inr fun_eq_iff get_sender_stream_count_def handler
      get_batch_nonce_def split: option.split)

text \<open>The stream at a position of a batch, once every item is filed.\<close>

lemma batch_item_filed:
  assumes stored: "\<And>item. item \<in> set (zip (zip ids (zip rs as)) (zip ts ls)) \<Longrightarrow>
      m (fst (fst item)) = Some (batch_stream sender now (now + d) d ar item)"
    and ok: "\<forall>item \<in> set (zip rs as). batch_item_ok d item" and d: "0 < d"
    and len: "length rs = length as" "length rs = length ls" "length rs = length ts"
      "length ids = length rs"
    and i: "i < length rs"
  shows "\<exists>x. m (ids ! i) = Some x \<and> s_id x = ids ! i \<and>
        s_sender x = sender \<and> s_recipient x = rs ! i \<and> s_deposit x = as ! i \<and>
        s_token x = ts ! i \<and> s_lock_until x = ls ! i \<and> s_flow_rate x = as ! i div int d \<and>
        0 < s_flow_rate x \<and> s_start_time x = now \<and> s_end_time x = now + d \<and>
        s_status x = Active \<and> s_total_withdrawn x = 0"
proof -
  let ?item = "((ids ! i, rs ! i, as ! i), ts ! i, ls ! i)"
  have mem: "?item \<in> set (zip (zip ids (zip rs as)) (zip ts ls))"
    using i len by (auto simp: set_zip intro!: exI [of _ i])
  have "(rs ! i, as ! i) \<in> set (zip rs as)" using i len by (auto simp: set_zip)
  with ok have "batch_item_ok d (rs ! i, as ! i)" by blast
  note q = batch_stream_rate [OF this d]
  with stored [OF mem] show ?thesis by (simp add: batch_stream_def)
qed

text \<open>
  C20: a batch creation that succeeds files one stream per position, in order, under ids that
  are all different and were all free, each with the recipient, amount, token and lock of its
  position and a positive floored rate; it files nothing else, raises the sender's count by the
  size of the batch and not above the limit, and advances the batch nonce by one.
\<close>

theorem batch_create_effect:
  assumes op: "batch_create_stream env sender rs as ts d ar ls nonce W0 = Inr (out, W')"
  shows "length out = length rs \<and> distinct out \<and>
     (\<forall>k \<in> set out. p_streams (st W0) k = None) \<and>
     (\<forall>i < length rs. \<exists>x. p_streams (st W') (out ! i) = Some x \<and> s_id x = out ! i \<and>
        s_sender x = sender \<and> s_recipient x = rs ! i \<and> s_deposit x = as ! i \<and>
        s_token x = ts ! i \<and> s_lock_until x = ls ! i \<and> s_flow_rate x = as ! i div int d \<and>
        0 < s_flow_rate x \<and> s_start_time x = ledger_timestamp env \<and>
        s_end_time x = ledger_timestamp env + d \<and> s_status x = Active \<and>
        s_total_withdrawn x = 0) \<and>
     (\<forall>k. k \<notin> set out \<longrightarrow> p_streams (st W') k = p_streams (st W0) k) \<and>
     get_sender_stream_count (st W') sender
       = get_sender_stream_count (st W0) sender + length rs \<and>
     get_sender_stream_count (st W') sender \<le> effective_sender_limit (st W0) sender \<and>
     get_nonce W' sender = get_nonce W0 sender + 1"
proof -
  let ?now = "ledger_timestamp env"
  obtain W s ids where W: "when_not_paused env W0 = Inr W"
    and s: "increment_batch_nonce sender (st W) = (Inr s :: (stream_error, _) outcome)"
    and len: "length rs = length as" "length rs = length ls" "length rs = length ts"
    and d: "0 < d"
    and limit: "get_sender_stream_count s sender + length rs \<le> effective_sender_limit s sender"
    and pre: "batch_prepass env s sender ?now d 0 (zip rs as) [] = Inr ids"
    and loop: "batch_create_loop env sender ?now (?now + d) d ar
        (zip (zip ids (zip rs as)) (zip ts ls)) [] (W\<lparr>st := s\<rparr>) = Inr (out, W')"
    by (rule batch_create_stream_inv [OF op]) blast
  let ?items = "zip (zip ids (zip rs as)) (zip ts ls)"
  from batch_prepass_Inr [OF pre] have ids: "length ids = length rs" "distinct ids"
    "\<forall>k \<in> set ids. p_streams s k = None" "\<forall>item \<in> set (zip rs as). batch_item_ok d item"
    using len by auto
  have fsts: "map (fst \<circ> fst) ?items = ids" by (rule batch_ids [OF len ids(1)])
  then have dis: "distinct (map (fst \<circ> fst) ?items)" using ids(2) by simp
  note eff = batch_create_loop_effect [OF loop dis]
  have out: "out = ids" using eff(1) fsts by simp
  note frame = batch_nonce_frame [OF W s]
  note filed = batch_item_filed [OF eff(4) ids(4) d len ids(1), folded out]
  have bn: "get_nonce W' sender = get_nonce W0 sender + 1"
    using eff(2) frame(4) by (simp add: nonces_def get_batch_nonce_def get_nonce_def)
  have n: "length ?items = length rs" using len ids(1) by simp
  have cnt: "get_sender_stream_count (st W') sender
      = get_sender_stream_count (st W0) sender + length rs"
    using eff(3) n frame(2) by simp
  have lim: "get_sender_stream_count (st W') sender \<le> effective_sender_limit (st W0) sender"
    using cnt limit frame(2,3) by simp
  have rest: "p_streams (st W') k = p_streams (st W0) k" if "k \<notin> set out" for k
    using eff(5) [of k] that fsts frame(1) by (simp add: out)
  have free: "\<forall>k \<in> set out. p_streams (st W0) k = None" using ids(3) frame(1) by (simp add: out)
  show ?thesis
    using filed rest free cnt lim bn ids(1,2) out by blast
qed

theorem batch_create_effect_witness:
  "\<exists>W. batch_create_stream (at demo_base 100 (\<lambda>a. a = Addr 1)) (Addr 1) [Addr 2, Addr 3]
      [3600, 5400] [Addr 9, Addr 9] 3600 False [0, 0] 0 (genesis demo_ledger)
      = Inr ([72620543991349248, 72902018968059904], W) \<and>
     get_sender_stream_count (st W) (Addr 1) = 2 \<and> get_nonce W (Addr 1) = 1 \<and>
     (\<exists>x. p_streams (st W) 72902018968059904 = Some x \<and> s_recipient x = Addr 3 \<and>
          s_deposit x = 5400 \<and> s_flow_rate x = 1)"
proof -
  obtain W where op: "batch_create_stream (at demo_base 100 (\<lambda>a. a = Addr 1)) (Addr 1)
      [Addr 2, Addr 3] [3600, 5400] [Addr 9, Addr 9] 3600 False [0, 0] 0 (genesis demo_ledger)
      = Inr ([72620543991349248, 72902018968059904], W)"
    by (rule demo_batch)
  have zero: "get_sender_stream_count empty_storage (Addr 1) = 0"
    "get_nonce (genesis demo_ledger) (Addr 1) = 0"
    by (simp_all add: get_sender_stream_count_def get_nonce_def get_batch_nonce_def
        empty_storage_def)
  note eff = batch_create_effect [OF op]
  have "\<exists>x. p_streams (st W) 72902018968059904 = Some x \<and> s_recipient x = Addr 3 \<and>
      s_deposit x = 5400 \<and> s_flow_rate x = 1"
    using eff by (auto dest: spec [of _ 1])
  with op eff zero show ?thesis by (intro exI [of _ W]) simp
qed

section \<open>Batch cancellation\<close>

text \<open>
  The state in which the stream \<open>k\<close>, if it is paused, has been running all along; cancelling
  from there by the sender alone; and doing so one by one: each id in its own \<open>cancel_stream\<close>,
  the errors collected, a failed call leaving the state as it was.
\<close>

definition as_running :: "nat \<Rightarrow> 'w world \<Rightarrow> 'w world" where
  "as_running k W =
     (case p_streams (st W) k of
        Some x \<Rightarrow>
          if s_status x = Paused
          then in_store (save_stream (x\<lparr>s_id := k, s_status := Active\<rparr>)) W else W
      | None \<Rightarrow> W)"

definition cancel_by_sender ::
    "'w env \<Rightarrow> nat \<Rightarrow> address \<Rightarrow> 'w world \<Rightarrow> ('w, unit) response" where
  "cancel_by_sender env k a W =
     (case p_streams (st W) k of
        Some x \<Rightarrow> if s_sender x \<noteq> a then Inl (Err NotSender)
                  else cancel_stream env k a (as_running k W)
      | None \<Rightarrow> Inl (Err StreamNotFound))"

fun cancel_each ::
    "'w env \<Rightarrow> nat list \<Rightarrow> address \<Rightarrow> 'w world \<Rightarrow> ('w, (stream_error + unit) list) response" where
  "cancel_each env [] a W = Inr ([], W)"
| "cancel_each env (k # ks) a W =
     (case cancel_by_sender env k a W of
        Inr (_, W1) \<Rightarrow> bindE (cancel_each env ks a W1) (\<lambda>(rs, W2). Inr (Inr () # rs, W2))
      | Inl (Err e) \<Rightarrow> bindE (cancel_each env ks a W) (\<lambda>(rs, W2). Inr (Inl e # rs, W2))
      | Inl (Panic p) \<Rightarrow> Inl (Panic p))"

lemma pay_if_positive_store:
  "pay_if_positive env tk t a (in_store f W)
     = bindE (pay_if_positive env tk t a W) (\<lambda>W1. Inr (in_store f W1))"
  by (auto simp: pay_if_positive_def transfer_def in_store_def split: option.split)

lemma close_stream_saved:
  "s_id y = k \<Longrightarrow> close_stream k x (save_stream y s) = close_stream k x s"
  by (simp add: close_stream_def remove_stream_def save_stream_def)

lemma running_closed:
  "in_store (close_stream k (x\<lparr>s_id := k, s_status := Active\<rparr>))
     (in_store (save_stream (x\<lparr>s_id := k, s_status := Active\<rparr>)) W) = in_store (close_stream k x) W"
  by (simp add: in_store_def close_stream_def remove_stream_def save_stream_def)

lemma batch_cancel_one_eq:
  assumes "authorizes env a"
  shows "batch_cancel_one env k a W = cancel_by_sender env k a W"
proof (cases "p_streams (st W) k")
  case None
  then show ?thesis
    by (simp add: batch_cancel_one_def cancel_by_sender_def find_stream_def load_stream_def)
next
  case (Some x)
  show ?thesis
  proof (cases "s_sender x = a \<and> s_status x = Paused")
    case False
    with assms Some show ?thesis
      by (auto simp: batch_cancel_one_def cancel_by_sender_def cancel_stream_def require_auth_def
          find_stream_def load_stream_def may_manage_def stream_now_def as_running_def)
  next
    case True
    with assms Some show ?thesis
      by (auto simp: batch_cancel_one_def cancel_by_sender_def cancel_stream_def require_auth_def
          find_stream_def load_stream_def may_manage_def stream_now_def as_running_def
          live_def Let_def refund_of_def pay_if_positive_store bindE_assoc
          running_closed [of k] intro!: bindE_cong)
  qed
qed

lemma batch_cancel_loop_eq:
  assumes "authorizes env a"
  shows "batch_cancel_loop env ks a out W
           = bindE (cancel_each env ks a W) (\<lambda>(rs, W2). Inr (out @ rs, W2))"
proof (induction ks arbitrary: out W)
  case (Cons k ks)
  note one = batch_cancel_one_eq [OF assms, of k W]
  show ?case
  proof (cases "cancel_by_sender env k a W")
    case (Inl e)
    with one Cons show ?thesis
      by (cases e) (auto simp: bindE_assoc case_prod_beta intro!: bindE_cong)
  next
    case (Inr p)
    with one Cons show ?thesis
      by (auto simp: bindE_assoc case_prod_beta intro!: bindE_cong)
  qed
qed simp

text \<open>
  C22: a signed batch cancellation of at most twenty ids does what cancelling one by one does:
  the results (in order) and the final state are those of one \<open>cancel_stream\<close> per id, errors
  collected. It differs in two respects, which \<open>cancel_by_sender\<close> and \<open>as_running\<close> write out. Only
  the sender itself can cancel in a batch: for a stored stream of another sender the result is
  \<open>NotSender\<close>, also for a delegate, who can cancel with \<open>cancel_stream\<close>. And a paused stream is
  cancelled as if it had been running all along, so the recipient is paid for the paused time,
  where \<open>cancel_stream\<close> stops at the time of the pause.
\<close>

theorem batch_cancel_matches_cancel:
  assumes "authorizes env a" "ks \<noteq> []" "length ks \<le> 20"
  shows "batch_cancel_stream env ks a W = cancel_each env ks a W"
proof -
  have "bindE m (\<lambda>(rs, W2). Inr ([] @ rs, W2)) = m" for m :: "('a, (stream_error + unit) list) response"
    by (cases m) auto
  with batch_cancel_loop_eq [OF assms(1), of ks "[]" W] assms show ?thesis
    by (simp add: batch_cancel_stream_def require_auth_def)
qed

theorem batch_cancel_matches_cancel_witness:
  "let W = in_store (save_stream (demo_stream\<lparr>s_status := Paused, s_last_pause_time := 600\<rparr>))
             (genesis (\<lambda>_ a. if a = Addr 0 then 7200 else 0));
       env = at demo_base 1100 (\<lambda>a. a = Addr 1);
       other = at demo_base 1100 (\<lambda>a. a = Addr 6)
   in batch_cancel_stream env [72620543991349248, 5] (Addr 1) W
        = cancel_each env [72620543991349248, 5] (Addr 1) W \<and>
      (\<exists>W'. cancel_each env [72620543991349248, 5] (Addr 1) W
         = Inr ([Inr (), Inl StreamNotFound], W') \<and>
         token_balance demo_base (Addr 9) (Addr 2) (ext W') = 2000) \<and>
      batch_cancel_stream other [72620543991349248] (Addr 6) W
        = Inr ([Inl NotSender], W)"
  unfolding Let_def
proof (intro conjI)
  let ?W = "in_store (save_stream (demo_stream\<lparr>s_status := Paused, s_last_pause_time := 600\<rparr>))
      (genesis (\<lambda>_ a. if a = Addr 0 then 7200 else (0::int)))"
  let ?e = "at demo_base 1100 (\<lambda>a. a = Addr 1)" and ?o = "at demo_base 1100 (\<lambda>a. a = Addr 6)"
  show "batch_cancel_stream ?e [72620543991349248, 5] (Addr 1) ?W
      = cancel_each ?e [72620543991349248, 5] (Addr 1) ?W"
    by (rule batch_cancel_matches_cancel) simp_all
  show "\<exists>W'. cancel_each ?e [72620543991349248, 5] (Addr 1) ?W
      = Inr ([Inr (), Inl StreamNotFound], W') \<and>
        token_balance demo_base (Addr 9) (Addr 2) (ext W') = 2000"
    by (simp add: cancel_by_sender_def cancel_stream_def as_running_def eval_simps demo_stream_def
        demo_base_def may_manage_def live_def stream_now_def compute_earned_def refund_of_def
        clamp_i128_def empty_storage_def)
  have "batch_cancel_stream ?o [72620543991349248] (Addr 6) ?W
      = cancel_each ?o [72620543991349248] (Addr 6) ?W"
    by (rule batch_cancel_matches_cancel) simp_all
  then show "batch_cancel_stream ?o [72620543991349248] (Addr 6) ?W = Inr ([Inl NotSender], ?W)"
    by (simp add: cancel_by_sender_def demo_stream_def save_stream_def)
qed

end
