(* ===== verification/Pause.thy ===== *)
theory Pause
  imports Registry_Runs
begin

text \<open>
  The emergency pause over the runs of the contract: which entry points it stops, that no
  invocation besides the pausing and resuming ones lifts it before its 72 hours are over, and
  that it lifts itself then.
\<close>

section \<open>Which calls look at the pause\<close>

text \<open>The nine entry points that open with the guard, and the four that set the flag.\<close>

definition stopped_by_pause :: "call \<Rightarrow> bool" where
  "stopped_by_pause c \<longleftrightarrow>
     (case c of
        On_stream (Create_stream _ _ _ _ _ _ _ _ _ _ _) \<Rightarrow> True
      | On_stream (Withdraw _ _) \<Rightarrow> True
      | On_stream (Transfer_recipient _ _ _) \<Rightarrow> True
      | On_stream (Top_up _ _ _ _) \<Rightarrow> True
      | On_batch (Pause_stream _ _) \<Rightarrow> True
      | On_batch (Resume_stream _ _) \<Rightarrow> True
      | On_batch (Batch_create_stream _ _ _ _ _ _ _ _) \<Rightarrow> True
      | On_batch (Batch_withdraw _ _) \<Rightarrow> True
      | On_settings (Recipient_terminate _ _) \<Rightarrow> True
      | _ \<Rightarrow> False)"

definition sets_pause :: "call \<Rightarrow> bool" where
  "sets_pause c \<longleftrightarrow>
     (case c of
        On_setup Emergency_pause \<Rightarrow> True
      | On_setup Emergency_resume \<Rightarrow> True
      | On_settings (Pause _) \<Rightarrow> True
      | On_settings (Unpause _) \<Rightarrow> True
      | _ \<Rightarrow> False)"

text \<open>The pause is in force at a time: it is stored and has not expired.\<close>

definition paused_until :: "nat \<Rightarrow> storage \<Rightarrow> bool" where
  "paused_until e s \<longleftrightarrow> i_paused s = Some True \<and> i_p_exp s = Some e"

lemma paused_guard:
  assumes "paused_until e (st W)" "ledger_timestamp env < e"
  shows "when_not_paused env W = Inl (Err ContractPaused)" "is_paused env W = (True, W)"
  using assms by (simp_all add: paused_until_def when_not_paused_def is_paused_def
      is_paused_or_auto_unpause_def storage_get_pause_expiry_def)

lemma expired_guard:
  assumes "paused_until e (st W)" "e \<le> ledger_timestamp env" "0 < e"
  defines "W' \<equiv> in_store (\<lambda>s. s\<lparr>i_paused := Some False, i_p_exp := Some 0\<rparr>) W"
  shows "when_not_paused env W = Inr W'" "is_paused env W = (False, W')"
  using assms by (simp_all add: paused_until_def when_not_paused_def is_paused_def
      is_paused_or_auto_unpause_def storage_get_pause_expiry_def in_store_def)

lemma stopped_exec:
  assumes "stopped_by_pause c" "paused_until e (st W)" "ledger_timestamp env < e"
  shows "exec env c W = Inl (Err ContractPaused) \<or> exec env c W = Inl (Panic Auth_failed)"
proof -
  note stop = paused_guard(1) [OF assms(2,3)]
  from assms(1) show ?thesis
    by (auto simp: stopped_by_pause_def exec_simps reply_with_def stop create_stream_def
        withdraw_def transfer_recipient_def top_up_def pause_stream_def resume_stream_def
        batch_create_stream_def batch_withdraw_def recipient_terminate_def require_auth_def
        split: call.splits stream_call.splits batch_call.splits settings_call.splits)
qed

section \<open>Nothing else lifts it\<close>

abbreviation same_pause :: "storage \<Rightarrow> storage \<Rightarrow> bool" where
  "same_pause s s' \<equiv> i_paused s' = i_paused s \<and> i_p_exp s' = i_p_exp s"

lemma save_stream_pause [simp]: "same_pause s (save_stream y s)"
  by (simp add: save_stream_def)

lemma close_stream_pause [simp]: "same_pause s (close_stream k x s)"
  by (auto simp: close_stream_def remove_stream_def unindex_by_sender_def
      unindex_by_recipient_def Let_def split: option.splits)

lemma register_stream_pause: "register_stream y s = Inr s' \<Longrightarrow> same_pause s s'"
  by (auto simp: register_stream_def bindE_eq_Inr index_by_sender_Inr index_by_recipient_Inr
      index_global_stream_def Let_def plain_eq_Inr save_stream_def)

lemma pause_kept_settings:
  "initialize env a v W = Inr (u, W') \<Longrightarrow> same_pause (st W) (st W')"
  "set_admin env a W = Inr (u, W') \<Longrightarrow> same_pause (st W) (st W')"
  "set_guardian env a W = Inr (u, W') \<Longrightarrow> same_pause (st W) (st W')"
  "set_governance env a W = Inr (u, W') \<Longrightarrow> same_pause (st W) (st W')"
  "add_fee_exempt env a W = Inr (u, W') \<Longrightarrow> same_pause (st W) (st W')"
  "remove_fee_exempt env a W = Inr (u, W') \<Longrightarrow> same_pause (st W) (st W')"
  "set_max_streams env n W = Inr (u, W') \<Longrightarrow> same_pause (st W) (st W')"
  "set_sender_stream_limit env a n W = Inr (u, W') \<Longrightarrow> same_pause (st W) (st W')"
  "set_min_duration env a n W = Inr (u, W') \<Longrightarrow> same_pause (st W) (st W')"
  "set_treasury_address env a W = Inr (u, W') \<Longrightarrow> same_pause (st W) (st W')"
  by (auto simp: initialize_def set_admin_def set_guardian_def set_governance_def
      add_fee_exempt_def remove_fee_exempt_def set_max_streams_def set_sender_stream_limit_def
      set_min_duration_def set_treasury_address_def Let_def handler bindE_eq_Inr split: if_splits)

lemma pause_kept_admin:
  "set_withdrawal_cooldown env a n W = Inr (u, W') \<Longrightarrow> same_pause (st W) (st W')"
  "set_whitelist_enabled env a b W = Inr (u, W') \<Longrightarrow> same_pause (st W) (st W')"
  "add_to_whitelist env a r W = Inr (u, W') \<Longrightarrow> same_pause (st W) (st W')"
  "remove_from_whitelist env a r W = Inr (u, W') \<Longrightarrow> same_pause (st W) (st W')"
  "set_creation_fee env f a W = Inr (u, W') \<Longrightarrow> same_pause (st W) (st W')"
  "set_protocol_fee env n W = Inr (u, W') \<Longrightarrow> same_pause (st W) (st W')"
  "propose_fee_change env a n W = Inr (u, W') \<Longrightarrow> same_pause (st W) (st W')"
  "execute_fee_change env W = Inr (u, W') \<Longrightarrow> same_pause (st W) (st W')"
  by (auto simp: set_withdrawal_cooldown_def set_whitelist_enabled_def add_to_whitelist_def
      remove_from_whitelist_def set_creation_fee_def set_protocol_fee_def propose_fee_change_def
      execute_fee_change_def Let_def handler bindE_eq_Inr split: if_splits option.splits)

lemma pause_kept_calls:
  "upgrade env h W = Inr (u, W') \<Longrightarrow> same_pause (st W) (st W')"
  "withdraw_treasury env tk n a W = Inr (u, W') \<Longrightarrow> same_pause (st W) (st W')"
  "withdraw_all_from_treasury env tk a W = Inr (v, W') \<Longrightarrow> same_pause (st W) (st W')"
  by (auto simp: upgrade_def withdraw_treasury_def withdraw_all_from_treasury_def bindE_eq_Inr
      decoded_reply invoke_Inr split: if_splits option.splits)

lemma pause_kept_migrate: "migrate env v v' W = Inr (u, W') \<Longrightarrow> same_pause (st W) (st W')"
  by (auto simp: migrate_def Let_def handler bindE_eq_Inr append_audit_entry_frame
      split: if_splits)

lemma pause_kept_streams:
  "delegate env a k d W = Inr (u, W') \<Longrightarrow> same_pause (st W) (st W')"
  "revoke_delegate env a k W = Inr (u, W') \<Longrightarrow> same_pause (st W) (st W')"
  "update_metadata env a k m W = Inr (u, W') \<Longrightarrow> same_pause (st W) (st W')"
  "cancel_auto_renew env a k W = Inr (u, W') \<Longrightarrow> same_pause (st W) (st W')"
  "archive_stream env k a W = Inr (u, W') \<Longrightarrow> same_pause (st W) (st W')"
  by (auto simp: delegate_def revoke_delegate_def update_metadata_def cancel_auto_renew_def
      archive_stream_def set_delegate_def remove_delegate_def Let_def bindE_eq_Inr
      split: if_splits)

lemma pause_kept_cancel:
  "cancel_stream env k a W = Inr (u, W') \<Longrightarrow> same_pause (st W) (st W')"
  by (auto simp: cancel_stream_def Let_def bindE_eq_Inr dest!: pay_if_positive_st split: if_splits)

lemma pause_kept_partial_cancel:
  assumes "partial_cancel_stream env k a n W = Inr (k', W')"
  shows "same_pause (st W) (st W')"
  using assms
proof (cases rule: partial_cancel_inv)
  case (1 x n d m W1 W2 s)
  then show ?thesis
    using register_stream_pause pay_if_positive_st transfer_st by fastforce
qed

lemma pause_kept_batch_cancel_one:
  "batch_cancel_one env k a W = Inr (u, W') \<Longrightarrow> same_pause (st W) (st W')"
  by (auto simp: batch_cancel_one_def Let_def bindE_eq_Inr dest!: pay_if_positive_st
      split: if_splits)

lemma pause_kept_batch_cancel_loop:
  "batch_cancel_loop env ks a out W = Inr (out', W') \<Longrightarrow> same_pause (st W) (st W')"
proof (induction ks arbitrary: out W)
  case (Cons k ks)
  from Cons.prems show ?case
    by (auto split: sum.splits abort.splits dest!: Cons.IH pause_kept_batch_cancel_one)
qed simp

lemma pause_kept_batch_cancel:
  "batch_cancel_stream env ks a W = Inr (out, W') \<Longrightarrow> same_pause (st W) (st W')"
  by (auto simp: batch_cancel_stream_def bindE_eq_Inr dest: pause_kept_batch_cancel_loop
      split: if_splits)

lemmas pause_kept = pause_kept_settings pause_kept_admin pause_kept_calls pause_kept_migrate
  pause_kept_streams pause_kept_cancel pause_kept_partial_cancel pause_kept_batch_cancel

lemma exec_pause_kept:
  assumes op: "exec env c W = Inr (r, W')" and p: "paused_until e (st W)" "ledger_timestamp env < e"
    and c: "\<not> sets_pause c"
  shows "paused_until e (st W')"
proof -
  have go: "\<not> stopped_by_pause c" using stopped_exec [OF _ p] op by fastforce
  note hints = exec_simps reply_with_Inr Let_def sum.inject prod.inject paused_guard(2) [OF p]
    prod.case
  note sides = sets_pause_def stopped_by_pause_def call.case setup_call.case stream_call.case
    batch_call.case settings_call.case
  have "same_pause (st W) (st W')"
  proof (cases c)
    case (On_setup d)
    with op c show ?thesis
      by (cases d) (auto simp only: hints sides simp_thms dest: pause_kept)
  next
    case (On_stream d)
    with op go show ?thesis
      by (cases d) (auto simp only: hints sides simp_thms dest: pause_kept)
  next
    case (On_batch d)
    with op go show ?thesis
      by (cases d) (auto simp only: hints sides simp_thms dest: pause_kept)
  next
    case (On_settings d)
    with op c go show ?thesis
      by (cases d) (auto simp only: hints sides simp_thms dest: pause_kept)
  qed
  with p(1) show ?thesis by (simp add: paused_until_def)
qed

text \<open>
  So over the steps whose invocations do not set the flag, the pause stays in force until the
  ledger time reaches its expiry.
\<close>

lemma guarded_time: "guarded G base (T, W) (T', W') \<Longrightarrow> T \<le> T'"
  by (drule guarded_step) (auto elim: stepE)

interpretation pausing: machine_invariant "guarded (\<lambda>env c r s. \<not> sets_pause c) base"
  "\<lambda>s. e \<le> fst s \<or> paused_until e (st (snd s))" for base e
proof unfold_locales
  fix s t :: "nat \<times> 'a world"
  assume i: "e \<le> fst s \<or> paused_until e (st (snd s))"
    and step: "guarded (\<lambda>env c r s. \<not> sets_pause c) base s t"
  obtain T W T' W' where s: "s = (T, W)" and t: "t = (T', W')" by (metis surj_pair)
  note step = step [unfolded s t]
  show "e \<le> fst t \<or> paused_until e (st (snd t))"
  proof (cases "e \<le> T'")
    case False
    with guarded_time [OF step] i have p: "paused_until e (st W)" by (simp add: s)
    from step show ?thesis
    proof (cases rule: guarded.cases)
      case (guarded_invoked auth c r)
      then show ?thesis using exec_pause_kept [OF _ p] False by (simp add: t)
    next
      case guarded_rest
      then show ?thesis using p by (simp add: t)
    qed
  qed (simp add: t)
qed

text \<open>
  C29: an emergency pause stops nine entry points for exactly 72 hours: creating streams (singly
  or in a batch), withdrawing (singly or in a batch), changing the recipient, topping up,
  pausing and resuming a stream, and termination by the recipient. Whatever else is invoked in
  between, by whomever, as long as it is not one of the four calls that set the pause, each of
  the nine fails at every ledger time less than 72 hours after the pause, with
  \<open>ContractPaused\<close> or for want of a signature, and the contract reports itself paused. At the
  first invocation 72 hours after the pause or later the guard lets pass: the contract reports
  itself running, the flag and the expiry are cleared and nothing else changes. (Cancellation,
  partial cancellation, archiving, delegation and the administration do not look at the pause
  and are not stopped.)
\<close>

theorem pause_stops_72h:
  fixes auth :: "address \<Rightarrow> bool"
  assumes pause: "emergency_pause (at base ts auth0) W = Inr ((), W1)" "ts + 259200 \<le> u64_max"
    and later: "runs (guarded (\<lambda>env c r s. \<not> sets_pause c) base) (ts, W1) (T, W2)"
      "T < ts + 259200" "T \<le> now"
  defines "env \<equiv> at base now auth"
  shows "(now < ts + 259200 \<longrightarrow>
            exec env (On_setup Is_paused) W2 = Inr (RBool True, W2) \<and>
            (\<forall>c. stopped_by_pause c \<longrightarrow>
               exec env c W2 = Inl (Err ContractPaused) \<or> exec env c W2 = Inl (Panic Auth_failed))) \<and>
         (ts + 259200 \<le> now \<longrightarrow>
            (\<exists>W3. exec env (On_setup Is_paused) W2 = Inr (RBool False, W3) \<and>
               when_not_paused env W2 = Inr W3 \<and>
               W3 = W2\<lparr>st := (st W2)\<lparr>i_paused := Some False, i_p_exp := Some 0\<rparr>\<rparr>))"
proof -
  have "paused_until (ts + 259200) (st W1)"
    using emergency_pause_flags [OF pause(1)] pause(2) by (simp add: paused_until_def)
  then have p: "paused_until (ts + 259200) (st W2)"
    using pausing.runs_inv [OF later(1), of "ts + 259200"] later(2) by simp
  have env: "ledger_timestamp env = now" by (simp add: env_def)
  show ?thesis
    using stopped_exec [OF _ p, of _ env] paused_guard [OF p, of env] expired_guard [OF p, of env]
    by (auto simp: env exec_simps in_store_def)
qed

theorem pause_stops_72h_witness:
  "\<exists>W1. emergency_pause (at demo_base 1000 (\<lambda>a. a = Addr 1))
       (in_store (write_admin (Addr 1)) (genesis demo_ledger)) = Inr ((), W1) \<and>
     (\<forall>auth. exec (at demo_base 260199 auth) (On_stream (Withdraw 5 (Addr 2))) W1
         = Inl (Err ContractPaused) \<or>
       exec (at demo_base 260199 auth) (On_stream (Withdraw 5 (Addr 2))) W1
         = Inl (Panic Auth_failed)) \<and>
     (\<exists>W3. exec (at demo_base 260200 (\<lambda>_. False)) (On_setup Is_paused) W1 = Inr (RBool False, W3))"
proof -
  let ?e = "at demo_base 1000 (\<lambda>a. a = Addr 1)"
  obtain W1 where W1: "emergency_pause ?e (in_store (write_admin (Addr 1)) (genesis demo_ledger))
      = Inr ((), W1)"
    by (simp add: emergency_pause_def admin_eval)
  have run: "runs (guarded (\<lambda>env c r s. \<not> sets_pause c) demo_base) (1000, W1) (1000, W1)"
    by (rule runs_refl)
  have "(1000::nat) + 259200 \<le> u64_max" by (simp add: u64_max_def)
  note stop = pause_stops_72h [OF W1 this run]
  have w: "stopped_by_pause (On_stream (Withdraw 5 (Addr 2)))" by (simp add: stopped_by_pause_def)
  have "exec (at demo_base 260199 auth) (On_stream (Withdraw 5 (Addr 2))) W1
         = Inl (Err ContractPaused) \<or>
       exec (at demo_base 260199 auth) (On_stream (Withdraw 5 (Addr 2))) W1
         = Inl (Panic Auth_failed)" for auth
    using stop [of 260199 auth] w by (auto simp del: exec.simps)
  moreover have "\<exists>W3. exec (at demo_base 260200 (\<lambda>_. False)) (On_setup Is_paused) W1
      = Inr (RBool False, W3)"
    using stop [of 260200 "\<lambda>_. False"] by auto
  ultimately show ?thesis using W1 by blast
qed

end
