(* ===== verification/Harnesses.thy ===== *)
theory Harnesses
  imports Vesting_Math
begin

text \<open>
  The repository's own checks of the vesting arithmetic as programs: the Kani proof harnesses of
  \<open>vesting_math.rs\<close>. A harness takes the values it draws as arguments and ends in a verdict:
  \<open>Discarded\<close> when an assumption rules the values out (\<open>kani::assume\<close>), \<open>Passed\<close> when every
  assertion held. A failed assertion, an \<open>unwrap\<close> of \<open>None\<close> and an arithmetic overflow are
  panics. The theorem shows, for all values, that no harness panics and which values reach the
  assertions.
\<close>

section \<open>Verdicts\<close>

datatype verdict = Discarded | Passed

definition unwrap :: "'a option \<Rightarrow> ('e, 'a) outcome" where
  "unwrap x = expect ''called `Option::unwrap()` on a `None` value'' x"

definition assert_that :: "bool \<Rightarrow> string \<Rightarrow> ('e, verdict) outcome" where
  "assert_that b msg = (if b then Inr Passed else Inl (Panic (Panic_msg msg)))"

definition assume_then :: "bool \<Rightarrow> ('e, verdict) outcome \<Rightarrow> ('e, verdict) outcome" where
  "assume_then b rest = (if b then rest else Inr Discarded)"

lemma unwrap_Some [simp]: "unwrap (Some a) = Inr a"
  by (simp add: unwrap_def)

lemma assert_that_True [simp]: "assert_that True msg = Inr Passed"
  by (simp add: assert_that_def)

lemma assume_then_simps [simp]:
  "assume_then True rest = rest" "assume_then False rest = Inr Discarded"
  by (simp_all add: assume_then_def)

lemma assume_then_eqI:
  "(b \<Longrightarrow> rest = Inr (if c then Passed else Discarded)) \<Longrightarrow>
   assume_then b rest = Inr (if b \<and> c then Passed else Discarded)"
  by (simp add: assume_then_def)

section \<open>The Kani harnesses\<close>

definition verify_claimable_leq_deposit ::
    "int \<Rightarrow> nat \<Rightarrow> nat \<Rightarrow> nat \<Rightarrow> nat \<Rightarrow> ('e, verdict) outcome" where
  "verify_claimable_leq_deposit deposit duration start_time cliff_seconds now =
     assume_then (deposit > 0 \<and> deposit \<le> 1000000000000)
    (assume_then (duration > 0 \<and> duration \<le> 315360000)
    (assume_then (start_time \<le> u64_max div 2)
    (assume_then (cliff_seconds < duration)
    (assume_then (now \<ge> start_time)
    (bindE (compute_flow_rate deposit duration) (\<lambda>flow_rate.
     assume_then (flow_rate > 0)
    (bindE (add_u64 start_time duration) (\<lambda>end_time.
     bindE (add_u64 start_time cliff_seconds) (\<lambda>cliff_time.
     let last_withdraw_time = start_time in
     bindE (unwrap (compute_claimable flow_rate now cliff_time end_time last_withdraw_time))
       (\<lambda>claimable.
     assert_that (claimable \<le> deposit) ''claimable must not exceed deposit''))))))))))"

definition verify_claimable_leq_deposit_after_withdrawal ::
    "int \<Rightarrow> nat \<Rightarrow> nat \<Rightarrow> nat \<Rightarrow> nat \<Rightarrow> ('e, verdict) outcome" where
  "verify_claimable_leq_deposit_after_withdrawal deposit duration start_time
       last_withdraw_time now =
     assume_then (deposit > 0 \<and> deposit \<le> 1000000000000)
    (assume_then (duration > 0 \<and> duration \<le> 315360000)
    (assume_then (start_time \<le> u64_max div 4)
    (assume_then (last_withdraw_time \<ge> start_time)
    (assume_then (now \<ge> last_withdraw_time)
    (bindE (add_u64 start_time duration) (\<lambda>end_time.
     assume_then (last_withdraw_time \<le> end_time)
    (bindE (compute_flow_rate deposit duration) (\<lambda>flow_rate.
     assume_then (flow_rate > 0)
    (bindE (unwrap (compute_claimable flow_rate now start_time end_time last_withdraw_time))
       (\<lambda>claimable.
     assert_that (claimable \<le> deposit)
       ''claimable must not exceed deposit after partial withdrawal''))))))))))"

definition verify_claimable_monotonic ::
    "int \<Rightarrow> nat \<Rightarrow> nat \<Rightarrow> nat \<Rightarrow> nat \<Rightarrow> nat \<Rightarrow> ('e, verdict) outcome" where
  "verify_claimable_monotonic flow_rate t1 t2 cliff_time end_time last_withdraw_time =
     assume_then (flow_rate > 0 \<and> flow_rate \<le> 1000000000)
    (assume_then (t2 \<ge> t1)
    (assume_then (end_time \<le> u64_max div 2)
    (assume_then (last_withdraw_time \<le> end_time)
    (bindE (unwrap (compute_claimable flow_rate t1 cliff_time end_time last_withdraw_time))
       (\<lambda>c1.
     bindE (unwrap (compute_claimable flow_rate t2 cliff_time end_time last_withdraw_time))
       (\<lambda>c2.
     assert_that (c2 \<ge> c1) ''claimable must be non-decreasing over time''))))))"

definition verify_claimable_zero_before_cliff ::
    "int \<Rightarrow> nat \<Rightarrow> nat \<Rightarrow> nat \<Rightarrow> nat \<Rightarrow> ('e, verdict) outcome" where
  "verify_claimable_zero_before_cliff flow_rate now cliff_time end_time last_withdraw_time =
     assume_then (flow_rate > 0)
    (assume_then (now < cliff_time)
    (bindE (unwrap (compute_claimable flow_rate now cliff_time end_time last_withdraw_time))
       (\<lambda>claimable.
     assert_that (claimable = 0) ''claimable must be zero before cliff'')))"

definition verify_cancel_balance_conservation ::
    "int \<Rightarrow> nat \<Rightarrow> nat \<Rightarrow> nat \<Rightarrow> ('e, verdict) outcome" where
  "verify_cancel_balance_conservation deposit duration start_time now =
     assume_then (deposit > 0 \<and> deposit \<le> 1000000000000)
    (assume_then (duration > 0 \<and> duration \<le> 315360000)
    (assume_then (start_time \<le> u64_max div 4)
    (assume_then (now \<ge> start_time)
    (bindE (add_u64 start_time duration) (\<lambda>end_time.
     bindE (compute_flow_rate deposit duration) (\<lambda>flow_rate.
     assume_then (flow_rate > 0)
    (bindE (unwrap (compute_total_streamed flow_rate now end_time start_time))
       (\<lambda>total_streamed.
     bindE (unwrap (compute_refund deposit flow_rate now end_time start_time)) (\<lambda>refund.
     bindE (add_i128 total_streamed refund) (\<lambda>sum.
     assert_that (sum = deposit) ''total_streamed + refund must equal deposit''))))))))))"

definition verify_earned_non_negative ::
    "int \<Rightarrow> nat \<Rightarrow> nat \<Rightarrow> nat \<Rightarrow> ('e, verdict) outcome" where
  "verify_earned_non_negative flow_rate now end_time last_withdraw_time =
     assume_then (flow_rate > 0 \<and> flow_rate \<le> 1000000000)
    (assume_then (end_time \<le> u64_max div 2)
    (bindE (unwrap (compute_earned flow_rate now end_time last_withdraw_time)) (\<lambda>earned.
     assert_that (earned \<ge> 0) ''earned must be non-negative'')))"

definition verify_refund_non_negative ::
    "int \<Rightarrow> nat \<Rightarrow> nat \<Rightarrow> nat \<Rightarrow> ('e, verdict) outcome" where
  "verify_refund_non_negative deposit duration start_time now =
     assume_then (deposit > 0 \<and> deposit \<le> 1000000000000)
    (assume_then (duration > 0 \<and> duration \<le> 315360000)
    (assume_then (start_time \<le> u64_max div 4)
    (assume_then (now \<ge> start_time)
    (bindE (add_u64 start_time duration) (\<lambda>end_time.
     bindE (compute_flow_rate deposit duration) (\<lambda>flow_rate.
     assume_then (flow_rate > 0)
    (bindE (unwrap (compute_refund deposit flow_rate now end_time start_time)) (\<lambda>refund.
     assert_that (refund \<ge> 0) ''refund must be non-negative''))))))))"

section \<open>No harness fails\<close>

text \<open>The draws that reach the assertion of a harness over a whole stream.\<close>

definition stream_drawn :: "int \<Rightarrow> nat \<Rightarrow> nat \<Rightarrow> nat \<Rightarrow> nat \<Rightarrow> bool" where
  "stream_drawn deposit duration latest start now \<longleftrightarrow>
     0 < deposit \<and> deposit \<le> 1000000000000 \<and> 0 < duration \<and> duration \<le> 315360000 \<and>
     start \<le> latest \<and> start \<le> now \<and> int duration \<le> deposit"

lemma rate_of_draw:
  assumes "0 < deposit" "0 < duration"
  shows "compute_flow_rate deposit duration = Inr (deposit div int duration)"
    and "0 < deposit div int duration \<longleftrightarrow> int duration \<le> deposit"
    and "0 \<le> deposit div int duration"
  using assms by (simp_all add: flow_rate_floor pos_imp_zdiv_pos_iff pos_imp_zdiv_nonneg_iff)

lemma small_in_i128: "0 \<le> x \<Longrightarrow> x \<le> 1000000000000 * 2 ^ 64 \<Longrightarrow> in_i128 x"
  by (simp add: in_i128_def i128_min_def i128_max_def)

lemma draw_end: "d \<le> 315360000 \<Longrightarrow> s \<le> u64_max div 2 \<Longrightarrow> s + d \<le> u64_max"
  by (simp add: u64_max_def)

lemma streamed_of_draw:
  assumes "0 < D" "D \<le> 1000000000000" "0 < d" "s \<le> l" "f = D div int d"
  shows "compute_earned f n (s + d) l = Some (f * int (min n (s + d) - l))"
    and "0 \<le> f * int (min n (s + d) - l)" "f * int (min n (s + d) - l) \<le> D"
proof -
  have f: "0 \<le> f" "f * int (s + d - s) \<le> D"
    using rate_of_draw(3) [OF assms(1,3)] flow_rate_le_deposit(1) [OF assms(1,3)] assms(5)
    by simp_all
  have "in_i128 D" by (rule small_in_i128) (use assms in simp_all)
  from earned_total [OF f this assms(4)] f(1)
  show "compute_earned f n (s + d) l = Some (f * int (min n (s + d) - l))"
    and "0 \<le> f * int (min n (s + d) - l)" "f * int (min n (s + d) - l) \<le> D"
    by simp_all
qed

lemma refund_of_draw:
  assumes "0 < D" "D \<le> 1000000000000" "0 < d" "f = D div int d"
  shows "\<exists>t. compute_total_streamed f n (s + d) s = Some t \<and> 0 \<le> t \<and> t \<le> D \<and>
             compute_refund D f n (s + d) s = Some (D - t) \<and> in_i128 D"
proof -
  define t where "t = f * int (min n (s + d) - s)"
  have t: "compute_total_streamed f n (s + d) s = Some t" "0 \<le> t" "t \<le> D"
    using streamed_of_draw [OF assms(1-3) order_refl assms(4), of n s]
    by (simp_all add: t_def compute_total_streamed_eq compute_earned_eq)
  moreover have "in_i128 (D - t)" "in_i128 D"
    using t assms by (auto intro!: small_in_i128)
  ultimately show ?thesis
    by (simp add: compute_refund_def saturating_sub_i128_def)
qed

lemma verify_claimable_leq_deposit_ok:
  "verify_claimable_leq_deposit D d s c n =
     Inr (if stream_drawn D d (u64_max div 2) s n \<and> c < d then Passed else Discarded)"
proof (cases "stream_drawn D d (u64_max div 2) s n \<and> c < d")
  case True
  then have d: "0 < D" "D \<le> 1000000000000" "0 < d" and r: "0 < D div int d"
    and "s + d \<le> u64_max" "s + c \<le> u64_max"
    using rate_of_draw(2) [of D d] draw_end [of d s] by (auto simp: stream_drawn_def)
  moreover note streamed_of_draw [OF d order_refl refl, of n s]
  ultimately show ?thesis
    using True
    by (cases "n < s + c") (simp_all add: verify_claimable_leq_deposit_def stream_drawn_def
        add_u64_def compute_claimable_eq rate_of_draw(1))
next
  case False
  then show ?thesis
    using draw_end [of d s]
    by (auto simp: verify_claimable_leq_deposit_def stream_drawn_def assume_then_def add_u64_def
        rate_of_draw)
qed

lemma verify_claimable_leq_deposit_after_withdrawal_ok:
  "verify_claimable_leq_deposit_after_withdrawal D d s l n =
     Inr (if stream_drawn D d (u64_max div 4) s l \<and> l \<le> n \<and> l \<le> s + d
          then Passed else Discarded)"
proof (cases "stream_drawn D d (u64_max div 4) s l \<and> l \<le> n \<and> l \<le> s + d")
  case True
  then have d: "0 < D" "D \<le> 1000000000000" "0 < d" "s \<le> l" and r: "0 < D div int d"
    and "s + d \<le> u64_max"
    using rate_of_draw(2) [of D d] draw_end [of d s] by (auto simp: stream_drawn_def)
  moreover note streamed_of_draw [OF d refl, of n]
  ultimately show ?thesis
    using True
    by (simp add: verify_claimable_leq_deposit_after_withdrawal_def stream_drawn_def
        add_u64_def compute_claimable_eq rate_of_draw(1))
next
  case False
  then show ?thesis
    using draw_end [of d s]
    by (auto simp: verify_claimable_leq_deposit_after_withdrawal_def stream_drawn_def
        assume_then_def add_u64_def rate_of_draw)
qed

text \<open>The draws of the harnesses over a bare rate.\<close>

definition rate_drawn :: "int \<Rightarrow> nat \<Rightarrow> bool" where
  "rate_drawn flow_rate end_time \<longleftrightarrow>
     0 < flow_rate \<and> flow_rate \<le> 1000000000 \<and> end_time \<le> u64_max div 2"

lemma earned_of_rate:
  assumes "rate_drawn f e"
  shows "compute_earned f n e l = Some (f * int (min n e - l))"
    and "0 \<le> f * int (min n e - l)"
proof -
  have f: "0 \<le> f" "f \<le> 1000000000" and "int (min n e - l) \<le> 2 ^ 64"
    using assms by (auto simp: rate_drawn_def u64_max_def)
  then have "f * int (min n e - l) \<le> 1000000000 * 2 ^ 64"
    by (intro mult_mono) auto
  then have "in_i128 (f * int (min n e - l))"
    using f by (intro small_in_i128) auto
  then show "compute_earned f n e l = Some (f * int (min n e - l))"
    by (simp add: outcome)
  show "0 \<le> f * int (min n e - l)" using f by simp
qed

lemma verify_claimable_monotonic_ok:
  "verify_claimable_monotonic f t1 t2 c e l =
     Inr (if rate_drawn f e \<and> t1 \<le> t2 \<and> l \<le> e then Passed else Discarded)"
proof (cases "rate_drawn f e \<and> t1 \<le> t2 \<and> l \<le> e")
  case True
  then have "f * int (min t1 e - l) \<le> f * int (min t2 e - l)"
    by (intro mult_left_mono) (auto simp: rate_drawn_def)
  moreover note earned_of_rate [of f e _ l] True
  ultimately show ?thesis
    by (simp add: verify_claimable_monotonic_def rate_drawn_def compute_claimable_eq
        del: of_nat_diff)
next
  case False
  then show ?thesis
    by (auto simp: verify_claimable_monotonic_def rate_drawn_def assume_then_def)
qed

lemma verify_claimable_zero_before_cliff_ok:
  "verify_claimable_zero_before_cliff f n c e l =
     Inr (if 0 < f \<and> n < c then Passed else Discarded)"
  by (simp add: verify_claimable_zero_before_cliff_def compute_claimable_eq assume_then_def)

lemma verify_earned_non_negative_ok:
  "verify_earned_non_negative f n e l = Inr (if rate_drawn f e then Passed else Discarded)"
  using earned_of_rate [of f e n l]
  by (simp add: verify_earned_non_negative_def rate_drawn_def assume_then_def del: of_nat_diff)

lemma verify_cancel_balance_conservation_ok:
  "verify_cancel_balance_conservation D d s n =
     Inr (if stream_drawn D d (u64_max div 4) s n then Passed else Discarded)"
proof (cases "stream_drawn D d (u64_max div 4) s n")
  case True
  then have d: "0 < D" "D \<le> 1000000000000" "0 < d" and r: "0 < D div int d"
    and "s + d \<le> u64_max"
    using rate_of_draw(2) [of D d] draw_end [of d s] by (auto simp: stream_drawn_def)
  moreover obtain t where "compute_total_streamed (D div int d) n (s + d) s = Some t"
    "compute_refund D (D div int d) n (s + d) s = Some (D - t)" "in_i128 D"
    using refund_of_draw [OF d refl, of n s] by blast
  ultimately show ?thesis
    using True
    by (simp add: verify_cancel_balance_conservation_def stream_drawn_def add_u64_def
        add_i128_def rate_of_draw(1))
next
  case False
  then show ?thesis
    using draw_end [of d s]
    by (auto simp: verify_cancel_balance_conservation_def stream_drawn_def assume_then_def
        add_u64_def rate_of_draw)
qed

lemma verify_refund_non_negative_ok:
  "verify_refund_non_negative D d s n =
     Inr (if stream_drawn D d (u64_max div 4) s n then Passed else Discarded)"
proof (cases "stream_drawn D d (u64_max div 4) s n")
  case True
  then have d: "0 < D" "D \<le> 1000000000000" "0 < d" and r: "0 < D div int d"
    and "s + d \<le> u64_max"
    using rate_of_draw(2) [of D d] draw_end [of d s] by (auto simp: stream_drawn_def)
  moreover obtain t where "compute_refund D (D div int d) n (s + d) s = Some (D - t)" "t \<le> D"
    using refund_of_draw [OF d refl, of n s] by blast
  ultimately show ?thesis
    using True
    by (simp add: verify_refund_non_negative_def stream_drawn_def add_u64_def rate_of_draw(1))
next
  case False
  then show ?thesis
    using draw_end [of d s]
    by (auto simp: verify_refund_non_negative_def stream_drawn_def assume_then_def
        add_u64_def rate_of_draw)
qed

section \<open>The harnesses as properties\<close>

text \<open>
  C25: every Kani harness of the vesting arithmetic succeeds for all values it can draw: none
  panics, none of its assertions, unwraps and additions fails, and the draws that reach the
  assertions are exactly the stated ones.
\<close>

theorem kani_harnesses_pass:
  "verify_claimable_leq_deposit deposit duration start cliff now =
     Inr (if stream_drawn deposit duration (u64_max div 2) start now \<and> cliff < duration
          then Passed else Discarded) \<and>
   verify_claimable_leq_deposit_after_withdrawal deposit duration start lw now =
     Inr (if stream_drawn deposit duration (u64_max div 4) start lw \<and> lw \<le> now \<and>
             lw \<le> start + duration
          then Passed else Discarded) \<and>
   verify_claimable_monotonic rate t1 t2 cliff e lw =
     Inr (if rate_drawn rate e \<and> t1 \<le> t2 \<and> lw \<le> e then Passed else Discarded) \<and>
   verify_claimable_zero_before_cliff rate now cliff e lw =
     Inr (if 0 < rate \<and> now < cliff then Passed else Discarded) \<and>
   verify_cancel_balance_conservation deposit duration start now =
     Inr (if stream_drawn deposit duration (u64_max div 4) start now
          then Passed else Discarded) \<and>
   verify_earned_non_negative rate now e lw =
     Inr (if rate_drawn rate e then Passed else Discarded) \<and>
   verify_refund_non_negative deposit duration start now =
     Inr (if stream_drawn deposit duration (u64_max div 4) start now
          then Passed else Discarded)"
  by (intro conjI; rule verify_claimable_leq_deposit_ok verify_claimable_leq_deposit_after_withdrawal_ok
      verify_claimable_monotonic_ok verify_claimable_zero_before_cliff_ok
      verify_cancel_balance_conservation_ok verify_earned_non_negative_ok
      verify_refund_non_negative_ok)

end
