(* ===== verification/Treasury.thy ===== *)
theory Treasury
  imports Storage
begin

text \<open>
  The treasury contract (\<open>contracts/treasury/src/lib.rs\<close>): accounted balances per token, the
  admin's withdrawals, and the distribution of collected fees between a wallet and the LP pool.
  The contract has no error type, so every failure is a panic. Its plain operators panic on
  overflow (\<open>overflow-checks = true\<close>).
\<close>

section \<open>State\<close>

record treasury_storage =
  t_admin :: "address option"
  t_lp_pool :: "address option"
  t_split :: "nat option"
  t_balance :: "address \<rightharpoonup> int"

record 'w treasury_world =
  t_st :: treasury_storage
  t_ext :: 'w
  t_events :: "event list"

type_synonym ('w, 'a) treasury_response = "(unit, 'a \<times> 'w treasury_world) outcome"

definition treasury_genesis :: "'w \<Rightarrow> 'w treasury_world" where
  "treasury_genesis w =
     \<lparr>t_st = \<lparr>t_admin = None, t_lp_pool = None, t_split = None, t_balance = Map.empty\<rparr>,
      t_ext = w, t_events = []\<rparr>"

definition treasury_set :: "(treasury_storage \<Rightarrow> treasury_storage) \<Rightarrow> 'w treasury_world \<Rightarrow>
    'w treasury_world" where
  "treasury_set f W = W\<lparr>t_st := f (t_st W)\<rparr>"

definition treasury_transfer ::
    "'w env \<Rightarrow> address \<Rightarrow> address \<Rightarrow> int \<Rightarrow> 'w treasury_world \<Rightarrow>
     (unit, 'w treasury_world) outcome" where
  "treasury_transfer env token t amount W =
     (case token_transfer env token (current_contract env) t amount (t_ext W) of
        None \<Rightarrow> Inl (Panic Host_trap)
      | Some w \<Rightarrow> Inr (W\<lparr>t_ext := w\<rparr>))"

section \<open>Accessors\<close>

definition treasury_read_admin :: "treasury_storage \<Rightarrow> address option" where
  "treasury_read_admin s = t_admin s"

definition read_lp_pool :: "treasury_storage \<Rightarrow> address option" where
  "read_lp_pool s = t_lp_pool s"

definition read_treasury_split_bps :: "treasury_storage \<Rightarrow> nat" where
  "read_treasury_split_bps s = unwrap_or 10000 (t_split s)"

definition treasury_check_admin :: "'w env \<Rightarrow> treasury_storage \<Rightarrow> (unit, unit) outcome" where
  "treasury_check_admin env s =
     bindE (expect ''treasury not initialized'' (treasury_read_admin s)) (\<lambda>a. require_auth env a)"

section \<open>Instructions\<close>

definition treasury_initialize ::
    "'w env \<Rightarrow> address \<Rightarrow> 'w treasury_world \<Rightarrow> ('w, unit) treasury_response" where
  "treasury_initialize env admin W =
     (if treasury_read_admin (t_st W) \<noteq> None
      then Inl (Panic (Panic_msg ''treasury already initialized''))
      else Inr ((), treasury_set (\<lambda>s. s\<lparr>t_admin := Some admin\<rparr>) W))"

definition treasury_get_admin :: "'w treasury_world \<Rightarrow> address option" where
  "treasury_get_admin W = treasury_read_admin (t_st W)"

definition treasury_set_admin ::
    "'w env \<Rightarrow> address \<Rightarrow> 'w treasury_world \<Rightarrow> ('w, unit) treasury_response" where
  "treasury_set_admin env new_admin W =
     bindE (treasury_check_admin env (t_st W)) (\<lambda>_.
       Inr ((), treasury_set (\<lambda>s. s\<lparr>t_admin := Some new_admin\<rparr>) W))"

definition get_balance :: "'w treasury_world \<Rightarrow> address \<Rightarrow> int" where
  "get_balance W token = unwrap_or 0 (t_balance (t_st W) token)"

definition deposit ::
    "'w env \<Rightarrow> address \<Rightarrow> int \<Rightarrow> 'w treasury_world \<Rightarrow> ('w, unit) treasury_response" where
  "deposit env token amount W =
     (let current = unwrap_or 0 (t_balance (t_st W) token)
      in bindE (add_i128 current amount) (\<lambda>b.
           Inr ((), treasury_set (\<lambda>s. s\<lparr>t_balance := (t_balance s)(token \<mapsto> b)\<rparr>) W)))"

definition treasury_withdraw ::
    "'w env \<Rightarrow> address \<Rightarrow> int \<Rightarrow> address \<Rightarrow> 'w treasury_world \<Rightarrow>
     ('w, unit) treasury_response" where
  "treasury_withdraw env token amount destination W =
     bindE (treasury_check_admin env (t_st W)) (\<lambda>_.
       let current = unwrap_or 0 (t_balance (t_st W) token)
       in if amount > current then Inl (Panic (Panic_msg ''insufficient treasury balance''))
          else
          bindE (sub_i128 current amount) (\<lambda>b.
          let W1 = treasury_set (\<lambda>s. s\<lparr>t_balance := (t_balance s)(token \<mapsto> b)\<rparr>) W in
          bindE (treasury_transfer env token destination amount W1) (\<lambda>W2. Inr ((), W2))))"

definition withdraw_all ::
    "'w env \<Rightarrow> address \<Rightarrow> address \<Rightarrow> 'w treasury_world \<Rightarrow> ('w, int) treasury_response" where
  "withdraw_all env token destination W =
     bindE (treasury_check_admin env (t_st W)) (\<lambda>_.
       let current = unwrap_or 0 (t_balance (t_st W) token)
       in if current > 0 then
            let W1 = treasury_set (\<lambda>s. s\<lparr>t_balance := (t_balance s)(token := None)\<rparr>) W in
            bindE (treasury_transfer env token destination current W1) (\<lambda>W2. Inr (current, W2))
          else Inr (current, W))"

definition set_lp_pool ::
    "'w env \<Rightarrow> address \<Rightarrow> 'w treasury_world \<Rightarrow> ('w, unit) treasury_response" where
  "set_lp_pool env lp_pool W =
     bindE (treasury_check_admin env (t_st W)) (\<lambda>_.
       Inr ((), treasury_set (\<lambda>s. s\<lparr>t_lp_pool := Some lp_pool\<rparr>) W))"

definition get_lp_pool :: "'w treasury_world \<Rightarrow> address option" where
  "get_lp_pool W = read_lp_pool (t_st W)"

definition set_treasury_split ::
    "'w env \<Rightarrow> nat \<Rightarrow> 'w treasury_world \<Rightarrow> ('w, unit) treasury_response" where
  "set_treasury_split env treasury_bps W =
     bindE (treasury_check_admin env (t_st W)) (\<lambda>_.
       if treasury_bps > 10000 then Inl (Panic (Panic_msg ''treasury_bps exceeds 10_000''))
       else Inr ((), treasury_set (\<lambda>s. s\<lparr>t_split := Some treasury_bps\<rparr>) W))"

definition get_treasury_split :: "'w treasury_world \<Rightarrow> nat" where
  "get_treasury_split W = read_treasury_split_bps (t_st W)"

definition distribute ::
    "'w env \<Rightarrow> address \<Rightarrow> address \<Rightarrow> 'w treasury_world \<Rightarrow> ('w, int \<times> int) treasury_response" where
  "distribute env token destination W =
     bindE (treasury_check_admin env (t_st W)) (\<lambda>_.
       let total = unwrap_or 0 (t_balance (t_st W) token)
       in if total = 0 then Inr ((0, 0), W)
          else
          let treasury_bps = read_treasury_split_bps (t_st W) in
          bindE (mul_i128 total (int treasury_bps)) (\<lambda>p.
          bindE (div_i128 p 10000) (\<lambda>treasury_amount.
          bindE (sub_i128 total treasury_amount) (\<lambda>lp_amount.
          let W1 = treasury_set (\<lambda>s. s\<lparr>t_balance := (t_balance s)(token := None)\<rparr>) W in
          bindE (if treasury_amount > 0
                 then treasury_transfer env token destination treasury_amount W1
                 else Inr W1) (\<lambda>W2.
          bindE (if lp_amount > 0
                 then bindE (expect ''lp_pool not configured'' (read_lp_pool (t_st W2)))
                        (\<lambda>lp_pool. treasury_transfer env token lp_pool lp_amount W2)
                 else Inr W2) (\<lambda>W3.
            let W4 = W3\<lparr>t_events := t_events W3 @
                  [([VSym ''FeeDistributed''],
                    [VAddr token, VI128 treasury_amount, VI128 lp_amount])]\<rparr>
            in Inr ((treasury_amount, lp_amount), W4)))))))"

section \<open>Facts about the steps\<close>

lemma treasury_set_simps [simp]:
  "t_st (treasury_set f W) = f (t_st W)" "t_ext (treasury_set f W) = t_ext W"
  "t_events (treasury_set f W) = t_events W"
  by (simp_all add: treasury_set_def)

lemma treasury_transfer_Inr [outcome]:
  "treasury_transfer env token t a W = Inr W' \<longleftrightarrow>
     (\<exists>w. token_transfer env token (current_contract env) t a (t_ext W) = Some w \<and>
          W' = W\<lparr>t_ext := w\<rparr>)"
  by (auto simp: treasury_transfer_def split: option.splits)

lemma treasury_check_admin_Inr [outcome]:
  "treasury_check_admin env s = Inr u \<longleftrightarrow> (\<exists>a. t_admin s = Some a \<and> authorizes env a)"
  by (auto simp: treasury_check_admin_def treasury_read_admin_def outcome)

lemma rounded_share:
  assumes "0 \<le> (a::int)" "n \<le> 10000"
  shows "0 \<le> a * int n div 10000" "a * int n div 10000 \<le> a"
proof -
  have "a * int n \<le> a * 10000" using assms by (simp add: mult_left_mono)
  then have "a * int n div 10000 \<le> a * 10000 div 10000" by (rule zdiv_mono1) simp
  then show "a * int n div 10000 \<le> a" by simp
  show "0 \<le> a * int n div 10000" using assms by (simp add: pos_imp_zdiv_nonneg_iff)
qed

section \<open>The treasury as a machine\<close>

text \<open>Any caller, any instruction; an aborted invocation changes nothing.\<close>

inductive treasury_step :: "'w treasury_world \<Rightarrow> 'w treasury_world \<Rightarrow> bool" where
  t_initialize: "treasury_initialize env a W = Inr (u, W') \<Longrightarrow> treasury_step W W'"
| t_set_admin: "treasury_set_admin env a W = Inr (u, W') \<Longrightarrow> treasury_step W W'"
| t_deposit: "deposit env tok n W = Inr (u, W') \<Longrightarrow> treasury_step W W'"
| t_withdraw: "treasury_withdraw env tok n d W = Inr (u, W') \<Longrightarrow> treasury_step W W'"
| t_withdraw_all: "withdraw_all env tok d W = Inr (r, W') \<Longrightarrow> treasury_step W W'"
| t_set_lp_pool: "set_lp_pool env a W = Inr (u, W') \<Longrightarrow> treasury_step W W'"
| t_set_split: "set_treasury_split env bps W = Inr (u, W') \<Longrightarrow> treasury_step W W'"
| t_distribute: "distribute env tok d W = Inr (p, W') \<Longrightarrow> treasury_step W W'"
| t_outside: "treasury_step W (W\<lparr>t_ext := w\<rparr>)"

text \<open>The configured split is a share, and the accounted balances stay in \<open>i128\<close>.\<close>

definition treasury_ok :: "'w treasury_world \<Rightarrow> bool" where
  "treasury_ok W \<longleftrightarrow>
     (\<forall>n. t_split (t_st W) = Some n \<longrightarrow> n \<le> 10000) \<and>
     (\<forall>tok b. t_balance (t_st W) tok = Some b \<longrightarrow> in_i128 b)"

interpretation treasury: machine_invariant treasury_step treasury_ok
proof unfold_locales
  fix W W' :: "'w treasury_world"
  assume "treasury_ok W" "treasury_step W W'"
  from this(2,1) show "treasury_ok W'"
    by cases (auto simp: treasury_ok_def treasury_initialize_def treasury_set_admin_def
        deposit_def treasury_withdraw_def withdraw_all_def set_lp_pool_def
        set_treasury_split_def distribute_def Let_def outcome split: if_splits)
qed

text \<open>
  C32: after any sequence of treasury calls by anyone the effective split is at most 100%, so a
  distribution of a balance that is not negative never promises more than it has.
\<close>

theorem treasury_split_bounded:
  assumes "runs treasury_step (treasury_genesis w) W"
  shows "get_treasury_split W \<le> 10000 \<and> in_i128 (get_balance W tok)"
proof -
  have "treasury_ok (treasury_genesis w)" by (simp add: treasury_ok_def treasury_genesis_def)
  from treasury.runs_inv [OF assms this] show ?thesis
    by (auto simp: treasury_ok_def get_treasury_split_def read_treasury_split_bps_def
        get_balance_def unwrap_or_def split: option.split)
qed

lemmas treasury_eval =
  treasury_genesis_def treasury_set_def treasury_transfer_def treasury_read_admin_def
  read_lp_pool_def read_treasury_split_bps_def treasury_check_admin_def require_auth_def
  ledger_transfer_def Let_def rust_int in_i128_def i128_min_def i128_max_def
  div_i128_def signed_divide_int_def

theorem treasury_split_bounded_witness:
  "\<exists>W. runs treasury_step (treasury_genesis ((\<lambda>_ _. 0) :: ledger)) W \<and> get_balance W (Addr 9) = 500 \<and>
       get_treasury_split W \<le> 10000 \<and> in_i128 (get_balance W (Addr 9))"
proof -
  obtain W where W: "deposit (ledger_env 0 (Addr 0) []) (Addr 9) 500
      (treasury_genesis ((\<lambda>_ _. 0) :: ledger)) = Inr ((), W)" and b: "get_balance W (Addr 9) = 500"
    by (simp add: deposit_def get_balance_def treasury_eval)
  have run: "runs treasury_step (treasury_genesis ((\<lambda>_ _. 0) :: ledger)) W"
    by (rule runs_step, rule runs_refl, rule t_deposit [OF W])
  from treasury_split_bounded [OF run, of "Addr 9"] run b show ?thesis by blast
qed

section \<open>Distribution\<close>

lemma treasury_pay:
  assumes "sac env tok" "0 \<le> a"
    and "(if 0 < a then treasury_transfer env tok t a W else Inr W) = Inr W'"
  shows "token_balance env tok x (t_ext W') = token_balance env tok x (t_ext W)
      - (if x = current_contract env then a else 0) + (if x = t then a else 0)"
    and "t_st W' = t_st W"
  using assms sacD(3) [OF assms(1)] by (auto simp: treasury_transfer_Inr split: if_splits)

text \<open>
  C31: a distribution of a positive accounted balance by the admin pays the wallet the floored
  share and the LP pool the rest, together exactly the accounted balance, which is then zero;
  with an honest token the two receive exactly these amounts and the treasury's tokens fall by
  the total.
\<close>

theorem distribute_exact:
  assumes "distribute env tok dest W = Inr ((ta, la), W')"
    and "0 < get_balance W tok" "get_treasury_split W \<le> 10000" "sac env tok"
    and "dest \<noteq> current_contract env" "get_lp_pool W = Some lp" "lp \<noteq> current_contract env"
    and "dest \<noteq> lp"
  shows "ta = get_balance W tok * int (get_treasury_split W) div 10000 \<and>
         ta + la = get_balance W tok \<and> 0 \<le> ta \<and> 0 \<le> la \<and> get_balance W' tok = 0 \<and>
         token_balance env tok dest (t_ext W') = token_balance env tok dest (t_ext W) + ta \<and>
         token_balance env tok lp (t_ext W') = token_balance env tok lp (t_ext W) + la \<and>
         token_balance env tok (current_contract env) (t_ext W') =
           token_balance env tok (current_contract env) (t_ext W) - get_balance W tok"
proof -
  let ?b = "get_balance W tok" and ?n = "get_treasury_split W"
  note share = rounded_share [of ?b ?n]
  let ?W1 = "treasury_set (\<lambda>s. s\<lparr>t_balance := (t_balance s)(tok := None)\<rparr>) W"
  have b: "unwrap_or 0 (t_balance (t_st W) tok) = ?b" "read_treasury_split_bps (t_st W) = ?n"
    by (simp_all add: get_balance_def get_treasury_split_def)
  from assms(1,2) obtain W2 W3 where
    ta: "ta = ?b * int ?n div 10000" and la: "la = ?b - ta"
    and W2: "(if 0 < ta then treasury_transfer env tok dest ta ?W1 else Inr ?W1) = Inr W2"
    and W3: "(if 0 < la
        then bindE (expect ''lp_pool not configured'' (read_lp_pool (t_st W2)))
               (\<lambda>p. treasury_transfer env tok p la W2)
        else Inr W2) = Inr W3"
    and W': "t_ext W' = t_ext W3" "t_st W' = t_st W3"
    by (auto simp: distribute_def Let_def b bindE_eq_Inr plain_eq_Inr div_i128_nonneg)
  have pos: "0 \<le> ta" "0 \<le> la" using share ta la assms(2,3) by simp_all
  note one = treasury_pay [OF assms(4) pos(1) W2]
  have "read_lp_pool (t_st W2) = Some lp"
    using one(2) assms(6) by (simp add: get_lp_pool_def read_lp_pool_def)
  with W3 have "(if 0 < la then treasury_transfer env tok lp la W2 else Inr W2) = Inr W3"
    by (simp split: if_splits)
  note two = treasury_pay [OF assms(4) pos(2) this]
  have "t_balance (t_st W') tok = None" by (simp add: W' one(2) two(2))
  then have "get_balance W' tok = 0" by (simp add: get_balance_def)
  with ta la pos assms(5-8) show ?thesis by (simp add: W' one(1) two(1))
qed

theorem distribute_exact_witness:
  "\<exists>W ta la W'. distribute (ledger_env 0 (Addr 0) [Addr 1]) (Addr 9) (Addr 2) W
       = Inr ((ta, la), W') \<and> get_balance W (Addr 9) = 1001 \<and> ta + la = 1001 \<and> ta = 750"
proof -
  let ?env = "ledger_env 0 (Addr 0) [Addr 1]"
  define W :: "ledger treasury_world" where
    "W = \<lparr>t_st = \<lparr>t_admin = Some (Addr 1), t_lp_pool = Some (Addr 3), t_split = Some 7500,
                t_balance = [Addr 9 \<mapsto> 1001]\<rparr>,
          t_ext = (\<lambda>_ a. if a = Addr 0 then 5000 else 0), t_events = []\<rparr>"
  obtain ta la W' where run: "distribute ?env (Addr 9) (Addr 2) W = Inr ((ta, la), W')"
    by (simp add: W_def distribute_def treasury_eval)
  have b: "get_balance W (Addr 9) = 1001" "get_treasury_split W = 7500"
    "get_lp_pool W = Some (Addr 3)"
    by (simp_all add: W_def get_balance_def get_treasury_split_def read_treasury_split_bps_def
        get_lp_pool_def read_lp_pool_def)
  have "sac ?env (Addr 9)" using ledger_honest by (simp add: honest_token_def)
  from distribute_exact [OF run _ _ this _ b(3)] b
  have "ta + la = 1001" "ta = 750" by auto
  with run b(1) show ?thesis by blast
qed

section \<open>Unauthenticated deposits\<close>

text \<open>
  C33: anyone can deposit an amount that no transfer backs, and from then on the admin's
  \<open>withdraw_all\<close> traps, as the honest token refuses to pay more than the treasury has: the
  accounted balance is not tied to the tokens held.
\<close>

theorem unbacked_deposit_blocks_withdraw_all:
  assumes "sac env tok" "0 \<le> get_balance W tok" "in_i128 (get_balance W tok + n)" "0 < n"
    and "token_balance env tok (current_contract env) (t_ext W) < get_balance W tok + n"
    and "t_admin (t_st W) = Some a" "authorizes env a"
  shows "\<exists>W'. deposit (env\<lparr>authorizes := \<lambda>_. False\<rparr>) tok n W = Inr ((), W') \<and>
              t_ext W' = t_ext W \<and> withdraw_all env tok d W' = Inl (Panic Host_trap)"
proof -
  let ?b = "get_balance W tok + n"
  let ?W = "treasury_set (\<lambda>s. s\<lparr>t_balance := (t_balance s)(tok \<mapsto> ?b)\<rparr>) W"
  have "deposit (env\<lparr>authorizes := \<lambda>_. False\<rparr>) tok n W = Inr ((), ?W)"
    using assms(3) by (simp add: deposit_def Let_def get_balance_def add_i128_def)
  moreover have "withdraw_all env tok d ?W = Inl (Panic Host_trap)"
  proof -
    have "token_transfer env tok (current_contract env) d ?b (t_ext W) = None"
      using assms(1,5) by (metis option.exhaust sacD(2) not_le)
    moreover have "treasury_check_admin env (t_st ?W) = Inr ()"
      using assms(6,7) by (simp add: treasury_check_admin_Inr)
    ultimately show ?thesis
      using assms(2,4) by (simp add: withdraw_all_def Let_def treasury_transfer_def)
  qed
  ultimately show ?thesis by (intro exI [of _ ?W]) simp
qed

theorem unbacked_deposit_blocks_withdraw_all_witness:
  "\<exists>W'. deposit ((ledger_env 0 (Addr 0) [Addr 1])\<lparr>authorizes := \<lambda>_. False\<rparr>) (Addr 9) 1
            ((treasury_genesis (\<lambda>_ _. 0))\<lparr>t_st := \<lparr>t_admin = Some (Addr 1), t_lp_pool = None,
               t_split = None, t_balance = Map.empty\<rparr>\<rparr>) = Inr ((), W') \<and>
        t_ext W' = t_ext (treasury_genesis (\<lambda>_ _. 0)) \<and>
        withdraw_all (ledger_env 0 (Addr 0) [Addr 1]) (Addr 9) (Addr 2) W'
          = Inl (Panic Host_trap)"
proof -
  let ?env = "ledger_env 0 (Addr 0) [Addr 1]"
  let ?W = "(treasury_genesis ((\<lambda>_ _. 0) :: ledger))\<lparr>t_st := \<lparr>t_admin = Some (Addr 1),
      t_lp_pool = None, t_split = None, t_balance = Map.empty\<rparr>\<rparr>"
  have "sac ?env (Addr 9)" using ledger_honest by (simp add: honest_token_def)
  from unbacked_deposit_blocks_withdraw_all [OF this, of ?W 1 "Addr 1" "Addr 2"]
  show ?thesis by (simp add: treasury_genesis_def get_balance_def in_i128_def i128_min_def
        i128_max_def)
qed

end
