(* ===== verification/Proxy.thy ===== *)
theory Proxy
  imports Storage
begin

text \<open>
  The proxy contract (\<open>contracts/proxy/src/lib.rs\<close>): the admin, the hash of the current
  implementation and the storage layout version, which an upgrade has to name correctly.
\<close>

section \<open>State\<close>

datatype proxy_error =
    Proxy_NotInitialized
  | Proxy_AlreadyInitialized
  | Proxy_NotAdmin
  | Proxy_StorageVersionMismatch
  | Proxy_MigrationAlreadyApplied

record proxy_storage =
  x_admin :: "address option"
  x_impl :: "bytes option"
  x_sv :: "nat option"

record 'w proxy_world =
  x_st :: proxy_storage
  x_ext :: 'w
  x_events :: "event list"

type_synonym ('w, 'a) proxy_response = "(proxy_error, 'a \<times> 'w proxy_world) outcome"

definition proxy_genesis :: "'w \<Rightarrow> 'w proxy_world" where
  "proxy_genesis w =
     \<lparr>x_st = \<lparr>x_admin = None, x_impl = None, x_sv = None\<rparr>, x_ext = w, x_events = []\<rparr>"

definition proxy_set :: "(proxy_storage \<Rightarrow> proxy_storage) \<Rightarrow> 'w proxy_world \<Rightarrow> 'w proxy_world" where
  "proxy_set f W = W\<lparr>x_st := f (x_st W)\<rparr>"

definition proxy_publish :: "event \<Rightarrow> 'w proxy_world \<Rightarrow> 'w proxy_world" where
  "proxy_publish e W = W\<lparr>x_events := x_events W @ [e]\<rparr>"

section \<open>Accessors\<close>

definition proxy_read_admin :: "proxy_storage \<Rightarrow> address option" where
  "proxy_read_admin s = x_admin s"

definition proxy_check_admin :: "'w env \<Rightarrow> proxy_storage \<Rightarrow> (proxy_error, address) outcome" where
  "proxy_check_admin env s =
     bindE (expect ''proxy not initialized'' (proxy_read_admin s)) (\<lambda>admin.
     bindE (require_auth env admin) (\<lambda>_. Inr admin))"

definition read_impl_hash :: "proxy_storage \<Rightarrow> bytes option" where
  "read_impl_hash s = x_impl s"

definition read_storage_version :: "proxy_storage \<Rightarrow> nat" where
  "read_storage_version s = unwrap_or 0 (x_sv s)"

section \<open>Instructions\<close>

definition proxy_initialize ::
    "'w env \<Rightarrow> address \<Rightarrow> bytes \<Rightarrow> nat \<Rightarrow> 'w proxy_world \<Rightarrow> ('w, unit) proxy_response" where
  "proxy_initialize env admin impl_hash initial_storage_version W =
     (if proxy_read_admin (x_st W) \<noteq> None then Inl (Err Proxy_AlreadyInitialized)
      else let W1 = proxy_set (\<lambda>s. s\<lparr>x_admin := Some admin\<rparr>) W;
               W2 = proxy_set (\<lambda>s. s\<lparr>x_impl := Some impl_hash\<rparr>) W1;
               W3 = proxy_set (\<lambda>s. s\<lparr>x_sv := Some initial_storage_version\<rparr>) W2
           in Inr ((), proxy_publish ([VSym ''ProxyInitialized''],
                [VAddr admin, VBytes impl_hash, VU32 initial_storage_version]) W3))"

definition proxy_get_admin :: "'w proxy_world \<Rightarrow> (proxy_error, address) outcome" where
  "proxy_get_admin W = ok_or Proxy_NotInitialized (proxy_read_admin (x_st W))"

definition proxy_set_admin ::
    "'w env \<Rightarrow> address \<Rightarrow> 'w proxy_world \<Rightarrow> ('w, unit) proxy_response" where
  "proxy_set_admin env new_admin W =
     bindE (proxy_check_admin env (x_st W)) (\<lambda>_.
       Inr ((), proxy_set (\<lambda>s. s\<lparr>x_admin := Some new_admin\<rparr>) W))"

definition get_impl_hash :: "'w proxy_world \<Rightarrow> (proxy_error, bytes) outcome" where
  "get_impl_hash W = ok_or Proxy_NotInitialized (read_impl_hash (x_st W))"

definition get_storage_version :: "'w proxy_world \<Rightarrow> nat" where
  "get_storage_version W = read_storage_version (x_st W)"

definition proxy_upgrade ::
    "'w env \<Rightarrow> bytes \<Rightarrow> nat \<Rightarrow> nat \<Rightarrow> 'w proxy_world \<Rightarrow> ('w, unit) proxy_response" where
  "proxy_upgrade env new_impl_hash expected_storage_version new_storage_version W =
     bindE (proxy_check_admin env (x_st W)) (\<lambda>admin.
       let current_version = read_storage_version (x_st W)
       in if current_version \<noteq> expected_storage_version
          then Inl (Err Proxy_StorageVersionMismatch)
          else
          bindE (ok_or Proxy_NotInitialized (read_impl_hash (x_st W))) (\<lambda>old_hash.
            let W1 = proxy_set (\<lambda>s. s\<lparr>x_impl := Some new_impl_hash\<rparr>) W;
                W2 = proxy_set (\<lambda>s. s\<lparr>x_sv := Some new_storage_version\<rparr>) W1
            in Inr ((), proxy_publish ([VSym ''ProxyUpgraded''],
                 [VAddr admin, VBytes old_hash, VBytes new_impl_hash,
                  VU32 new_storage_version]) W2)))"

definition upgrade_proxy ::
    "'w env \<Rightarrow> bytes \<Rightarrow> 'w proxy_world \<Rightarrow> ('w, unit) proxy_response" where
  "upgrade_proxy env new_wasm_hash W =
     bindE (proxy_check_admin env (x_st W)) (\<lambda>_.
       case update_wasm env new_wasm_hash (x_ext W) of
         None \<Rightarrow> Inl (Panic Host_trap)
       | Some w \<Rightarrow> Inr ((), W\<lparr>x_ext := w\<rparr>))"

text \<open>The reply is decoded as a unit result and dropped; any other value traps.\<close>

definition proxy_migrate ::
    "'w env \<Rightarrow> address \<Rightarrow> string \<Rightarrow> string \<Rightarrow> 'w proxy_world \<Rightarrow> ('w, unit) proxy_response" where
  "proxy_migrate env impl_contract from_version to_version W =
     bindE (proxy_check_admin env (x_st W)) (\<lambda>_.
       case invoke_contract env impl_contract ''migrate'' [VStr from_version, VStr to_version]
              (x_ext W) of
         None \<Rightarrow> Inl (Panic Host_trap)
       | Some (r, w) \<Rightarrow>
           if r \<noteq> VUnit then Inl (Panic Host_trap)
           else Inr ((), proxy_publish ([VSym ''ProxyMigrated''],
                  [VStr from_version, VStr to_version]) (W\<lparr>x_ext := w\<rparr>)))"

section \<open>Facts\<close>

lemma proxy_simps [simp]:
  "x_st (proxy_set f W) = f (x_st W)" "x_st (proxy_publish e W) = x_st W"
  "x_ext (proxy_set f W) = x_ext W" "x_ext (proxy_publish e W) = x_ext W"
  "x_events (proxy_set f W) = x_events W" "x_events (proxy_publish e W) = x_events W @ [e]"
  by (simp_all add: proxy_set_def proxy_publish_def)

lemma proxy_check_admin_Inr [outcome]:
  "proxy_check_admin env s = Inr a \<longleftrightarrow> x_admin s = Some a \<and> authorizes env a"
  by (auto simp: proxy_check_admin_def proxy_read_admin_def outcome)

section \<open>The proxy as a machine\<close>

inductive proxy_step :: "'w proxy_world \<Rightarrow> 'w proxy_world \<Rightarrow> bool" where
  x_initialize: "proxy_initialize env a h v W = Inr (u, W') \<Longrightarrow> proxy_step W W'"
| x_set_admin: "proxy_set_admin env a W = Inr (u, W') \<Longrightarrow> proxy_step W W'"
| x_upgrade: "proxy_upgrade env h v v' W = Inr (u, W') \<Longrightarrow> proxy_step W W'"
| x_upgrade_proxy: "upgrade_proxy env h W = Inr (u, W') \<Longrightarrow> proxy_step W W'"
| x_migrate: "proxy_migrate env c v v' W = Inr (u, W') \<Longrightarrow> proxy_step W W'"
| x_outside: "proxy_step W (W\<lparr>x_ext := w\<rparr>)"

text \<open>Admin, implementation hash and version are set together, and never unset.\<close>

definition proxy_ok :: "'w proxy_world \<Rightarrow> bool" where
  "proxy_ok W \<longleftrightarrow>
     (x_admin (x_st W) = None \<longleftrightarrow> x_impl (x_st W) = None) \<and>
     (x_admin (x_st W) = None \<longleftrightarrow> x_sv (x_st W) = None)"

interpretation proxy: machine_invariant proxy_step proxy_ok
proof unfold_locales
  fix W W' :: "'w proxy_world"
  assume "proxy_ok W" "proxy_step W W'"
  from this(2,1) show "proxy_ok W'"
    by cases (auto simp: proxy_ok_def proxy_initialize_def proxy_set_admin_def
        proxy_upgrade_def upgrade_proxy_def proxy_migrate_def proxy_read_admin_def
        read_impl_hash_def Let_def outcome split: if_splits option.splits)
qed

text \<open>
  C34: the upgrade guard. In any state the proxy can reach, an upgrade the admin authorises
  succeeds exactly when it names the stored storage version, and then installs the new hash and
  the new version; a wrong version is refused with the mismatch error, and without the admin's
  authorisation the call traps. So of two upgrades prepared against the same version, and which
  change it, only the first can succeed.
\<close>

theorem proxy_upgrade_guard:
  assumes "runs proxy_step (proxy_genesis w) W" "x_admin (x_st W) = Some a"
  shows "(\<not> authorizes env a \<longrightarrow> proxy_upgrade env h v v' W = Inl (Panic Auth_failed)) \<and>
         (authorizes env a \<and> get_storage_version W \<noteq> v \<longrightarrow>
            proxy_upgrade env h v v' W = Inl (Err Proxy_StorageVersionMismatch)) \<and>
         (authorizes env a \<and> get_storage_version W = v \<longrightarrow>
            (\<exists>W'. proxy_upgrade env h v v' W = Inr ((), W') \<and> get_impl_hash W' = Inr h \<and>
                  get_storage_version W' = v' \<and>
                  (v' \<noteq> v \<longrightarrow> proxy_upgrade env h2 v v2 W'
                               = Inl (Err Proxy_StorageVersionMismatch))))"
proof -
  have "proxy_ok (proxy_genesis w)" by (simp add: proxy_ok_def proxy_genesis_def)
  from proxy.runs_inv [OF assms(1) this] assms(2) obtain h0 where "x_impl (x_st W) = Some h0"
    by (auto simp: proxy_ok_def)
  with assms(2) show ?thesis
    by (auto simp: proxy_upgrade_def proxy_check_admin_def proxy_read_admin_def require_auth_def
        read_impl_hash_def read_storage_version_def get_storage_version_def get_impl_hash_def
        Let_def)
qed

theorem proxy_upgrade_guard_witness:
  "\<exists>W W'. runs proxy_step (proxy_genesis (\<lambda>_ _. 0)) W \<and>
      proxy_upgrade (ledger_env 0 (Addr 0) [Addr 1]) [2] 7 8 W = Inr ((), W') \<and>
      get_impl_hash W' = Inr [2] \<and> get_storage_version W' = 8 \<and>
      proxy_upgrade (ledger_env 0 (Addr 0) [Addr 1]) [3] 7 9 W'
        = Inl (Err Proxy_StorageVersionMismatch)"
proof -
  let ?env = "ledger_env 0 (Addr 0) [Addr 1]"
  obtain W where W: "proxy_initialize ?env (Addr 1) [1] 7 (proxy_genesis (\<lambda>_ _. 0)) = Inr ((), W)"
    and a: "x_admin (x_st W) = Some (Addr 1)" and v: "get_storage_version W = 7"
    by (simp add: proxy_initialize_def proxy_read_admin_def proxy_genesis_def Let_def
        get_storage_version_def read_storage_version_def proxy_set_def)
  have run: "runs proxy_step (proxy_genesis (\<lambda>_ _. 0)) W"
    by (rule runs_step, rule runs_refl, rule x_initialize [OF W])
  from proxy_upgrade_guard [OF run a, of ?env "[2]" 7 8 "[3]" 9] v
  show ?thesis using run by auto
qed

end
