(* ===== verification/Composition.thy ===== *)
theory Composition
  imports Claims Treasury
begin

text \<open>
  The stream contract together with the treasury contract: the calls that \<open>Host\<close> leaves to a
  parameter are answered by the treasury's own instructions. The outside state is a token ledger
  and the treasury's storage. This shows that the documented behaviour assumed of the outside is
  met with the repository's treasury in place, and what becomes of the protocol fees across the
  two contracts.
\<close>

section \<open>Two contracts on one ledger\<close>

record platform =
  tokens :: ledger
  vault :: treasury_storage

text \<open>
  The environment the treasury runs in when the stream contract calls it: its own address, the
  tokens of the platform, and the signatures of the invocation (which a direct caller adds its
  own to).
\<close>

definition vault_env :: "address \<Rightarrow> (address \<Rightarrow> bool) \<Rightarrow> ledger env" where
  "vault_env treasury signs = (ledger_env 0 treasury [])\<lparr>authorizes := signs\<rparr>"

definition vault_world :: "platform \<Rightarrow> ledger treasury_world" where
  "vault_world P = \<lparr>t_st = vault P, t_ext = tokens P, t_events = []\<rparr>"

definition vault_result ::
    "('a \<Rightarrow> val) \<Rightarrow> (unit, 'a \<times> ledger treasury_world) outcome \<Rightarrow> (val \<times> platform) option" where
  "vault_result f m =
     (case m of
        Inr (a, W) \<Rightarrow> Some (f a, \<lparr>tokens = t_ext W, vault = t_st W\<rparr>)
      | Inl _ \<Rightarrow> None)"

text \<open>The entry points of the treasury that the stream contract calls, by name and arguments.\<close>

definition vault_call ::
    "ledger env \<Rightarrow> string \<Rightarrow> val list \<Rightarrow> platform \<Rightarrow> (val \<times> platform) option" where
  "vault_call env fn args P =
     (case args of
        [VAddr token, VI128 amount] \<Rightarrow>
          if fn = ''deposit''
          then vault_result (\<lambda>_. VUnit) (deposit env token amount (vault_world P)) else None
      | [VAddr token, VI128 amount, VAddr destination] \<Rightarrow>
          if fn = ''withdraw_treasury''
          then vault_result (\<lambda>_. VUnit)
                 (treasury_withdraw env token amount destination (vault_world P)) else None
      | [VAddr token, VAddr destination] \<Rightarrow>
          if fn = ''withdraw_all''
          then vault_result VI128 (withdraw_all env token destination (vault_world P)) else None
      | _ \<Rightarrow> None)"

definition platform_env ::
    "address \<Rightarrow> address \<Rightarrow> (address \<Rightarrow> bool) \<Rightarrow> platform env" where
  "platform_env self treasury signs =
     \<lparr>ledger_timestamp = 0, current_contract = self, authorizes = signs,
      token_transfer = (\<lambda>tok f t a P.
        map_option (\<lambda>l. P\<lparr>tokens := l\<rparr>) (ledger_transfer tok f t a (tokens P))),
      token_balance = (\<lambda>tok a P. tokens P tok a),
      invoke_contract = (\<lambda>c fn args P.
        if c = treasury
        then vault_call (vault_env treasury (\<lambda>a. signs a \<or> a = self)) fn args P else None),
      update_wasm = (\<lambda>h P. Some P),
      sha256 = (\<lambda>bs. bs), to_xdr = (\<lambda>a. case a of Addr n \<Rightarrow> [word_of_nat n])\<rparr>"

lemma platform_env_simps [simp]:
  "current_contract (platform_env self tr sg) = self"
  "authorizes (platform_env self tr sg) = sg"
  "token_balance (platform_env self tr sg) tok a P = tokens P tok a"
  "token_transfer (platform_env self tr sg) tok f t n P
     = map_option (\<lambda>l. P\<lparr>tokens := l\<rparr>) (ledger_transfer tok f t n (tokens P))"
  "invoke_contract (platform_env self tr sg) c fn args P
     = (if c = tr then vault_call (vault_env tr (\<lambda>a. sg a \<or> a = self)) fn args P else None)"
  by (simp_all add: platform_env_def)

lemma vault_env_simps [simp]:
  "current_contract (vault_env tr sg) = tr" "authorizes (vault_env tr sg) = sg"
  "token_transfer (vault_env tr sg) = ledger_transfer"
  by (simp_all add: vault_env_def ledger_env_def)

lemma ledger_transfer_Some:
  "ledger_transfer tok f t a l = Some l' \<Longrightarrow>
     l' tk x = l tk x - (if tk = tok \<and> x = f then a else 0) + (if tk = tok \<and> x = t then a else 0)"
  "ledger_transfer tok f t a l = Some l' \<Longrightarrow> 0 \<le> a \<and> a \<le> l tok f"
  by (auto simp: ledger_transfer_def Let_def split: if_splits)

text \<open>The treasury only moves its own tokens, so whoever else is not poorer after a call.\<close>

lemma vault_call_keeps:
  assumes "vault_call (vault_env tr sg) fn args P = Some (r, P')" "x \<noteq> tr"
  shows "tokens P tok x \<le> tokens P' tok x"
  using assms
  by (auto simp: vault_call_def vault_result_def vault_world_def deposit_def treasury_withdraw_def
      withdraw_all_def Let_def bindE_eq_Inr treasury_transfer_Inr ledger_transfer_Some
      split: list.splits val.splits if_splits sum.splits)

lemma platform_honest:
  assumes "self \<noteq> tr"
  shows "honest_token (platform_env self tr sg) tok"
proof -
  have "sac (platform_env self tr sg) tok"
    by (auto simp: sac_def ledger_transfer_Some)
  moreover have "isolated (platform_env self tr sg) tok"
    using vault_call_keeps [OF _ assms]
    by (auto simp: isolated_def ledger_transfer_Some platform_env_def split: if_splits)
  ultimately show ?thesis by (simp add: honest_token_def)
qed

section \<open>What the treasury has and what it accounts for\<close>

definition accounted :: "platform \<Rightarrow> address \<Rightarrow> int" where
  "accounted P tok = get_balance (vault_world P) tok"

lemma accounted_eq: "accounted P tok = unwrap_or 0 (t_balance (vault P) tok)"
  by (simp add: accounted_def get_balance_def vault_world_def)

lemma transfer_vault:
  "transfer (platform_env self tr sg) tk f t a W = Inr W' \<Longrightarrow> vault (ext W') = vault (ext W)"
  by (auto simp: transfer_Inr)

lemma pay_if_positive_vault:
  "pay_if_positive (platform_env self tr sg) tk t a W = Inr W' \<Longrightarrow> vault (ext W') = vault (ext W)"
  by (auto simp: pay_if_positive_Inr split: if_splits)

text \<open>A batch withdrawal pays a claim as a withdrawal does, and then announces the fee.\<close>

lemma pay_claim_batch_inv:
  assumes op: "pay_claim_batch env x r c W = Inr W'" and tr: "get_treasury (st W) = Some tr"
  obtains ra W1 where "pay_claim env k x r c W = Inr (ra, W1)"
    "ext W' = (if 0 < c - ra
       then ext (try_invoke env tr ''deposit'' [VAddr (s_token x), VI128 (c - ra)] W1)
       else ext W1)"
proof -
  obtain fee W2 where fee: "fee_on_claim (st W) (s_recipient x) c = Inr fee" "in_i128 (c - fee)"
    and W2: "pay_if_positive env (s_token x) r (c - fee) W = Inr W2"
    and rest: "(if 0 < fee then
        (case get_treasury (st W2) of
           Some tr \<Rightarrow> bindE (transfer env (s_token x) (current_contract env) tr fee W2)
             (\<lambda>W3. Inr (try_invoke env tr ''deposit'' [VAddr (s_token x), VI128 fee] W3))
         | None \<Rightarrow> Inr W2)
      else Inr W2) = (Inr W' :: (stream_error, _) outcome)"
    using op by (auto simp: pay_claim_batch_def bindE_eq_Inr plain_eq_Inr)
  have tr2: "get_treasury (st W2) = Some tr" using tr pay_if_positive_st [OF W2] by simp
  show thesis
  proof (cases "0 < fee")
    case True
    with rest tr2 obtain W3 where
      W3: "transfer env (s_token x) (current_contract env) tr fee W2
        = (Inr W3 :: (stream_error, _) outcome)"
      and W': "W' = try_invoke env tr ''deposit'' [VAddr (s_token x), VI128 fee] W3"
      by (auto simp: bindE_eq_Inr)
    have "pay_claim env k x r c W = Inr (c - fee, publish (ev_fee_collected k fee tr) W3)"
      using fee W2 W3 True tr2 by (simp add: pay_claim_def sub_i128_def)
    then show thesis
      by (rule that) (use True W' in \<open>simp add: try_invoke_def split: option.split\<close>)
  next
    case False
    have "pay_claim env k x r c W = Inr (c - fee, W2)"
      using fee W2 False by (simp add: pay_claim_def sub_i128_def)
    then show thesis by (rule that) (use False rest in simp)
  qed
qed

lemma pay_claim_vault:
  assumes "pay_claim (platform_env self tr sg) k x r c W = Inr (ra, W')"
  shows "vault (ext W') = vault (ext W)"
  using assms
  by (elim pay_claim_inv)
    (auto simp: bindE_eq_Inr transfer_vault pay_if_positive_vault split: if_splits option.splits)

lemma deposit_credits:
  assumes "in_i128 (accounted (ext W) tok + n)"
  shows "ext (try_invoke (platform_env self tr sg) tr ''deposit'' [VAddr tok, VI128 n] W)
    = (ext W)\<lparr>vault := (vault (ext W))\<lparr>t_balance := (t_balance (vault (ext W)))
                           (tok \<mapsto> accounted (ext W) tok + n)\<rparr>\<rparr>"
  using assms
  by (simp add: try_invoke_def vault_call_def vault_result_def deposit_def vault_world_def
      accounted_eq add_i128_def)

text \<open>Withdrawing everything through the stream contract: what is accounted for.\<close>

lemma withdraw_all_effect:
  assumes "withdraw_all_from_treasury (platform_env self tr sg) tok d W = Inr (n, W')"
    and "get_treasury (st W) = Some tr" "0 \<le> accounted (ext W) tok" "d \<noteq> tr"
  shows "n = accounted (ext W) tok \<and> accounted (ext W') tok = 0 \<and>
    tokens (ext W') tok tr = tokens (ext W) tok tr - accounted (ext W) tok"
  using assms
  by (auto simp: withdraw_all_from_treasury_def bindE_eq_Inr invoke_Inr vault_call_def
      vault_result_def vault_world_def withdraw_all_def accounted_eq Let_def treasury_transfer_Inr
      ledger_transfer_Some split: if_splits sum.splits)

section \<open>A concrete platform\<close>

text \<open>
  The contract is \<open>Addr 0\<close> and holds 7200 of the token \<open>Addr 9\<close>, the treasury is \<open>Addr 7\<close> and has
  and accounts for 300 of it, and the fee is 2.5 percent. \<open>Addr 1\<close> administers both contracts.
\<close>

definition demo_platform :: platform where
  "demo_platform =
     \<lparr>tokens = (\<lambda>t a. if t = Addr 9 then (if a = Addr 0 then 7200 else if a = Addr 7 then 300
                        else 0) else 0),
      vault = \<lparr>t_admin = Some (Addr 1), t_lp_pool = None, t_split = None,
               t_balance = [Addr 9 \<mapsto> 300]\<rparr>\<rparr>"

definition demo_platform_world :: "platform world" where
  "demo_platform_world =
     \<lparr>st = empty_storage\<lparr>i_admin := Some (Addr 1), i_treasury := Some (Addr 7),
             i_fee_bps := Some 250\<rparr>,
      ext = demo_platform, events = []\<rparr>"

lemma demo_platform_world_simps [simp]:
  "get_treasury (st demo_platform_world) = Some (Addr 7)"
  "get_protocol_fee (st demo_platform_world) = 250"
  "fees_ok (st demo_platform_world)"
  "\<not> storage_is_fee_exempt (st demo_platform_world) a"
  "accounted (ext demo_platform_world) (Addr 9) = 300"
  "accounted (ext demo_platform_world) (Addr 8) = 0"
  "tokens (ext demo_platform_world) (Addr 9) (Addr 7) = 300"
  "tokens (ext demo_platform_world) (Addr 9) (Addr 2) = 0"
  "tokens (ext demo_platform_world) (Addr 9) (Addr 0) = 7200"
  "read_admin (st demo_platform_world) = Some (Addr 1)"
  by (simp_all add: demo_platform_world_def demo_platform_def empty_storage_def fees_ok_def
      storage_is_fee_exempt_def accounted_eq get_treasury_def get_protocol_fee_def read_admin_def)

section \<open>The fees across the two contracts\<close>

text \<open>
  C24: a batch withdrawal's fee reaches the treasury's books. With the treasury contract in place
  the claim is split between recipient and treasury, and the treasury's accounted balance of the
  token grows by exactly the fee it received, so a treasury that accounts for all it has
  continues to; its balances of other tokens do not change.
\<close>

theorem batch_fees_credited:
  assumes parties: "distinct [r, tr, self]" and fees: "fees_ok (st W)" and c: "0 < c"
    and treasury: "get_treasury (st W) = Some tr"
    and room: "0 \<le> accounted (ext W) (s_token x)" "in_i128 (accounted (ext W) (s_token x) + c)"
    and op: "pay_claim_batch (platform_env self tr sg) x r c W = Inr W'"
  shows "\<exists>fee. fee = (if storage_is_fee_exempt (st W) (s_recipient x) then 0
                 else c * int (get_protocol_fee (st W)) div 10000) \<and> 0 \<le> fee \<and> fee \<le> c \<and>
     accounted (ext W') (s_token x) = accounted (ext W) (s_token x) + fee \<and>
     tokens (ext W') (s_token x) tr = tokens (ext W) (s_token x) tr + fee \<and>
     tokens (ext W') (s_token x) r = tokens (ext W) (s_token x) r + (c - fee) \<and>
     tokens (ext W') (s_token x) self = tokens (ext W) (s_token x) self - c \<and>
     (\<forall>tk. tk \<noteq> s_token x \<longrightarrow> accounted (ext W') tk = accounted (ext W) tk)"
proof -
  let ?env = "platform_env self tr sg" and ?tok = "s_token x"
  obtain ra W1 where claim: "pay_claim ?env 0 x r c W = Inr (ra, W1)"
    and W': "ext W' = (if 0 < c - ra
       then ext (try_invoke ?env tr ''deposit'' [VAddr ?tok, VI128 (c - ra)] W1)
       else ext W1)"
    by (rule pay_claim_batch_inv [OF op treasury, where k = 0])
  have "self \<noteq> tr" and p: "distinct [r, tr, current_contract ?env]" using parties by auto
  then have sac: "sac ?env ?tok" using platform_honest by (simp add: honest_token_def)
  define fee where "fee = (if storage_is_fee_exempt (st W) (s_recipient x) then 0
      else c * int (get_protocol_fee (st W)) div 10000)"
  note pc = pay_claim_exact [OF sac fees c claim treasury p, folded fee_def]
  have vault: "vault (ext W1) = vault (ext W)" by (rule pay_claim_vault [OF claim])
  then have acc: "accounted (ext W1) = accounted (ext W)" by (simp add: accounted_eq fun_eq_iff)
  have "in_i128 (accounted (ext W1) ?tok + fee)"
    by (rule in_i128_below [OF _ _ room(2)]) (use pc(2,3) room(1) acc in simp_all)
  from deposit_credits [OF this, of self tr sg] W' pc(1,2)
  have credit: "tokens (ext W') = tokens (ext W1)"
    "accounted (ext W') tk = accounted (ext W) tk + (if tk = ?tok then fee else 0)" for tk
    by (auto simp: accounted_eq vault split: if_splits)
  show ?thesis
    using pc(2,3,5-7) credit(1) credit(2)
    by (intro exI [of _ fee]) (simp add: fee_def [symmetric] balance_of_def)
qed

theorem batch_fees_credited_witness:
  "\<exists>W'. pay_claim_batch (platform_env (Addr 0) (Addr 7) (\<lambda>a. a = Addr 2)) demo_stream (Addr 2) 2000
       demo_platform_world = Inr W' \<and>
     accounted (ext W') (Addr 9) = 350 \<and> tokens (ext W') (Addr 9) (Addr 7) = 350"
proof -
  let ?env = "platform_env (Addr 0) (Addr 7) (\<lambda>a. a = Addr 2)"
  obtain W' where op: "pay_claim_batch ?env demo_stream (Addr 2) 2000 demo_platform_world = Inr W'"
    by (simp add: pay_claim_batch_def fee_on_claim_def demo_stream_def eval_simps
        demo_platform_world_def demo_platform_def)
  from batch_fees_credited [OF _ _ _ _ _ _ op] op show ?thesis
    by (auto simp: demo_stream_def in_i128_def i128_min_def i128_max_def)
qed

text \<open>
  C36: an ordinary withdrawal's fee does not. The treasury receives the tokens, but its books
  stay as they were, so when the admin then withdraws everything through the stream contract,
  what comes out is the balance accounted before, and the fee stays behind where no instruction
  of the treasury can pay it out.
\<close>

theorem withdraw_fees_uncredited:
  assumes parties: "distinct [r, tr, self]" and fees: "fees_ok (st W)" and c: "0 < c"
    and treasury: "get_treasury (st W) = Some tr"
    and backed: "0 \<le> accounted (ext W) (s_token x)"
      "accounted (ext W) (s_token x) = tokens (ext W) (s_token x) tr"
    and op: "pay_claim (platform_env self tr sg) k x r c W = Inr (ra, W1)"
    and all: "withdraw_all_from_treasury (platform_env self tr sg) (s_token x) d W1 = Inr (n, W2)"
    and d: "d \<noteq> tr"
  shows "\<exists>fee. fee = (if storage_is_fee_exempt (st W) (s_recipient x) then 0
                 else c * int (get_protocol_fee (st W)) div 10000) \<and> 0 \<le> fee \<and>
     tokens (ext W1) (s_token x) tr = tokens (ext W) (s_token x) tr + fee \<and>
     accounted (ext W1) (s_token x) = accounted (ext W) (s_token x) \<and>
     n = accounted (ext W) (s_token x) \<and>
     tokens (ext W2) (s_token x) tr = fee \<and> accounted (ext W2) (s_token x) = 0"
proof -
  let ?env = "platform_env self tr sg" and ?tok = "s_token x"
  have "self \<noteq> tr" and p: "distinct [r, tr, current_contract ?env]" using parties by auto
  then have sac: "sac ?env ?tok" using platform_honest by (simp add: honest_token_def)
  define fee where "fee = (if storage_is_fee_exempt (st W) (s_recipient x) then 0
      else c * int (get_protocol_fee (st W)) div 10000)"
  note pc = pay_claim_exact [OF sac fees c op treasury p, folded fee_def]
  have vault: "vault (ext W1) = vault (ext W)" by (rule pay_claim_vault [OF op])
  then have acc: "accounted (ext W1) ?tok = accounted (ext W) ?tok" by (simp add: accounted_eq)
  have out: "n = accounted (ext W1) ?tok \<and> accounted (ext W2) ?tok = 0 \<and>
      tokens (ext W2) ?tok tr = tokens (ext W1) ?tok tr - accounted (ext W1) ?tok"
    by (rule withdraw_all_effect [OF all]) (use treasury pc(4) backed(1) acc d in simp_all)
  show ?thesis
    using pc(2,6) acc out backed(2)
    by (intro exI [of _ fee]) (simp add: fee_def [symmetric])
qed

theorem withdraw_fees_uncredited_witness:
  "\<exists>W1 W2. pay_claim (platform_env (Addr 0) (Addr 7) (\<lambda>a. a = Addr 1)) 5 demo_stream (Addr 2) 2000
       demo_platform_world = Inr (1950, W1) \<and>
     withdraw_all_from_treasury (platform_env (Addr 0) (Addr 7) (\<lambda>a. a = Addr 1)) (Addr 9) (Addr 3) W1
       = Inr (300, W2) \<and>
     tokens (ext W2) (Addr 9) (Addr 7) = 50 \<and> accounted (ext W2) (Addr 9) = 0"
proof -
  let ?env = "platform_env (Addr 0) (Addr 7) (\<lambda>a. a = Addr 1)"
  obtain W1 where op: "pay_claim ?env 5 demo_stream (Addr 2) 2000 demo_platform_world
      = Inr (1950, W1)" and W1: "st W1 = st demo_platform_world"
      "vault (ext W1) = vault demo_platform" "tokens (ext W1) (Addr 9) (Addr 7) = 350"
    by (simp add: pay_claim_def fee_on_claim_def demo_stream_def eval_simps
        demo_platform_world_def demo_platform_def)
  obtain W2 where all: "withdraw_all_from_treasury ?env (s_token demo_stream) (Addr 3) W1
      = Inr (300, W2)"
    by (simp add: withdraw_all_from_treasury_def check_admin_def require_auth_def invoke_def
        vault_call_def vault_result_def vault_world_def withdraw_all_def treasury_check_admin_def
        treasury_read_admin_def treasury_set_def treasury_transfer_def ledger_transfer_def
        ok_or_def Let_def W1 demo_stream_def demo_platform_def)
  from withdraw_fees_uncredited [OF _ _ _ _ _ _ op all] op all show ?thesis
    by (auto simp: demo_stream_def)
qed

end
