(* ===== verification/Spec2Isabelle.thy ===== *)
theory Spec2Isabelle
  imports Read_Only Batches Pause Harnesses Treasury Proxy Composition
begin

text \<open>
  SoroStream: payment streams on Soroban, verified.

  \<^bold>\<open>The program.\<close> Three contracts. The stream contract (\<open>src/contracts/stream/src\<close>) locks a
  deposit of a sender in a token and releases it to a recipient at a constant rate per second:
  \<open>vesting_math.rs\<close> is its arithmetic, \<open>types.rs\<close> and \<open>errors.rs\<close> its data, \<open>storage.rs\<close> its
  storage keys, indexes and audit log, \<open>events.rs\<close> its events, \<open>lib.rs\<close> its instructions and
  \<open>interface.rs\<close> the trait they are called through. The treasury contract
  (\<open>src/contracts/treasury\<close>) keeps the protocol fees per token and distributes them; the proxy
  contract (\<open>src/contracts/proxy\<close>) stores the hash of the current implementation. The stream
  contract calls token contracts (\<open>transfer\<close>), the treasury (\<open>deposit\<close>, \<open>withdraw_treasury\<close>,
  \<open>withdraw_all\<close>) and a recipient's callback (\<open>on_stream_withdraw\<close>, failures ignored).

  \<^bold>\<open>How it is modelled.\<close> A Rust function is a HOL function of the same name (a suffix or a
  prefix \<open>storage_\<close> where the name is taken) over an environment record and a world. A world is
  the contract's storage (\<open>st\<close>, a record with one field per key family of \<open>storage.rs\<close>), the
  events published so far, and the state \<open>ext\<close> of everything outside, whose type is a parameter.
  The environment (\<open>Host\<close>) gives what the host and other contracts answer: ledger time,
  authorisations, token transfers and balances, contract calls, hashing. A result is an
  \<open>outcome\<close>: a value with the new world, a contract error \<open>Err\<close>, or a panic; a \<open>?\<close>, an early
  return, a \<open>require_auth\<close> that traps, an \<open>unwrap\<close> and an overflow are each a branch. Errors and
  panics carry no world because the host discards the effects of a failed invocation; where the
  contract itself catches errors (\<open>batch_cancel_stream\<close>) the model goes on from the world before.
  \<open>u32\<close> and \<open>u64\<close> are \<open>nat\<close>, \<open>i128\<close> is \<open>int\<close>, and every operation that can leave its width says
  so (checked, saturating, or panicking: the release profile keeps overflow checks on). Bytes of
  keys and ids are 8-bit words. Each \<open>for\<close> loop is a structural recursion over the list or the
  positions it runs through, so every function is total and there is no fuel anywhere.

  \<^bold>\<open>The theories.\<close>
  \<^item> \<open>Prelude\<close>: outcomes, Rust integers, sums over finite maps, runs of a machine and the locale
    \<open>machine_invariant\<close> (what every step keeps holds after every run).
  \<^item> \<open>Types\<close>, \<open>Vesting_Math\<close>: the data; the arithmetic with its laws (closed forms, no overflow,
    bounds, conservation, exact agreement with the reference functions of
    \<open>differential_fuzz.rs\<close>).
    \<open>Harnesses\<close>: the Kani harnesses of \<open>vesting_math.rs\<close> as programs, shown to succeed on every
    value they can draw.
  \<^item> \<open>Host\<close>, \<open>Events\<close>, \<open>Storage\<close>: the parameters, the events, the keys and accessors,
    and what a derived stream id depends on.
    \<open>Slot_Index\<close>: the counter-and-slots indexes with swap removal, as the locale
    \<open>stream_index\<close>, interpreted for senders and for recipients. \<open>Audit_Log\<close>: the ring buffer
    refines a list truncated to twenty entries.
  \<^item> \<open>Admin\<close>, \<open>Create_Stream\<close>, \<open>Withdraw\<close>, \<open>Cancel\<close>, \<open>Manage\<close>, \<open>Batch\<close>, \<open>Queries\<close>: the instructions
    of \<open>lib.rs\<close>, whole, in the order of the code's checks and writes. \<open>Interface\<close>: the type \<open>call\<close>
    of the state-changing entry points, in four groups as the trait lists them, and their dispatch
    \<open>exec\<close>; the read-only half, with its dispatch, is in \<open>Queries\<close>.
  \<^item> \<open>Accounting\<close>, \<open>Solvency\<close>, \<open>Solvency_Cancel\<close>, \<open>Solvency_Manage\<close>, \<open>Solvency_Batch\<close>: the books.
    \<open>books_ok\<close> says that every stored stream is well formed (\<open>funded\<close>: its rate times its length
    is within its deposit, what was withdrawn had been streamed) and that the contract's balance
    of a token covers what it owes on the live streams in it; one lemma per instruction.
    \<open>Machine\<close> makes invocations, aborted invocations and outside activity the steps of a machine
    and concludes solvency after every run.
  \<^item> \<open>Settlement\<close>, \<open>Claims\<close>, \<open>Lifecycle\<close>, \<open>Batches\<close>: what the instructions do in any reachable
    state, to the token: cancelling, termination by the recipient, partial cancelling,
    withdrawing, the final withdrawal with and without renewal, topping up, pausing,
    transferring, archiving, batches.
  \<^item> \<open>Registry\<close>, \<open>Registry_Runs\<close>: a small machine of changes to the stream table (save, open,
    close, hand over, change settings), each with the authorisation it takes, that every
    entry point refines (\<open>exec_evolves\<close>). Its invariants give \<open>Index_Consistency\<close> (the indexes
    agree with the table, the pages are complete), \<open>Access\<close> (strangers cannot touch a stream,
    only the admin changes settings, what a creation files and that it is not replayed),
    \<open>Read_Only\<close> (every query returns) and \<open>Pause\<close> (which entry points the emergency pause stops,
    and for how long).
  \<^item> \<open>Treasury\<close>, \<open>Proxy\<close>: the other two contracts, each with its machine and invariant.
  \<^item> \<open>Composition\<close>: the stream contract with the treasury contract answering its calls, on one
    ledger. It meets \<open>honest_token\<close>, and its lemmas follow a protocol fee from a claim into the
    treasury's books, or past them.

  \<^bold>\<open>Assumptions\<close>, each a named hypothesis met by the reference ledger of \<open>Host\<close>, on which the
  witnesses run: \<open>honest_token\<close> (a transfer moves exactly the amount, which the payer has, and
  nothing else lowers the contract's balance while it runs), \<open>liquid\<close> (a covered transfer goes
  through; only for the claim that cancelling succeeds), ledger times are \<open>u64\<close> and do not go
  back, arguments are in the range of their types (\<open>call_ok\<close>), and the contract does not sign
  its own invocation. \<open>careful\<close> runs have no partial cancellation whose derived id is already
  taken, which the code does not check; the agreement of the indexes and the completeness of the
  pages hold after such runs only, the protection of a stream from strangers as long as no
  partial cancellation takes its own id, and \<open>Access\<close> shows what happens otherwise.
  Ids are derived by hashing; nothing assumes that the hash has no collisions.

  \<^bold>\<open>What the theorems show.\<close> The contract is solvent for every honest token, pays what it owes on
  cancellation and can always cancel, takes and pays the exact amounts the code promises, keeps
  its indexes, protects streams and settings, and answers every query. Some theorems pin down
  behaviour the authors may not want: anybody can set the fee and the treasury
  (\<open>Access\<close>), a withdrawal before the cliff forfeits what has streamed and a batch withdrawal
  ignores the cliff (\<open>Claims\<close>), a batch cancellation ignores that a stream is paused (\<open>Batches\<close>), the emergency pause does not
  stop cancellations (\<open>Pause\<close>), archiving strands the dust (\<open>Lifecycle\<close>), a renewal keeps the
  dust of the finished cycle and needs the sender's signature (\<open>Claims\<close>), the fees of
  ordinary withdrawals never reach the treasury's books (\<open>Composition\<close>), and unbacked deposits
  block the treasury (\<open>Treasury\<close>).

  \<^bold>\<open>Not modelled.\<close> Time-to-live and archival of ledger entries (the code never extends them);
  gas and resource limits, hence the benchmarks \<open>cost_bench.rs\<close> and \<open>storage_bench.rs\<close>, which
  measure nothing else; the tests, apart from the Kani harnesses; the behaviour
  of a new implementation after \<open>upgrade\<close> (the machine goes on with this code); re-entrance, which the host forbids; build files,
  scripts and documentation. \<open>lib.rs\<close> lacks the closing brace of \<open>get_pause_expiry\<close> in the trait
  implementation and repeats imports; it is read with the brace in place.
\<close>

end
